(* ===== verification/Prelude.thy ===== *)
theory Prelude
  imports Main "HOL-Library.Monad_Syntax" "HOL-Library.Word"
begin

text \<open>
  Shared vocabulary of the development.

  C values: an address is a natural number with 0 for \<open>NULL\<close>; a string without its
  terminating NUL byte is a \<open>string\<close>; a fixed-width integer is a word.
  Two effects are used throughout.
  \<^item> \<open>'a option\<close> inside the pointer structures of \<open>CList\<close>: \<open>None\<close> is an access
    to an address that is not allocated, a failed \<open>g_assert\<close>, or a loop that does
    not end.
  \<^item> \<open>'a res\<close> everywhere else: \<open>Inl e\<close> says how the C program stops or leaves
    defined behaviour, \<open>Inr x\<close> is a normal return.
  The functions \<open>bindr\<close> and \<open>lift_opt\<close> sequence and embed them. The collections
  \<open>res_simps\<close>, \<open>list_laws\<close> and \<open>ring_laws\<close> gather the rewrite rules the component
  theories share.
\<close>

section \<open>Abnormal ends\<close>

text \<open>The ways in which a modelled C function can fail to return normally.\<close>

datatype crash =
    NullDeref            \<comment> \<open>a NULL pointer is dereferenced\<close>
  | WildPtr              \<comment> \<open>a dangling or otherwise invalid pointer is dereferenced\<close>
  | OutOfRange           \<comment> \<open>an array is indexed outside its bounds\<close>
  | AssertAbort          \<comment> \<open>\<open>g_assert\<close>, \<open>g_assert_not_reached\<close> or \<open>abort\<close>\<close>
  | IntOverflow          \<comment> \<open>signed overflow, or a size \<open>g_renew\<close> cannot serve\<close>
  | BadFormat            \<comment> \<open>a printf directive without a fitting argument\<close>
  | Exited nat           \<comment> \<open>\<open>exit\<close> with this status\<close>
  | KilledBy nat         \<comment> \<open>the process dies of this signal\<close>

type_synonym 'a res = "crash + 'a"

named_theorems res_simps "evaluation of sequenced computations"
named_theorems list_laws "list lemmas shared by the components"
named_theorems ring_laws "facts about rings of list nodes"

fun bindr :: "'e + 'a \<Rightarrow> ('a \<Rightarrow> 'e + 'b) \<Rightarrow> 'e + 'b" where
  "bindr (Inl e) f = Inl e"
| "bindr (Inr x) f = f x"

lemma bindr_cong [fundef_cong]:
  assumes "first = first'" and "\<And>r. first' = Inr r \<Longrightarrow> rest r = rest' r"
  shows "bindr first rest = bindr first' rest'"
  using assms by (cases first') simp_all

lemma bindr_eq_Inr [res_simps]:
  "bindr m f = Inr y \<longleftrightarrow> (\<exists>x. m = Inr x \<and> f x = Inr y)"
  by (cases m) auto

lemma bindr_eq_Inl [res_simps]:
  "bindr m f = Inl e \<longleftrightarrow> m = Inl e \<or> (\<exists>x. m = Inr x \<and> f x = Inl e)"
  by (cases m) auto

lemma bindr_nested [res_simps]:
  "bindr (bindr first then_do) and_then = bindr first (\<lambda>r. bindr (then_do r) and_then)"
  by (cases first) auto

lemma bindr_Inr [simp]: "bindr m Inr = m"
  by (cases m) auto

definition guard_res :: "crash \<Rightarrow> bool \<Rightarrow> unit res" where
  "guard_res e b = (if b then Inr () else Inl e)"

lemma guard_res_simps [simp]:
  "guard_res e True = Inr ()" "guard_res e False = Inl e"
  by (simp_all add: guard_res_def)

lemma guard_res_eq [res_simps]:
  "guard_res e b = Inr u \<longleftrightarrow> b" "guard_res e b = Inl e' \<longleftrightarrow> \<not> b \<and> e' = e"
  by (auto simp: guard_res_def)

fun lift_opt :: "crash \<Rightarrow> 'a option \<Rightarrow> 'a res" where
  "lift_opt e None = Inl e"
| "lift_opt e (Some x) = Inr x"

lemma lift_opt_eq_Inr [res_simps]: "lift_opt e m = Inr x \<longleftrightarrow> m = Some x"
  by (cases m) auto

text \<open>Running a list of steps that may fail, from left to right.\<close>

fun fold_res :: "('a \<Rightarrow> 's \<Rightarrow> 'e + 's) \<Rightarrow> 'a list \<Rightarrow> 's \<Rightarrow> 'e + 's" where
  "fold_res f [] s = Inr s"
| "fold_res f (x # xs) s = bindr (f x s) (fold_res f xs)"

lemma fold_res_append [res_simps]:
  "fold_res f (xs @ ys) s = bindr (fold_res f xs s) (fold_res f ys)"
proof (induction xs arbitrary: s)
  case (Cons x xs)
  then show ?case by (cases "f x s") simp_all
qed simp

lemma fold_res_pure:
  assumes "\<And>x s. x \<in> set xs \<Longrightarrow> f x s = Inr (g x s)"
  shows "fold_res f xs s = Inr (fold g xs s)"
  using assms by (induction xs arbitrary: s) auto

lemma fold_res_invariant:
  assumes "\<And>x s s'. x \<in> set xs \<Longrightarrow> P s \<Longrightarrow> f x s = Inr s' \<Longrightarrow> P s'"
    and "P s" and "fold_res f xs s = Inr s'"
  shows "P s'"
  using assms by (induction xs arbitrary: s) (auto simp: res_simps)

section \<open>Lists\<close>

lemma nth_rotate1:
  "i < length xs \<Longrightarrow> rotate1 xs ! i = xs ! (Suc i mod length xs)"
  by (cases xs) (auto simp: nth_append mod_Suc)

lemma hd_rotate1: "2 \<le> length xs \<Longrightarrow> hd (rotate1 xs) = xs ! 1"
  by (cases xs; cases "tl xs") auto

lemma takeWhile_dropWhile_find [list_laws]:
  "List.find P xs = (case dropWhile (\<lambda>x. \<not> P x) xs of [] \<Rightarrow> None | y # _ \<Rightarrow> Some y)"
  by (induction xs) auto

lemma find_append [list_laws]:
  "List.find P (xs @ ys) = (case List.find P xs of Some x \<Rightarrow> Some x | None \<Rightarrow> List.find P ys)"
  by (induction xs) auto

lemma find_None_iff' [list_laws]: "List.find P xs = None \<longleftrightarrow> (\<forall>x\<in>set xs. \<not> P x)"
  by (induction xs) auto

end
