(* ===== verification/CStd.thy ===== *)
theory CStd
  imports Prelude
begin

text \<open>
  The parts of the C standard library the sources call on strings and numbers:
  \<open>strncmp\<close>, decimal and hexadecimal rendering, the printf directives that occur
  in the sources (\<open>vformat\<close>) and \<open>strtoul\<close> in base 10.
\<close>

section \<open>strcmp and strncmp\<close>

text \<open>
  A string is the list of its characters before the NUL byte. \<open>strncmp\<close> compares at
  most \<open>n\<close> characters and stops at the first difference or at the end of a string;
  the result is the difference of the two characters read last, as unsigned chars.
\<close>

definition char_at :: "string \<Rightarrow> int" where
  "char_at s = (case s of [] \<Rightarrow> 0 | c # _ \<Rightarrow> of_char c)"

fun strncmp :: "string \<Rightarrow> string \<Rightarrow> nat \<Rightarrow> int" where
  "strncmp s t 0 = 0"
| "strncmp [] t (Suc n) = 0 - char_at t"
| "strncmp s [] (Suc n) = char_at s"
| "strncmp (c # s) (d # t) (Suc n) =
     (if c = d then strncmp s t n else of_char c - of_char d)"

text \<open>No NUL byte occurs inside a C string.\<close>

definition c_string :: "string \<Rightarrow> bool" where
  "c_string s \<longleftrightarrow> CHR 0x00 \<notin> set s"

lemma of_char_eq_int [simp]: "((of_char c :: int) = of_char d) \<longleftrightarrow> c = d"
  by simp

lemma char_at_nonzero: "c_string (c # s) \<Longrightarrow> char_at (c # s) \<noteq> 0"
proof
  assume "c_string (c # s)" and "char_at (c # s) = 0"
  then have "(of_char c :: int) = of_char (CHR 0x00)" by (simp add: char_at_def)
  then have "c = CHR 0x00" by (simp only: of_char_eq_int)
  with \<open>c_string (c # s)\<close> show False by (simp add: c_string_def)
qed

lemma strncmp_eq_0_iff:
  "c_string s \<Longrightarrow> c_string t \<Longrightarrow> strncmp s t n = 0 \<longleftrightarrow> take n s = take n t"
proof (induction s t n rule: strncmp.induct)
  case (2 t n)
  then show ?case
    by (cases t) (auto simp: char_at_def dest: char_at_nonzero)
next
  case (3 c s n)
  then show ?case using char_at_nonzero [of c s] by simp
next
  case (4 c s d t n)
  then show ?case by (auto simp: c_string_def)
qed simp

lemma strncmp_full:
  assumes "c_string s" and "c_string t" and "length s = length t"
  shows "strncmp s t (length t) = 0 \<longleftrightarrow> s = t"
  using assms by (simp add: strncmp_eq_0_iff)

section \<open>Numbers as text\<close>

definition digit_char :: "bool \<Rightarrow> nat \<Rightarrow> char" where
  "digit_char upper d =
     (if upper then ''0123456789ABCDEF'' ! d else ''0123456789abcdef'' ! d)"

fun render_nat :: "bool \<Rightarrow> nat \<Rightarrow> nat \<Rightarrow> string" where
  "render_nat upper b n =
     (if n < b \<or> b < 2 then [digit_char upper n]
      else render_nat upper b (n div b) @ [digit_char upper (n mod b)])"

declare render_nat.simps [simp del]

definition nat_str :: "nat \<Rightarrow> string" where
  "nat_str n = render_nat False 10 n"

definition int_str :: "int \<Rightarrow> string" where
  "int_str i = (if i < 0 then CHR ''-'' # nat_str (nat (- i)) else nat_str (nat i))"

text \<open>
  A non-negative fraction \<open>n / d\<close> with \<open>p\<close> decimals, rounded to nearest, ties to even,
  as printf does for the exact value of a double.
\<close>

definition round_div :: "nat \<Rightarrow> nat \<Rightarrow> nat" where
  "round_div n d =
     (let q = n div d; r = n mod d
      in if 2 * r < d then q else if 2 * r > d then Suc q else if even q then q else Suc q)"

definition fixed_str :: "nat \<Rightarrow> nat \<Rightarrow> nat \<Rightarrow> string" where
  "fixed_str p n d =
     (let v = round_div (n * 10 ^ p) d; f = nat_str (v mod 10 ^ p)
      in nat_str (v div 10 ^ p) @
         (if p = 0 then [] else CHR ''.'' # replicate (p - length f) (CHR ''0'') @ f))"

text \<open>
  The \<open>double\<close> next to the quotient of two numbers, as the fraction \<open>m / 2 ^ s\<close> or
  \<open>m * 2 ^ s / 1\<close> with a mantissa of 53 bits; ties go to the even mantissa. The quotients
  in the sources are far from the ends of the exponent range.
\<close>

fun bit_len :: "nat \<Rightarrow> nat" where
  "bit_len n = (if n = 0 then 0 else Suc (bit_len (n div 2)))"

declare bit_len.simps [simp del]

definition double_shift :: "nat \<Rightarrow> nat \<Rightarrow> int" where
  "double_shift n d =
     (let s = 53 + int (bit_len d) - int (bit_len n)
      in if n * 2 ^ nat s \<ge> d * 2 ^ (53 + nat (- s)) then s - 1 else s)"

definition double_quot :: "nat \<Rightarrow> nat \<Rightarrow> nat \<times> nat" where
  "double_quot n d =
     (let s = double_shift n d; m = round_div (n * 2 ^ nat s) (d * 2 ^ nat (- s))
      in (m * 2 ^ nat (- s), 2 ^ nat s))"

text \<open>The decimal digits; the text of a number consists of them.\<close>

definition decimal_digits :: string where
  "decimal_digits = ''0123456789''"

lemma digit_char_decimal: "d < 10 \<Longrightarrow> digit_char u d \<in> set decimal_digits"
  by (auto simp: digit_char_def decimal_digits_def less_Suc_eq numeral_eq_Suc)

lemma set_nat_str: "set (nat_str n) \<subseteq> set decimal_digits"
proof -
  have "set (render_nat False b n) \<subseteq> set decimal_digits" if "b = 10" for b
    using that
  proof (induction False b n rule: render_nat.induct)
    case (1 b n)
    then show ?case
      using digit_char_decimal [of n False] digit_char_decimal [of "n mod b" False]
      by (subst render_nat.simps) auto
  qed
  then show ?thesis by (simp add: nat_str_def)
qed

lemma nat_str_nonempty: "nat_str n \<noteq> []"
  by (simp add: nat_str_def render_nat.simps [of False 10 n])

section \<open>strtoul\<close>

text \<open>
  \<open>strtoul (s, &end, 10)\<close>: the value and the rest at \<open>end\<close>. Without digits the value is 0
  and \<open>end\<close> is \<open>s\<close>; a minus sign negates the unsigned value; too large values give
  \<open>ULONG_MAX\<close>.
\<close>

definition is_digit :: "char \<Rightarrow> bool" where
  "is_digit c \<longleftrightarrow> c \<in> set ''0123456789''"

definition digit_val :: "char \<Rightarrow> nat" where
  "digit_val c = of_char c - of_char (CHR ''0'')"

definition is_space :: "char \<Rightarrow> bool" where
  "is_space c \<longleftrightarrow> c = CHR '' '' \<or> (9 \<le> (of_char c :: nat) \<and> (of_char c :: nat) \<le> 13)"

definition take_sign :: "string \<Rightarrow> bool \<times> string" where
  "take_sign s =
     (case s of [] \<Rightarrow> (False, [])
      | c # cs \<Rightarrow> if c = CHR ''-'' then (True, cs) else if c = CHR ''+'' then (False, cs) else (False, s))"

definition strtoul10 :: "string \<Rightarrow> 64 word \<times> string" where
  "strtoul10 s =
     (let (neg, t) = take_sign (dropWhile is_space s); ds = takeWhile is_digit t;
          v = foldl (\<lambda>a c. 10 * a + digit_val c) 0 ds
      in if ds = [] then (0, s)
         else (if v \<ge> 2 ^ 64 then - 1 else if neg then - of_nat v else of_nat v, dropWhile is_digit t))"

section \<open>printf\<close>

text \<open>
  The arguments of a variadic call: a 32-bit integer (\<open>int\<close>, \<open>unsigned\<close>, an enum or a
  \<open>gboolean\<close>), a string or \<open>NULL\<close>, a pointer, a finite \<open>double\<close> given as the fraction \<open>n / d\<close> it
  holds (\<open>double_quot\<close> makes these).
\<close>

datatype parg =
    PInt "32 word"
  | PStr "string option"
  | PPtr "64 word"
  | PDbl int nat

definition pint :: "int \<Rightarrow> parg" where
  "pint i = PInt (word_of_int i)"

definition pstr :: "string \<Rightarrow> parg" where
  "pstr s = PStr (Some s)"

text \<open>The directive being read: flags, width and precision.\<close>

record fspec =
  f_left :: bool
  f_zero :: bool
  f_width :: nat
  f_prec :: "nat option"

definition fspec0 :: fspec where
  "fspec0 = \<lparr>f_left = False, f_zero = False, f_width = 0, f_prec = None\<rparr>"

definition pad :: "fspec \<Rightarrow> string \<Rightarrow> string" where
  "pad sp s =
     (let n = f_width sp - length s
      in if f_left sp then s @ replicate n (CHR '' '')
         else if f_zero sp then replicate n (CHR ''0'') @ s
         else replicate n (CHR '' '') @ s)"

text \<open>
  One conversion: its text and the arguments left; \<open>None\<close> when the argument does not
  fit the directive (undefined in C). \<open>NULL\<close> for \<open>%s\<close> prints as glibc does.
\<close>

fun conversion :: "fspec \<Rightarrow> char \<Rightarrow> parg list \<Rightarrow> (string \<times> parg list) option" where
  "conversion sp c [] = (if c = CHR ''%'' then Some (''%'', []) else None)"
| "conversion sp c (a # as) =
     (if c = CHR ''%'' then Some (''%'', a # as) else
      map_option (\<lambda>t. (pad sp t, as))
       (case a of
          PInt w \<Rightarrow>
            (if c = CHR ''d'' then Some (int_str (sint w))
             else if c = CHR ''u'' then Some (nat_str (unat w))
             else if c = CHR ''x'' then Some (render_nat False 16 (unat w))
             else if c = CHR ''X'' then Some (render_nat True 16 (unat w))
             else if c = CHR ''c'' then Some [char_of (unat w)]
             else None)
        | PStr s \<Rightarrow>
            (if c = CHR ''s''
             then Some ((case f_prec sp of None \<Rightarrow> id | Some p \<Rightarrow> take p)
                          (case s of None \<Rightarrow> ''(null)'' | Some t \<Rightarrow> t))
             else None)
        | PPtr w \<Rightarrow>
            (if c = CHR ''p''
             then Some (if w = 0 then ''(nil)'' else ''0x'' @ render_nat False 16 (unat w))
             else None)
        | PDbl n d \<Rightarrow>
            (if c = CHR ''f''
             then Some ((if n < 0 then ''-'' else []) @
                    fixed_str (case f_prec sp of None \<Rightarrow> 6 | Some p \<Rightarrow> p) (nat (abs n)) d)
             else None)))"

text \<open>
  The scanner: outside a directive (\<open>None\<close>) characters are copied; inside one
  (\<open>Some sp\<close>) flags, width, precision and length modifiers are collected until the
  conversion character.
\<close>

fun vscan :: "string \<Rightarrow> fspec option \<Rightarrow> parg list \<Rightarrow> string option" where
  "vscan [] None as = Some []"
| "vscan [] (Some sp) as = None"
| "vscan (c # cs) None as =
     (if c = CHR ''%'' then vscan cs (Some fspec0) as
      else map_option (\<lambda>r. c # r) (vscan cs None as))"
| "vscan (c # cs) (Some sp) as =
     (if c = CHR ''-'' then vscan cs (Some (sp\<lparr>f_left := True\<rparr>)) as
      else if c = CHR ''.'' then vscan cs (Some (sp\<lparr>f_prec := Some 0\<rparr>)) as
      else if c = CHR ''l'' then vscan cs (Some sp) as
      else if c = CHR ''*'' then
        (case as of PInt w # as' \<Rightarrow> vscan cs (Some (sp\<lparr>f_width := unat w\<rparr>)) as' | _ \<Rightarrow> None)
      else if is_digit c then
        (case f_prec sp of
           Some p \<Rightarrow> vscan cs (Some (sp\<lparr>f_prec := Some (10 * p + digit_val c)\<rparr>)) as
         | None \<Rightarrow>
             if c = CHR ''0'' \<and> f_width sp = 0 then vscan cs (Some (sp\<lparr>f_zero := True\<rparr>)) as
             else vscan cs (Some (sp\<lparr>f_width := 10 * f_width sp + digit_val c\<rparr>)) as)
      else
        (case conversion sp c as of
           None \<Rightarrow> None
         | Some (t, as') \<Rightarrow> map_option (\<lambda>r. t @ r) (vscan cs None as')))"

definition vformat :: "string \<Rightarrow> parg list \<Rightarrow> string res" where
  "vformat fmt as = lift_opt BadFormat (vscan fmt None as)"

lemma vscan_literal:
  "CHR ''%'' \<notin> set s \<Longrightarrow> vscan (s @ cs) None as = map_option (\<lambda>r. s @ r) (vscan cs None as)"
  by (induction s; cases "vscan cs None as") auto

lemma vscan_percent_s:
  "vscan (CHR ''%'' # CHR ''s'' # cs) None (PStr (Some t) # as) =
     map_option (\<lambda>r. t @ r) (vscan cs None as)"
  by (simp add: is_digit_def pad_def fspec0_def)

lemma vscan_percent_d:
  "vscan (CHR ''%'' # CHR ''d'' # cs) None (PInt w # as) =
     map_option (\<lambda>r. int_str (sint w) @ r) (vscan cs None as)"
  by (simp add: is_digit_def pad_def fspec0_def)

lemmas vformat_simps = vformat_def vscan_percent_s vscan_percent_d pstr_def pint_def

end
