(* ===== verification/Names.thy ===== *)
theory Names
  imports CStd
begin

text \<open>
  \<open>lib/names.c\<close>, \<open>lib/tinu/names.h\<close>: tables of named constants and the two searches
  over them. A table is an array that ends with an entry whose name is \<open>NULL\<close>; reading
  past the last entry of the list models running off the array.
\<close>

section \<open>Tables\<close>

record name_table_entry =
  nt_key :: int                 \<comment> \<open>\<open>m_key\<close>, a \<open>gint64\<close>\<close>
  nt_name :: "string option"    \<comment> \<open>\<open>m_name\<close>, \<open>None\<close> for \<open>NULL\<close>\<close>
  nt_length :: int              \<comment> \<open>\<open>m_length\<close>, a \<open>gssize\<close>; negative: not known\<close>

type_synonym name_table = "name_table_entry list"

text \<open>
  What \<open>tinu_lookup_key\<close> returns: a pointer to a name, or the integer -1 converted to a
  pointer. \<open>NULL\<close> is not a result.
\<close>

datatype name_ptr = NamePtr string | MinusOnePtr

section \<open>The searches\<close>

text \<open>\<open>for (i = 0; table[i].m_name; i++) if (table[i].m_key == key) break;\<close>\<close>

fun scan_key :: "name_table \<Rightarrow> int \<Rightarrow> (name_table_entry option) res" where
  "scan_key [] key = Inl OutOfRange"
| "scan_key (e # table) key =
     (if nt_name e = None then Inr None
      else if nt_key e = key then Inr (Some e)
      else scan_key table key)"

text \<open>
  The second component is what is stored through \<open>length\<close>: \<open>None\<close> when nothing is
  stored, because \<open>length\<close> is \<open>NULL\<close> (\<open>want_length = False\<close>) or nothing was found.
\<close>

definition tinu_lookup_key :: "name_table \<Rightarrow> int \<Rightarrow> bool \<Rightarrow> (name_ptr \<times> int option) res" where
  "tinu_lookup_key table key want_length =
     bindr (scan_key table key) (\<lambda>found.
       case found of
         None \<Rightarrow> Inr (MinusOnePtr, None)
       | Some e \<Rightarrow>
           (case nt_name e of
              None \<Rightarrow> Inr (MinusOnePtr, None)
            | Some nm \<Rightarrow>
                Inr (NamePtr nm,
                     if want_length
                     then Some (if nt_length e \<ge> 0 then nt_length e else int (length nm))
                     else None)))"

fun scan_name :: "name_table \<Rightarrow> string \<Rightarrow> nat \<Rightarrow> (name_table_entry option) res" where
  "scan_name [] name rlen = Inl OutOfRange"
| "scan_name (e # table) name rlen =
     (case nt_name e of
        None \<Rightarrow> Inr None
      | Some nm \<Rightarrow>
          if nt_length e \<ge> 0 \<and> nt_length e \<noteq> int rlen then scan_name table name rlen
          else if strncmp nm name rlen = 0 then Inr (Some e)
          else scan_name table name rlen)"

definition tinu_lookup_name :: "name_table \<Rightarrow> string \<Rightarrow> int \<Rightarrow> int \<Rightarrow> int res" where
  "tinu_lookup_name table name len errkey =
     bindr (scan_name table name (if len \<ge> 0 then nat len else length name)) (\<lambda>found.
       case found of None \<Rightarrow> Inr errkey | Some e \<Rightarrow> Inr (nt_key e))"

section \<open>Well-formed tables\<close>

text \<open>
  The tables of the sources: named entries with distinct keys and names and then the
  terminator. \<open>exact_table\<close> asks in addition that every stored length is the length of
  its name, as in all four tables of the library.
\<close>

definition terminator :: name_table_entry where
  "terminator = \<lparr>nt_key = 0, nt_name = None, nt_length = 0\<rparr>"

definition entry_named :: "name_table_entry \<Rightarrow> bool" where
  "entry_named e \<longleftrightarrow> (case nt_name e of None \<Rightarrow> False | Some nm \<Rightarrow> c_string nm)"

definition entry_exact :: "name_table_entry \<Rightarrow> bool" where
  "entry_exact e \<longleftrightarrow>
     (case nt_name e of None \<Rightarrow> False | Some nm \<Rightarrow> c_string nm \<and> nt_length e = int (length nm))"

definition exact_table :: "name_table \<Rightarrow> bool" where
  "exact_table table \<longleftrightarrow>
     table \<noteq> [] \<and> nt_name (last table) = None \<and>
     list_all entry_exact (butlast table) \<and>
     distinct (map nt_key (butlast table)) \<and> distinct (map nt_name (butlast table))"

lemma entry_exact_named: "entry_exact e \<Longrightarrow> entry_named e"
  by (auto simp: entry_exact_def entry_named_def split: option.splits)

lemma entry_exactE:
  assumes "entry_exact e"
  obtains nm where "nt_name e = Some nm" "c_string nm" "nt_length e = int (length nm)"
  using assms by (auto simp: entry_exact_def split: option.splits)

section \<open>What the searches find\<close>

lemma scan_key_named:
  assumes "list_all entry_named es" and "nt_name t = None"
  shows "scan_key (es @ t # ts) key = Inr (List.find (\<lambda>e. nt_key e = key) es)"
  using assms by (induction es) (auto simp: entry_named_def split: option.splits)

lemma scan_name_exact:
  assumes "list_all entry_exact es" and "nt_name t = None" and "c_string name"
  shows "scan_name (es @ t # ts) name (length name) =
           Inr (List.find (\<lambda>e. nt_name e = Some name) es)"
  using assms
proof (induction es)
  case (Cons e es)
  then obtain nm where nm: "nt_name e = Some nm" "c_string nm" "nt_length e = int (length nm)"
    by (auto elim: entry_exactE)
  show ?case
  proof (cases "length nm = length name")
    case True
    then have "strncmp nm name (length name) = 0 \<longleftrightarrow> nm = name"
      using nm Cons.prems(3) by (simp add: strncmp_full)
    then show ?thesis using nm Cons True by simp
  next
    case False
    then have "nm \<noteq> name" by auto
    then show ?thesis using nm Cons False by simp
  qed
qed simp

lemma find_unique:
  assumes "distinct (map f es)" and "e \<in> set es"
  shows "List.find (\<lambda>e'. f e' = f e) es = Some e"
  using assms by (induction es) (auto simp: image_iff)

lemma exact_table_split:
  assumes "exact_table table"
  obtains es t where "table = es @ [t]" "nt_name t = None" "list_all entry_exact es"
    "distinct (map nt_key es)" "distinct (map nt_name es)"
  using assms unfolding exact_table_def by (metis append_butlast_last_id)

text \<open>
  An entry whose length is not stored (\<open>m_length < 0\<close>) is compared over the length of
  the searched name only: every entry the name is a prefix of matches.
\<close>

lemma scan_name_prefix:
  assumes "list_all (\<lambda>e. entry_named e \<and> nt_length e < 0) es" and "nt_name t = None"
    and "c_string name"
  shows "scan_name (es @ t # ts) name (length name) =
           Inr (List.find (\<lambda>e. take (length name) (the (nt_name e)) = name) es)"
  using assms
  by (induction es) (auto simp: entry_named_def strncmp_eq_0_iff split: option.splits)

section \<open>Properties\<close>

text \<open>In a table with exact lengths and distinct keys and names the two searches are
  inverse to each other: the name found for an entry's key is the entry's name with its
  length, and searching that name (with its length or with -1) gives the key back. A name
  or key that does not occur gives the caller's error key and the pointer -1.\<close>

theorem lookup_roundtrip:
  assumes "exact_table table" and "c_string name"
  shows "(\<forall>e \<in> set (butlast table). \<exists>nm. nt_name e = Some nm \<and>
             tinu_lookup_key table (nt_key e) True = Inr (NamePtr nm, Some (int (length nm))) \<and>
             tinu_lookup_name table nm (-1) err = Inr (nt_key e) \<and>
             tinu_lookup_name table nm (int (length nm)) err = Inr (nt_key e)) \<and>
         ((\<forall>e \<in> set (butlast table). nt_name e \<noteq> Some name) \<longrightarrow>
             tinu_lookup_name table name (-1) err = Inr err) \<and>
         ((\<forall>e \<in> set (butlast table). nt_key e \<noteq> key) \<longrightarrow>
             tinu_lookup_key table key True = Inr (MinusOnePtr, None))"
proof -
  obtain es t where t: "table = es @ [t]" "nt_name t = None" "list_all entry_exact es"
      "distinct (map nt_key es)" "distinct (map nt_name es)"
    using exact_table_split [OF assms(1)] .
  have named: "list_all entry_named es"
    using t(3) by (auto simp: list_all_iff intro: entry_exact_named)
  have key: "scan_key table k = Inr (List.find (\<lambda>e. nt_key e = k) es)" for k
    using scan_key_named [OF named t(2), of "[]"] by (simp add: t(1))
  have nam: "scan_name table nm (length nm) = Inr (List.find (\<lambda>e. nt_name e = Some nm) es)"
    if "c_string nm" for nm
    using scan_name_exact [OF t(3,2) that, of "[]"] by (simp add: t(1))
  have "\<exists>nm. nt_name e = Some nm \<and>
         tinu_lookup_key table (nt_key e) True = Inr (NamePtr nm, Some (int (length nm))) \<and>
         tinu_lookup_name table nm (-1) err = Inr (nt_key e) \<and>
         tinu_lookup_name table nm (int (length nm)) err = Inr (nt_key e)"
    if e: "e \<in> set es" for e
  proof -
    obtain nm where nm: "nt_name e = Some nm" "c_string nm" "nt_length e = int (length nm)"
      using e t(3) by (auto simp: list_all_iff elim: entry_exactE)
    have "List.find (\<lambda>e'. nt_name e' = Some nm) es = Some e"
      using find_unique [OF t(5) e] nm(1) by simp
    then show ?thesis
      using find_unique [OF t(4) e] nm nam [OF nm(2)]
      by (simp add: tinu_lookup_key_def tinu_lookup_name_def key)
  qed
  moreover have "tinu_lookup_name table name (-1) err = Inr err"
    if "\<forall>e \<in> set es. nt_name e \<noteq> Some name"
    using that nam [OF assms(2)] by (simp add: tinu_lookup_name_def find_None_iff' [symmetric])
  moreover have "tinu_lookup_key table key True = Inr (MinusOnePtr, None)"
    if "\<forall>e \<in> set es. nt_key e \<noteq> key"
    using that by (simp add: tinu_lookup_key_def key find_None_iff' [symmetric])
  ultimately show ?thesis by (simp add: t(1))
qed

definition two_entries :: name_table where
  "two_entries =
     [\<lparr>nt_key = 4, nt_name = Some ''four'', nt_length = 4\<rparr>,
      \<lparr>nt_key = 7, nt_name = Some ''seven'', nt_length = 5\<rparr>, terminator]"

lemma lookup_roundtrip_witness:
  "(\<exists>nm. nt_name (hd two_entries) = Some nm \<and>
      tinu_lookup_key two_entries (nt_key (hd two_entries)) True =
        Inr (NamePtr nm, Some (int (length nm)))) \<and>
   tinu_lookup_name two_entries ''sev'' (-1) 9 = Inr 9 \<and>
   tinu_lookup_key two_entries 5 True = Inr (MinusOnePtr, None)"
proof -
  have t: "exact_table two_entries"
    by (simp add: exact_table_def two_entries_def terminator_def entry_exact_def c_string_def)
  have s: "c_string ''sev''" by (simp add: c_string_def)
  have b: "butlast two_entries = [\<lparr>nt_key = 4, nt_name = Some ''four'', nt_length = 4\<rparr>,
      \<lparr>nt_key = 7, nt_name = Some ''seven'', nt_length = 5\<rparr>]"
    by (simp add: two_entries_def)
  show ?thesis
    using lookup_roundtrip [OF t s, of 9 5] unfolding b by (auto simp: two_entries_def)
qed

text \<open>In a table without stored lengths a name finds the first entry it is a prefix
  of, so an abbreviation is accepted and an earlier longer name hides a later exact one;
  the empty name finds the first entry.\<close>

theorem lookup_name_prefix:
  assumes "list_all (\<lambda>e. entry_named e \<and> nt_length e < 0) es" and "c_string name"
  shows "tinu_lookup_name (es @ [terminator]) name (-1) err =
           Inr (case List.find (\<lambda>e. take (length name) (the (nt_name e)) = name) es of
                  None \<Rightarrow> err | Some e \<Rightarrow> nt_key e)"
  using scan_name_prefix [OF assms(1) _ assms(2), of terminator "[]"]
  by (simp add: tinu_lookup_name_def terminator_def split: option.splits)

lemma lookup_name_prefix_witness:
  "tinu_lookup_name ([\<lparr>nt_key = 1, nt_name = Some ''infos'', nt_length = -1\<rparr>,
                      \<lparr>nt_key = 2, nt_name = Some ''info'', nt_length = -1\<rparr>] @ [terminator])
     ''info'' (-1) 9 = Inr 1"
  by (subst lookup_name_prefix) (simp_all add: entry_named_def c_string_def)

end
