(* ===== verification/Message.thy ===== *)
theory Message
  imports Names
begin

text \<open>
  \<open>lib/message.c\<close>, \<open>lib/tinu/message.h\<close>: log messages with a growing array of tags.
  The array is a block of slots, \<open>None\<close> for a slot nothing was stored in; the empty
  block is the \<open>NULL\<close> pointer, as \<open>g_renew (..., 0)\<close> returns it. A variable argument
  list of tags that ends with \<open>NULL\<close> is the list of the tags before it.
\<close>

section \<open>Messages and tags\<close>

record msg_tag =
  mt_tag :: string               \<comment> \<open>\<open>MessageTag.m_tag\<close>\<close>
  mt_value :: string             \<comment> \<open>\<open>MessageTag.m_value\<close>\<close>

record message =
  msg_priority :: int            \<comment> \<open>\<open>m_priority\<close>\<close>
  msg_message :: string          \<comment> \<open>\<open>m_message\<close>\<close>
  msg_tag_count :: nat           \<comment> \<open>\<open>m_tag_count\<close>\<close>
  msg_tags :: "msg_tag option list"  \<comment> \<open>\<open>m_tags\<close>: the allocated block\<close>

text \<open>The priorities of \<open>syslog.h\<close> and the name table.\<close>

abbreviation (input) "LOG_EMERG \<equiv> (0::int)"
abbreviation (input) "LOG_ALERT \<equiv> (1::int)"
abbreviation (input) "LOG_CRIT \<equiv> (2::int)"
abbreviation (input) "LOG_ERR \<equiv> (3::int)"
abbreviation (input) "LOG_WARNING \<equiv> (4::int)"
abbreviation (input) "LOG_NOTICE \<equiv> (5::int)"
abbreviation (input) "LOG_INFO \<equiv> (6::int)"
abbreviation (input) "LOG_DEBUG \<equiv> (7::int)"

definition name_entry :: "int \<Rightarrow> string \<Rightarrow> int \<Rightarrow> name_table_entry" where
  "name_entry k nm l = \<lparr>nt_key = k, nt_name = Some nm, nt_length = l\<rparr>"

definition MessagePriority_names :: name_table where
  "MessagePriority_names =
     [name_entry LOG_EMERG ''emergency'' 9, name_entry LOG_ALERT ''alert'' 5,
      name_entry LOG_CRIT ''critical'' 8, name_entry LOG_ERR ''error'' 5,
      name_entry LOG_WARNING ''warning'' 7, name_entry LOG_NOTICE ''notice'' 6,
      name_entry LOG_INFO ''info'' 4, name_entry LOG_DEBUG ''debug'' 5,
      terminator]"

section \<open>Blocks\<close>

text \<open>\<open>g_renew (MessageTag *, block, n)\<close> and a read of \<open>block[i]\<close>.\<close>

definition renew :: "'a option list \<Rightarrow> nat \<Rightarrow> 'a option list" where
  "renew block n = take n block @ replicate (n - length block) None"

definition block_get :: "'a option list \<Rightarrow> nat \<Rightarrow> 'a res" where
  "block_get block i =
     (if block = [] then Inl NullDeref
      else if length block \<le> i then Inl OutOfRange
      else lift_opt WildPtr (block ! i))"

definition block_set :: "'a option list \<Rightarrow> nat \<Rightarrow> 'a \<Rightarrow> 'a option list res" where
  "block_set block i x =
     (if block = [] then Inl NullDeref
      else if length block \<le> i then Inl OutOfRange
      else Inr (block[i := Some x]))"

definition memmove_block :: "'a list \<Rightarrow> nat \<Rightarrow> nat \<Rightarrow> nat \<Rightarrow> 'a list" where
  "memmove_block block dst src n = take dst block @ take n (drop src block) @ drop (dst + n) block"

section \<open>Building messages\<close>

text \<open>
  \<open>_msg_append_tag\<close>: \<open>sz\<close> is the caller's counter of the block's slots, an \<open>int\<close>
  that is doubled with \<open>*sz <<= 1\<close>.
\<close>

definition msg_append_tag :: "message \<Rightarrow> msg_tag \<Rightarrow> nat \<Rightarrow> (message \<times> nat) res" where
  "msg_append_tag msg tag sz =
     bindr
       (if msg_tag_count msg \<le> sz
        then bindr (if sz = 0 then Inr 4
                    else if 2 * sz < 2 ^ 31 then Inr (2 * sz) else Inl IntOverflow)
               (\<lambda>sz'. Inr (msg\<lparr>msg_tags := renew (msg_tags msg) sz'\<rparr>, sz'))
        else Inr (msg, sz))
       (\<lambda>(msg, sz).
          bindr (block_set (msg_tags msg) (msg_tag_count msg) tag) (\<lambda>tags.
            Inr (msg\<lparr>msg_tags := tags, msg_tag_count := Suc (msg_tag_count msg)\<rparr>, sz)))"

fun append_tags :: "message \<Rightarrow> msg_tag list \<Rightarrow> nat \<Rightarrow> (message \<times> nat) res" where
  "append_tags msg [] sz = Inr (msg, sz)"
| "append_tags msg (tag # vl) sz =
     bindr (msg_append_tag msg tag sz) (\<lambda>(msg, sz). append_tags msg vl sz)"

definition msg_vcreate :: "int \<Rightarrow> string \<Rightarrow> msg_tag list \<Rightarrow> message res" where
  "msg_vcreate priority msg vl =
     (let self = \<lparr>msg_priority = priority, msg_message = msg, msg_tag_count = 0, msg_tags = []\<rparr>
      in bindr (append_tags self vl 0) (\<lambda>(self, sz).
           Inr (self\<lparr>msg_tags := renew (msg_tags self) (msg_tag_count self)\<rparr>)))"

definition msg_create :: "int \<Rightarrow> string \<Rightarrow> msg_tag list \<Rightarrow> message res" where
  "msg_create priority msg vl = msg_vcreate priority msg vl"

definition msg_vappend :: "message \<Rightarrow> msg_tag list \<Rightarrow> message res" where
  "msg_vappend self vl =
     bindr (append_tags self vl (msg_tag_count self)) (\<lambda>(self, sz).
       Inr (self\<lparr>msg_tags := renew (msg_tags self) (msg_tag_count self)\<rparr>))"

definition msg_append :: "message \<Rightarrow> msg_tag list \<Rightarrow> message res" where
  "msg_append self vl = msg_vappend self vl"

text \<open>
  \<open>msg_copy\<close>: the new message comes zeroed from \<open>g_new0\<close>, so its \<open>m_tags\<close> is
  \<open>NULL\<close>; the loop reads and writes \<open>res->m_tags[i]\<close>.
\<close>

definition msg_copy :: "message \<Rightarrow> message res" where
  "msg_copy self =
     (let res = \<lparr>msg_priority = msg_priority self, msg_message = msg_message self,
                 msg_tag_count = msg_tag_count self, msg_tags = []\<rparr>
      in fold_res (\<lambda>i res.
           bindr (block_get (msg_tags res) i) (\<lambda>t.
           bindr (block_set (msg_tags res) i \<lparr>mt_tag = mt_tag t, mt_value = mt_value t\<rparr>) (\<lambda>tags.
             Inr (res\<lparr>msg_tags := tags\<rparr>))))
         [0..<msg_tag_count res] res)"

text \<open>\<open>msg_destroy\<close>: the tags handed to \<open>_msg_tag_clear\<close>, in order.\<close>

definition msg_destroy :: "message \<Rightarrow> msg_tag list res" where
  "msg_destroy self =
     fold_res (\<lambda>i freed. bindr (block_get (msg_tags self) i) (\<lambda>t. Inr (freed @ [t])))
       [0..<msg_tag_count self] []"

section \<open>Searching and removing tags\<close>

fun remove_scan :: "message \<Rightarrow> string \<Rightarrow> nat list \<Rightarrow> message res" where
  "remove_scan self tag [] = Inr self"
| "remove_scan self tag (i # is) =
     bindr (block_get (msg_tags self) i) (\<lambda>t.
       if mt_tag t = tag then
         (let n = msg_tag_count self;
              tags = (if i + 1 \<noteq> n then memmove_block (msg_tags self) i (i + 1) (n - i - 1)
                      else msg_tags self)
          in Inr (self\<lparr>msg_tag_count := n - 1, msg_tags := renew tags (n - 1)\<rparr>))
       else remove_scan self tag is)"

definition msg_remove_tag :: "message \<Rightarrow> string \<Rightarrow> message res" where
  "msg_remove_tag self tag = remove_scan self tag [0..<msg_tag_count self]"

fun find_scan :: "message \<Rightarrow> string \<Rightarrow> nat list \<Rightarrow> (msg_tag option) res" where
  "find_scan self name [] = Inr None"
| "find_scan self name (i # is) =
     bindr (block_get (msg_tags self) i) (\<lambda>t.
       if mt_tag t = name then Inr (Some t) else find_scan self name is)"

definition msg_find_tag :: "message \<Rightarrow> string \<Rightarrow> (msg_tag option) res" where
  "msg_find_tag self name = find_scan self name [0..<msg_tag_count self]"

section \<open>Making tags\<close>

definition msg_generate_tag :: "string \<Rightarrow> string \<Rightarrow> parg list \<Rightarrow> msg_tag res" where
  "msg_generate_tag tag fmt vl =
     bindr (vformat fmt vl) (\<lambda>v. Inr \<lparr>mt_tag = tag, mt_value = v\<rparr>)"

definition msg_tag_str :: "string \<Rightarrow> string option \<Rightarrow> msg_tag res" where
  "msg_tag_str tag str = msg_generate_tag tag [CHR 0x22, CHR ''%'', CHR ''s'', CHR 0x22] [PStr str]"

definition msg_tag_int :: "string \<Rightarrow> 32 word \<Rightarrow> msg_tag res" where
  "msg_tag_int tag v = msg_generate_tag tag ''%d'' [PInt v]"

definition msg_tag_hex :: "string \<Rightarrow> 32 word \<Rightarrow> msg_tag res" where
  "msg_tag_hex tag v = msg_generate_tag tag ''0x%x'' [PInt v]"

definition msg_tag_ptr :: "string \<Rightarrow> 64 word \<Rightarrow> msg_tag res" where
  "msg_tag_ptr tag p = msg_generate_tag tag ''%p'' [PPtr p]"

definition msg_tag_bool :: "string \<Rightarrow> bool \<Rightarrow> msg_tag res" where
  "msg_tag_bool tag v = msg_generate_tag tag ''%s'' [pstr (if v then ''true'' else ''false'')]"

definition msg_tag_printf :: "string \<Rightarrow> string \<Rightarrow> parg list \<Rightarrow> msg_tag res" where
  "msg_tag_printf tag fmt vl = msg_generate_tag tag fmt vl"

definition msg_tag_errno :: "32 word \<Rightarrow> string \<Rightarrow> msg_tag res" where
  "msg_tag_errno errno strerror =
     msg_tag_printf ''errno'' (''%d('' @ [CHR 0x22, CHR ''%'', CHR ''s'', CHR 0x22] @ '')'')
       [PInt errno, pstr strerror]"

definition msg_tag_gerror :: "string option \<Rightarrow> 32 word \<Rightarrow> string option \<Rightarrow> msg_tag res" where
  "msg_tag_gerror domain code msg =
     msg_generate_tag ''g_error'' ''domain=%s code=%d msg=%s'' [PStr domain, PInt code, PStr msg]"

definition msg_tag_dump :: "string \<Rightarrow> 8 word list \<Rightarrow> msg_tag res" where
  "msg_tag_dump tag data =
     bindr (fold_res (\<lambda>b str. bindr (vformat ''%02X '' [PInt (ucast b)]) (\<lambda>t. Inr (str @ t)))
              data [])
       (\<lambda>v. Inr \<lparr>mt_tag = tag, mt_value = v\<rparr>)"

section \<open>Priorities and text\<close>

definition msg_format_priority :: "int \<Rightarrow> name_ptr res" where
  "msg_format_priority priority =
     bindr (guard_res AssertAbort (LOG_EMERG \<le> priority \<and> priority \<le> LOG_DEBUG)) (\<lambda>_.
     bindr (tinu_lookup_key MessagePriority_names priority False) (\<lambda>(name, _). Inr name))"

definition msg_get_priority_value :: "string \<Rightarrow> int res" where
  "msg_get_priority_value name = tinu_lookup_name MessagePriority_names name (-1) (-1)"

definition msg_format_simple :: "message \<Rightarrow> string res" where
  "msg_format_simple self =
     fold_res (\<lambda>i str.
         bindr (block_get (msg_tags self) i) (\<lambda>t.
         bindr (vformat '' [%s=%s]'' [pstr (mt_tag t), pstr (mt_value t)]) (\<lambda>txt.
           Inr (str @ txt))))
       [0..<msg_tag_count self] (msg_message self)"

section \<open>The growing block\<close>

text \<open>
  A message that holds exactly the tags \<open>ts\<close>, and the size of the block after \<open>n\<close>
  further tags were stored through a counter that starts at \<open>sz\<close>.
\<close>

definition msg_holds :: "message \<Rightarrow> msg_tag list \<Rightarrow> bool" where
  "msg_holds m ts \<longleftrightarrow> msg_tag_count m = length ts \<and> msg_tags m = map Some ts"

definition grow :: "nat \<Rightarrow> nat" where
  "grow sz = (if sz = 0 then 4 else 2 * sz)"

fun cap_after :: "nat \<Rightarrow> nat \<Rightarrow> nat" where
  "cap_after sz 0 = sz"
| "cap_after sz (Suc n) = cap_after (grow sz) n"

lemma grow_pos: "0 < grow sz" and grow_gt: "sz < grow sz"
  by (auto simp: grow_def)

lemma cap_after_ge: "sz \<le> cap_after sz n"
proof (induction n arbitrary: sz)
  case (Suc n)
  have "sz \<le> grow sz" using grow_gt [of sz] by simp
  also have "\<dots> \<le> cap_after (grow sz) n" by (rule Suc)
  finally show ?case by simp
qed simp

lemma cap_after_pos: "0 < sz \<Longrightarrow> cap_after sz n = sz * 2 ^ n"
  by (induction n arbitrary: sz) (auto simp: grow_def)

lemma cap_after_zero: "cap_after 0 n = (if n = 0 then 0 else 2 ^ (n + 1))"
  by (cases n) (simp_all add: grow_def cap_after_pos)

lemma renew_filled [list_laws]:
  "length ts \<le> n \<Longrightarrow> length ts + k \<le> n \<Longrightarrow>
     renew (map Some ts @ replicate k None) n = map Some ts @ replicate (n - length ts) None"
  by (simp add: renew_def replicate_add [symmetric] take_append)

lemma renew_exact [list_laws]:
  "renew (map Some ts @ replicate k None) (length ts) = map Some ts"
  by (simp add: renew_def)

lemma block_set_next [list_laws]:
  "0 < k \<Longrightarrow> block_set (map Some ts @ replicate k None) (length ts) x =
     Inr (map Some (ts @ [x]) @ replicate (k - 1) None)"
  by (cases k) (auto simp: block_set_def list_update_append)

lemma block_get_filled [list_laws]:
  "i < length ts \<Longrightarrow> block_get (map Some ts @ replicate k None) i = Inr (ts ! i)"
  by (auto simp: block_get_def nth_append)

lemma block_get_full [list_laws]: "i < length ts \<Longrightarrow> block_get (map Some ts) i = Inr (ts ! i)"
  using block_get_filled [of i ts 0] by simp

lemma append_tag_step:
  assumes "msg_tag_count m = length ts" and "msg_tags m = map Some ts @ replicate k None"
    and "sz = length ts + k"
  shows "msg_append_tag m tag sz =
           (if sz = 0 \<or> grow sz < 2 ^ 31
            then Inr (m\<lparr>msg_tags := map Some (ts @ [tag]) @ replicate (grow sz - Suc (length ts)) None,
                        msg_tag_count := Suc (length ts)\<rparr>, grow sz)
            else Inl IntOverflow)"
proof -
  have le: "length ts \<le> sz" using assms by simp
  have lt: "length ts < grow sz" using le grow_gt [of sz] by linarith
  have r: "renew (msg_tags m) (grow sz) = map Some ts @ replicate (grow sz - length ts) None"
    unfolding assms(2) using lt assms(3) grow_gt [of sz] by (intro renew_filled) auto
  have s: "block_set (map Some ts @ replicate (grow sz - length ts) None) (length ts) tag =
      Inr (map Some (ts @ [tag]) @ replicate (grow sz - length ts - 1) None)"
    using lt by (intro block_set_next) simp
  show ?thesis
  proof (cases "sz = 0")
    case True
    then show ?thesis using r s assms(1) le by (simp add: msg_append_tag_def grow_def)
  next
    case False
    then show ?thesis using r s assms(1) le by (simp add: msg_append_tag_def grow_def)
  qed
qed

lemma append_tags_run:
  assumes "msg_tag_count m = length ts" and "msg_tags m = map Some ts @ replicate k None"
    and "sz = length ts + k"
  shows "append_tags m vl sz =
           (if vl = [] then Inr (m, sz)
            else if cap_after sz (length vl) < 2 ^ 31
            then Inr (m\<lparr>msg_tags := map Some (ts @ vl) @
                          replicate (cap_after sz (length vl) - length (ts @ vl)) None,
                        msg_tag_count := length (ts @ vl)\<rparr>, cap_after sz (length vl))
            else Inl IntOverflow)"
  using assms
proof (induction vl arbitrary: m ts k sz)
  case (Cons tag vl)
  note step = append_tag_step [OF Cons.prems, of tag]
  have le: "length ts \<le> sz" using Cons.prems by simp
  have lt: "length ts < grow sz" using le grow_gt [of sz] by linarith
  show ?case
  proof (cases "sz = 0 \<or> grow sz < 2 ^ 31")
    case True
    have IH: "append_tags (m\<lparr>msg_tags := map Some (ts @ [tag]) @ replicate (grow sz - Suc (length ts)) None,
                             msg_tag_count := Suc (length ts)\<rparr>) vl (grow sz) =
        (if vl = [] then Inr (m\<lparr>msg_tags := map Some (ts @ [tag]) @ replicate (grow sz - Suc (length ts)) None,
                             msg_tag_count := Suc (length ts)\<rparr>, grow sz)
         else if cap_after (grow sz) (length vl) < 2 ^ 31
         then Inr (m\<lparr>msg_tags := map Some ((ts @ [tag]) @ vl) @
                       replicate (cap_after (grow sz) (length vl) - length ((ts @ [tag]) @ vl)) None,
                     msg_tag_count := length ((ts @ [tag]) @ vl)\<rparr>, cap_after (grow sz) (length vl))
         else Inl IntOverflow)"
      using Cons.IH [of _ "ts @ [tag]" "grow sz - Suc (length ts)" "grow sz"] lt by simp
    have "vl = [] \<Longrightarrow> cap_after sz (length (tag # vl)) < 2 ^ 31"
      using True by (auto simp: grow_def)
    then show ?thesis using step True IH by auto
  next
    case False
    then have "\<not> cap_after sz (length (tag # vl)) < 2 ^ 31"
      using cap_after_ge [of "grow sz" "length vl"] by auto
    then show ?thesis using step False by simp
  qed
qed simp

section \<open>Messages as lists of tags\<close>

lemma msg_holds_parts: "msg_holds m ts \<longleftrightarrow>
    (\<exists>p s. m = \<lparr>msg_priority = p, msg_message = s, msg_tag_count = length ts, msg_tags = map Some ts\<rparr>)"
  by (cases m) (auto simp: msg_holds_def)

text \<open>Appending tags to a message that holds \<open>ts\<close> makes it hold \<open>ts @ vl\<close>.\<close>

lemma append_then_trim:
  assumes "msg_tag_count m = length ts" and "msg_tags m = map Some ts"
  shows "bindr (append_tags m vl (length ts)) (\<lambda>(self, sz).
           Inr (self\<lparr>msg_tags := renew (msg_tags self) (msg_tag_count self)\<rparr>)) =
         (if vl = [] \<or> cap_after (length ts) (length vl) < 2 ^ 31
          then Inr (m\<lparr>msg_tags := map Some (ts @ vl), msg_tag_count := length (ts @ vl)\<rparr>)
          else Inl IntOverflow)"
proof (cases "vl = []")
  case True
  then show ?thesis using assms renew_exact [of ts 0] by simp
next
  case False
  define c where "c = cap_after (length ts) (length vl)"
  have "append_tags m vl (length ts) =
      (if c < 2 ^ 31
       then Inr (m\<lparr>msg_tags := map Some (ts @ vl) @ replicate (c - length (ts @ vl)) None,
                   msg_tag_count := length (ts @ vl)\<rparr>, c)
       else Inl IntOverflow)"
    using append_tags_run [of m ts 0 "length ts" vl] assms False by (simp add: c_def)
  then show ?thesis using renew_exact [of "ts @ vl" "c - length (ts @ vl)"] False
    by (simp add: c_def)
qed

definition remove_first :: "('a \<Rightarrow> bool) \<Rightarrow> 'a list \<Rightarrow> 'a list" where
  "remove_first P xs = takeWhile (\<lambda>x. \<not> P x) xs @ tl (dropWhile (\<lambda>x. \<not> P x) xs)"

lemma find_scan_holds:
  assumes "msg_holds m ts" and "i \<le> length ts"
  shows "find_scan m name [i..<length ts] = Inr (List.find (\<lambda>t. mt_tag t = name) (drop i ts))"
  using assms(2)
proof (induction "length ts - i" arbitrary: i)
  case (Suc d)
  then have i: "i < length ts" by simp
  have "[i..<length ts] = i # [Suc i..<length ts]" using i by (simp add: upt_conv_Cons)
  moreover have "drop i ts = ts ! i # drop (Suc i) ts" using i by (simp add: Cons_nth_drop_Suc)
  moreover have "find_scan m name [Suc i..<length ts] =
      Inr (List.find (\<lambda>t. mt_tag t = name) (drop (Suc i) ts))"
    using Suc by simp
  moreover have "block_get (msg_tags m) i = Inr (ts ! i)"
    using assms(1) i by (simp add: msg_holds_def block_get_full)
  ultimately show ?case by simp
qed simp

lemma memmove_one:
  assumes "i < length ts"
  shows "take (length ts - 1) (if i + 1 \<noteq> length ts
           then memmove_block (map Some ts) i (i + 1) (length ts - i - 1) else map Some ts) =
         map Some (take i ts @ drop (Suc i) ts)"
proof (cases "i + 1 = length ts")
  case True
  then show ?thesis by (simp add: take_map flip: True)
next
  case False
  with assms have "Suc i \<le> length ts - 1" by simp
  then show ?thesis using False assms
    by (simp add: memmove_block_def take_map drop_map min_def)
qed

lemma remove_scan_holds:
  assumes m: "msg_holds m ts" and "i \<le> length ts"
    and "\<forall>t \<in> set (take i ts). mt_tag t \<noteq> name"
  shows "\<exists>m'. remove_scan m name [i..<length ts] = Inr m' \<and>
           msg_holds m' (take i ts @ remove_first (\<lambda>t. mt_tag t = name) (drop i ts)) \<and>
           msg_priority m' = msg_priority m \<and> msg_message m' = msg_message m"
  using assms(2,3)
proof (induction "length ts - i" arbitrary: i)
  case 0
  then show ?case using m by (simp add: remove_first_def)
next
  case (Suc d)
  then have i: "i < length ts" by simp
  have u: "[i..<length ts] = i # [Suc i..<length ts]" using i by (simp add: upt_conv_Cons)
  have dr: "drop i ts = ts ! i # drop (Suc i) ts" using i by (simp add: Cons_nth_drop_Suc)
  have g: "block_get (msg_tags m) i = Inr (ts ! i)"
    using m i by (simp add: msg_holds_def block_get_full)
  have c: "msg_tag_count m = length ts" "msg_tags m = map Some ts" using m by (simp_all add: msg_holds_def)
  show ?case
  proof (cases "mt_tag (ts ! i) = name")
    case True
    define b where "b = (if i + 1 \<noteq> length ts
      then memmove_block (map Some ts) i (i + 1) (length ts - i - 1) else map Some ts)"
    have len: "length b = length ts" using i by (auto simp: b_def memmove_block_def)
    have "renew b (length ts - 1) = map Some (take i ts @ drop (Suc i) ts)"
      using memmove_one [OF i] len by (simp add: renew_def b_def)
    moreover have "remove_scan m name [i..<length ts] =
        Inr (m\<lparr>msg_tag_count := length ts - 1, msg_tags := renew b (length ts - 1)\<rparr>)"
      unfolding u using True g c by (simp add: b_def Let_def)
    ultimately show ?thesis using i True dr
      by (simp add: msg_holds_def remove_first_def)
  next
    case False
    then have "\<forall>t \<in> set (take (Suc i) ts). mt_tag t \<noteq> name"
      using Suc.prems i by (simp add: take_Suc_conv_app_nth)
    moreover have "d = length ts - Suc i" "Suc i \<le> length ts" using Suc.hyps(2) i by simp_all
    ultimately obtain m' where m': "remove_scan m name [Suc i..<length ts] = Inr m'"
        "msg_holds m' (take (Suc i) ts @ remove_first (\<lambda>t. mt_tag t = name) (drop (Suc i) ts))"
        "msg_priority m' = msg_priority m" "msg_message m' = msg_message m"
      using Suc.hyps(1) [of "Suc i"] by blast
    have "take i ts @ remove_first (\<lambda>t. mt_tag t = name) (drop i ts) =
        take (Suc i) ts @ remove_first (\<lambda>t. mt_tag t = name) (drop (Suc i) ts)"
      using False i by (simp add: dr remove_first_def take_Suc_conv_app_nth)
    then show ?thesis using m' False g unfolding u by simp
  qed
qed

lemma fold_res_upto:
  assumes "\<And>i s. i < length ts \<Longrightarrow> f i s = Inr (g (ts ! i) s)"
  shows "fold_res f [0..<length ts] s = Inr (fold g ts s)"
proof -
  have "fold_res f [0..<length ts] s = Inr (fold (\<lambda>i. g (ts ! i)) [0..<length ts] s)"
    using assms by (intro fold_res_pure) simp
  also have "fold (\<lambda>i. g (ts ! i)) [0..<length ts] s = fold g (map ((!) ts) [0..<length ts]) s"
    by (simp add: fold_map o_def)
  finally show ?thesis by (simp add: map_nth)
qed

lemma fold_append_concat: "fold (\<lambda>t s. s @ f t) ts s = s @ concat (map f ts)"
  by (induction ts arbitrary: s) auto

definition tag_text :: "msg_tag \<Rightarrow> string" where
  "tag_text t = '' ['' @ mt_tag t @ ''='' @ mt_value t @ '']''"

lemma vformat_tag: "vformat '' [%s=%s]'' [pstr a, pstr b] = Inr ('' ['' @ a @ ''='' @ b @ '']'')"
  by (simp add: vformat_simps is_digit_def pad_def fspec0_def)

lemma msg_format_simple_holds:
  assumes "msg_holds m ts"
  shows "msg_format_simple m = Inr (msg_message m @ concat (map tag_text ts))"
proof -
  have "msg_tag_count m = length ts" using assms by (simp add: msg_holds_def)
  moreover have "fold_res (\<lambda>i str.
         bindr (block_get (msg_tags m) i) (\<lambda>t.
         bindr (vformat '' [%s=%s]'' [pstr (mt_tag t), pstr (mt_value t)]) (\<lambda>txt.
           Inr (str @ txt)))) [0..<length ts] (msg_message m) =
       Inr (fold (\<lambda>t s. s @ tag_text t) ts (msg_message m))"
    using assms by (intro fold_res_upto) (simp add: msg_holds_def block_get_full vformat_tag tag_text_def)
  ultimately show ?thesis by (simp add: msg_format_simple_def fold_append_concat)
qed

lemma msg_destroy_holds: "msg_holds m ts \<Longrightarrow> msg_destroy m = Inr ts"
proof -
  assume m: "msg_holds m ts"
  have "fold_res (\<lambda>i freed. bindr (block_get (msg_tags m) i) (\<lambda>t. Inr (freed @ [t]))) [0..<length ts] [] =
      Inr (fold (\<lambda>t s. s @ [t]) ts [])"
    using m by (intro fold_res_upto) (simp add: msg_holds_def block_get_full)
  with m show ?thesis
    using fold_append_concat [of "\<lambda>t. [t]" ts "[]"] by (simp add: msg_destroy_def msg_holds_def)
qed

section \<open>Dumps\<close>

text \<open>Every byte is printed as two hexadecimal digits and a space.\<close>

definition byte_text :: "8 word \<Rightarrow> string" where
  "byte_text b = [digit_char True (unat b div 16), digit_char True (unat b mod 16), CHR '' '']"

lemma render_hex_byte:
  "n < 256 \<Longrightarrow> render_nat True 16 n =
     (if n < 16 then [digit_char True n] else [digit_char True (n div 16), digit_char True (n mod 16)])"
  by (subst render_nat.simps, subst render_nat.simps) auto

lemma digit_char_inj: "d < 16 \<Longrightarrow> e < 16 \<Longrightarrow> digit_char True d = digit_char True e \<Longrightarrow> d = e"
proof -
  have "distinct ''0123456789ABCDEF''" and "length ''0123456789ABCDEF'' = 16" by simp_all
  then show "d < 16 \<Longrightarrow> e < 16 \<Longrightarrow> digit_char True d = digit_char True e \<Longrightarrow> d = e"
    by (simp only: digit_char_def if_True nth_eq_iff_index_eq)
qed

lemma vformat_byte: "vformat ''%02X '' [PInt (ucast (b :: 8 word))] = Inr (byte_text b)"
proof -
  have u: "unat (ucast b :: 32 word) = unat b" by (transfer) (simp add: take_bit_take_bit)
  have lt: "unat b < 256" using unsigned_less [of b, where ?'a = nat] by simp
  have "digit_char True 0 = CHR ''0''" by (simp add: digit_char_def)
  then show ?thesis using lt
    by (simp add: vformat_simps is_digit_def fspec0_def digit_val_def pad_def u
        render_hex_byte byte_text_def)
qed

lemma byte_text_inj: "byte_text b = byte_text c \<longleftrightarrow> b = c"
proof
  assume "byte_text b = byte_text c"
  moreover have "unat b < 256" "unat c < 256" using unsigned_less [of b, where ?'a = nat] unsigned_less [of c, where ?'a = nat] by simp_all
  ultimately have "unat b div 16 = unat c div 16" "unat b mod 16 = unat c mod 16"
    by (auto simp: byte_text_def intro!: digit_char_inj)
  then have "unat b = unat c" by (metis div_mult_mod_eq)
  then show "b = c" by (simp only: word_unat_eq_iff)
qed simp

lemma dump_text: "msg_tag_dump tag data = Inr \<lparr>mt_tag = tag, mt_value = concat (map byte_text data)\<rparr>"
proof -
  have "fold_res (\<lambda>b str. bindr (vformat ''%02X '' [PInt (ucast b)]) (\<lambda>t. Inr (str @ t))) data [] =
      Inr (fold (\<lambda>b s. s @ byte_text b) data [])"
    by (rule fold_res_pure) (simp add: vformat_byte)
  then show ?thesis by (simp add: msg_tag_dump_def fold_append_concat)
qed

lemma concat_byte_text_inj: "concat (map byte_text ds) = concat (map byte_text es) \<Longrightarrow> ds = es"
proof (induction ds arbitrary: es)
  case Nil
  then show ?case by (cases es) (auto simp: byte_text_def)
next
  case (Cons d ds)
  then obtain e es' where es: "es = e # es'"
    by (cases es) (auto simp: byte_text_def)
  have len: "length (byte_text d) = length (byte_text e)" by (simp add: byte_text_def)
  from Cons.prems have "byte_text d @ concat (map byte_text ds) = byte_text e @ concat (map byte_text es')"
    by (simp add: es)
  with len have "byte_text d = byte_text e" "concat (map byte_text ds) = concat (map byte_text es')"
    by simp_all
  then show ?case using Cons.IH byte_text_inj es by simp
qed

lemma length_concat_byte_text: "length (concat (map byte_text ds)) = 3 * length ds"
  by (induction ds) (simp_all add: byte_text_def)

section \<open>Properties\<close>

text \<open>\<open>msg_vcreate\<close> stores exactly the tags it was given, in their order, in a block
  without spare slots, as long as there are at most 29 of them. The test for a full block
  is inverted, so the block doubles with every tag: the 30th overflows the \<open>int\<close> that
  counts its slots, although 30 tags would fit in 32 slots.\<close>

theorem msg_vcreate_exact:
  "msg_vcreate p s ts =
     (if length ts \<le> 29
      then Inr \<lparr>msg_priority = p, msg_message = s, msg_tag_count = length ts,
                msg_tags = map Some ts\<rparr>
      else Inl IntOverflow)"
proof -
  define m where "m = \<lparr>msg_priority = p, msg_message = s, msg_tag_count = 0, msg_tags = []\<rparr>"
  have "msg_vcreate p s ts = bindr (append_tags m ts (length ([] :: msg_tag list))) (\<lambda>(self, sz).
           Inr (self\<lparr>msg_tags := renew (msg_tags self) (msg_tag_count self)\<rparr>))"
    by (simp add: msg_vcreate_def m_def)
  also have "\<dots> = (if ts = [] \<or> cap_after 0 (length ts) < 2 ^ 31
          then Inr (m\<lparr>msg_tags := map Some ts, msg_tag_count := length ts\<rparr>) else Inl IntOverflow)"
    by (subst append_then_trim [of m "[]"]) (simp_all add: m_def)
  also have "ts = [] \<or> cap_after 0 (length ts) < 2 ^ 31 \<longleftrightarrow> length ts \<le> 29"
  proof (cases "ts = []")
    case False
    then have "cap_after 0 (length ts) < 2 ^ 31 \<longleftrightarrow> (2::nat) ^ (length ts + 1) < 2 ^ 31"
      by (simp only: cap_after_zero length_0_conv if_False)
    also have "\<dots> \<longleftrightarrow> length ts + 1 < 31"
      by (rule power_strict_increasing_iff) simp
    finally show ?thesis using False by auto
  qed simp
  finally show ?thesis by (simp add: m_def)
qed

text \<open>C22: A message is a list of tags: on a message that holds the tags \<open>ts\<close>, appending
  adds the new tags at the end (or the slot counter overflows), removing by name takes out
  the first tag with that name and nothing else, searching returns the first tag with that
  name, destroying frees every tag once, and the text is the message followed by every tag
  in order.\<close>

theorem message_refines_tag_list:
  assumes "msg_holds m ts"
  shows "msg_vappend m vl =
           (if vl = [] \<or> cap_after (length ts) (length vl) < 2 ^ 31
            then Inr (m\<lparr>msg_tags := map Some (ts @ vl), msg_tag_count := length (ts @ vl)\<rparr>)
            else Inl IntOverflow)
         \<and> (\<exists>m'. msg_remove_tag m name = Inr m' \<and>
              msg_holds m' (remove_first (\<lambda>t. mt_tag t = name) ts) \<and>
              msg_priority m' = msg_priority m \<and> msg_message m' = msg_message m)
         \<and> msg_find_tag m name = Inr (List.find (\<lambda>t. mt_tag t = name) ts)
         \<and> msg_destroy m = Inr ts
         \<and> msg_format_simple m = Inr (msg_message m @ concat (map tag_text ts))"
proof -
  have c: "msg_tag_count m = length ts" "msg_tags m = map Some ts"
    using assms by (simp_all add: msg_holds_def)
  then show ?thesis
    using append_then_trim [OF c, of vl] remove_scan_holds [OF assms, of 0 name]
      find_scan_holds [OF assms, of 0 name] msg_destroy_holds [OF assms]
      msg_format_simple_holds [OF assms]
    by (simp add: msg_vappend_def msg_remove_tag_def msg_find_tag_def)
qed

definition two_tag_message :: message where
  "two_tag_message =
     \<lparr>msg_priority = LOG_ERR, msg_message = ''m'', msg_tag_count = 2,
      msg_tags = [Some \<lparr>mt_tag = ''a'', mt_value = ''1''\<rparr>, Some \<lparr>mt_tag = ''b'', mt_value = ''2''\<rparr>]\<rparr>"

lemma message_refines_tag_list_witness:
  "msg_find_tag two_tag_message ''b'' = Inr (Some \<lparr>mt_tag = ''b'', mt_value = ''2''\<rparr>) \<and>
   (\<exists>m'. msg_remove_tag two_tag_message ''a'' = Inr m' \<and>
         msg_holds m' [\<lparr>mt_tag = ''b'', mt_value = ''2''\<rparr>])"
proof -
  have h: "msg_holds two_tag_message
      [\<lparr>mt_tag = ''a'', mt_value = ''1''\<rparr>, \<lparr>mt_tag = ''b'', mt_value = ''2''\<rparr>]"
    by (simp add: msg_holds_def two_tag_message_def)
  show ?thesis
    using message_refines_tag_list [OF h, of "[]" "''a''"]
      message_refines_tag_list [OF h, of "[]" "''b''"]
    by (auto simp: remove_first_def)
qed

text \<open>Copying a message dereferences the \<open>NULL\<close> array of the new message as soon as
  the message has a tag; only a message without tags is copied.\<close>

theorem msg_copy_needs_no_tags:
  "msg_copy m =
     (if msg_tag_count m = 0 then Inr (m\<lparr>msg_tags := []\<rparr>) else Inl NullDeref)"
  by (cases "msg_tag_count m"; cases m)
     (simp_all add: msg_copy_def block_get_def upt_conv_Cons del: upt_Suc)

text \<open>Every priority of the library has a name, the name is found again by its text,
  and any other priority stops the program with an assertion.\<close>

theorem priority_roundtrip:
  "(case msg_format_priority p of
      Inr (NamePtr nm) \<Rightarrow> LOG_EMERG \<le> p \<and> p \<le> LOG_DEBUG \<and> msg_get_priority_value nm = Inr p
    | Inr MinusOnePtr \<Rightarrow> False
    | Inl e \<Rightarrow> e = AssertAbort \<and> (p < LOG_EMERG \<or> LOG_DEBUG < p))"
proof (cases "LOG_EMERG \<le> p \<and> p \<le> LOG_DEBUG")
  case False
  then show ?thesis by (auto simp: msg_format_priority_def guard_res_def)
next
  case True
  then have "p \<in> {0, 1, 2, 3, 4, 5, 6, 7}" by auto
  then show ?thesis
    by (elim insertE emptyE)
       (simp_all add: msg_format_priority_def msg_get_priority_value_def tinu_lookup_key_def
          tinu_lookup_name_def MessagePriority_names_def name_entry_def terminator_def)
qed

text \<open>A dump tag is total, takes three characters per byte, and no two byte blocks have
  the same dump.\<close>

theorem msg_tag_dump_roundtrip:
  "(\<exists>v. msg_tag_dump tag data = Inr \<lparr>mt_tag = tag, mt_value = v\<rparr> \<and> length v = 3 * length data) \<and>
   (msg_tag_dump tag data = msg_tag_dump tag data' \<longleftrightarrow> data = data')"
  by (auto simp: dump_text length_concat_byte_text dest: concat_byte_text_inj)

end
