(* ===== verification/CList.thy ===== *)
theory CList
  imports Prelude
begin

text \<open>
  \<open>lib/clist.c\<close>: the circular doubly linked list. Nodes live in an explicit heap, a
  finite map from addresses to nodes, so that aliasing, use of freed nodes and leaked
  nodes are visible. Every operation is the sequence of reads and writes of the C
  function; \<open>None\<close> is an access to an address that holds no node, a failed \<open>g_assert\<close>
  or a loop that does not end.

  \<open>ring h p as xs\<close> says that the nodes at the addresses \<open>as\<close> form a list whose head
  pointer is \<open>p\<close> and whose data are \<open>xs\<close>. The lemmas show that each operation acts on
  such rings as a list operation, touches no other address, and that an iterator visits
  the data in order.
\<close>

section \<open>Nodes and the heap\<close>

type_synonym ptr = nat

definition NULL :: ptr where
  "NULL = 0"

record 'a clist_node =
  cl_data :: 'a          \<comment> \<open>\<open>m_data\<close>\<close>
  cl_next :: ptr         \<comment> \<open>\<open>m_next\<close>\<close>
  cl_prev :: ptr         \<comment> \<open>\<open>m_prev\<close>\<close>

text \<open>
  \<open>brk\<close> is the next address \<open>g_slice_new0\<close> hands out: an allocation never returns an
  address in use.
\<close>

record 'a heap =
  cells :: "ptr \<rightharpoonup> 'a clist_node"
  brk :: ptr

definition empty_heap :: "'a heap" where
  "empty_heap = \<lparr>cells = Map.empty, brk = 1\<rparr>"

definition slice_new :: "'a heap \<Rightarrow> 'a \<Rightarrow> 'a heap \<times> ptr" where
  "slice_new h d =
     (h\<lparr>cells := (cells h)(brk h \<mapsto> \<lparr>cl_data = d, cl_next = NULL, cl_prev = NULL\<rparr>),
        brk := Suc (brk h)\<rparr>, brk h)"

definition slice_free :: "'a heap \<Rightarrow> ptr \<Rightarrow> 'a heap option" where
  "slice_free h p =
     (case cells h p of None \<Rightarrow> None | Some _ \<Rightarrow> Some (h\<lparr>cells := (cells h)(p := None)\<rparr>))"

definition get_data :: "'a heap \<Rightarrow> ptr \<Rightarrow> 'a option" where
  "get_data h p = map_option cl_data (cells h p)"

definition get_next :: "'a heap \<Rightarrow> ptr \<Rightarrow> ptr option" where
  "get_next h p = map_option cl_next (cells h p)"

definition get_prev :: "'a heap \<Rightarrow> ptr \<Rightarrow> ptr option" where
  "get_prev h p = map_option cl_prev (cells h p)"

definition set_next :: "'a heap \<Rightarrow> ptr \<Rightarrow> ptr \<Rightarrow> 'a heap option" where
  "set_next h p q = map_option (\<lambda>n. h\<lparr>cells := (cells h)(p \<mapsto> n\<lparr>cl_next := q\<rparr>)\<rparr>) (cells h p)"

definition set_prev :: "'a heap \<Rightarrow> ptr \<Rightarrow> ptr \<Rightarrow> 'a heap option" where
  "set_prev h p q = map_option (\<lambda>n. h\<lparr>cells := (cells h)(p \<mapsto> n\<lparr>cl_prev := q\<rparr>)\<rparr>) (cells h p)"

lemmas access_defs = get_data_def get_next_def get_prev_def set_next_def set_prev_def
  slice_new_def slice_free_def

section \<open>The operations\<close>

text \<open>\<open>CListDataDestroyCb\<close>: \<open>None\<close> when the caller passes \<open>NULL\<close>.\<close>

definition call_destroy :: "('a \<Rightarrow> 's \<Rightarrow> 's) option \<Rightarrow> 'a \<Rightarrow> 's \<Rightarrow> 's" where
  "call_destroy destroy d s = (case destroy of None \<Rightarrow> s | Some f \<Rightarrow> f d s)"

definition clist_append :: "'a heap \<Rightarrow> ptr \<Rightarrow> 'a \<Rightarrow> ('a heap \<times> ptr) option" where
  "clist_append h self data =
     (let (h, new_item) = slice_new h data in
      if self = NULL then do {
        h \<leftarrow> set_next h new_item new_item;
        h \<leftarrow> set_prev h new_item new_item;
        Some (h, new_item)
      } else do {
        h \<leftarrow> set_next h new_item self;
        self_prev \<leftarrow> get_prev h self;
        h \<leftarrow> set_prev h new_item self_prev;
        self_prev \<leftarrow> get_prev h self;
        h \<leftarrow> set_next h self_prev new_item;
        h \<leftarrow> set_prev h self new_item;
        Some (h, self)
      })"

definition clist_prepend :: "'a heap \<Rightarrow> ptr \<Rightarrow> 'a \<Rightarrow> ('a heap \<times> ptr) option" where
  "clist_prepend h self data = do {
     (h, nlist) \<leftarrow> clist_append h self data;
     p \<leftarrow> get_prev h nlist;
     Some (h, p)
   }"

definition clist_remove ::
  "'a heap \<Rightarrow> ptr \<Rightarrow> ('a \<Rightarrow> 's \<Rightarrow> 's) option \<Rightarrow> 's \<Rightarrow> ('a heap \<times> ptr \<times> 's) option" where
  "clist_remove h self destroy s =
     (if self = NULL then Some (h, NULL, s)
      else do {
        self_next \<leftarrow> get_next h self;
        (h, res) \<leftarrow>
          (if self_next = self then Some (h, NULL)
           else do {
             self_prev \<leftarrow> get_prev h self;
             h \<leftarrow> set_prev h self_next self_prev;
             self_prev \<leftarrow> get_prev h self;
             self_next \<leftarrow> get_next h self;
             h \<leftarrow> set_next h self_prev self_next;
             res \<leftarrow> get_next h self;
             Some (h, res)
           });
        d \<leftarrow> get_data h self;
        h \<leftarrow> slice_free h self;
        Some (h, res, call_destroy destroy d s)
      })"

text \<open>
  The loop of \<open>clist_destroy\<close>: \<open>act\<close> is the variable the body never assigns. The body
  reads \<open>m_next\<close> into the unused variable \<open>next\<close>, calls \<open>destroy\<close> and frees \<open>act\<close>;
  the loop condition is \<open>act != self\<close>.
\<close>

partial_function (option) destroy_loop ::
  "'a heap \<Rightarrow> ptr \<Rightarrow> ptr \<Rightarrow> ('a \<Rightarrow> 's \<Rightarrow> 's) option \<Rightarrow> 's \<Rightarrow> ('a heap \<times> 's) option" where
  "destroy_loop h act self destroy s = do {
     next_item \<leftarrow> get_next h act;
     d \<leftarrow> get_data h act;
     h' \<leftarrow> slice_free h act;
     (if act \<noteq> self then destroy_loop h' act self destroy (call_destroy destroy d s)
      else Some (h', call_destroy destroy d s))
   }"

definition clist_destroy ::
  "'a heap \<Rightarrow> ptr \<Rightarrow> ('a \<Rightarrow> 's \<Rightarrow> 's) option \<Rightarrow> 's \<Rightarrow> ('a heap \<times> 's) option" where
  "clist_destroy h self destroy s =
     (if self = NULL then Some (h, s)
      else do {
        next_item \<leftarrow> get_next h self;
        destroy_loop h self self destroy s
      })"

text \<open>
  \<open>clist_foreach\<close>: a do-while loop. The callback returns its boolean and the caller's
  state.
\<close>

partial_function (option) foreach_loop ::
  "'a heap \<Rightarrow> ptr \<Rightarrow> ptr \<Rightarrow> ('a \<Rightarrow> 's \<Rightarrow> bool \<times> 's) \<Rightarrow> 's \<Rightarrow> (bool \<times> 's) option" where
  "foreach_loop h act self list_cb s = do {
     d \<leftarrow> get_data h act;
     (if \<not> fst (list_cb d s) then Some (False, snd (list_cb d s))
      else do {
        next_item \<leftarrow> get_next h act;
        (if next_item \<noteq> self then foreach_loop h next_item self list_cb (snd (list_cb d s))
         else Some (True, snd (list_cb d s)))
      })
   }"

definition clist_foreach ::
  "'a heap \<Rightarrow> ptr \<Rightarrow> ('a \<Rightarrow> 's \<Rightarrow> bool \<times> 's) \<Rightarrow> 's \<Rightarrow> (bool \<times> 's) option" where
  "clist_foreach h self list_cb s =
     (if self = NULL then Some (True, s) else foreach_loop h self self list_cb s)"

section \<open>Iterators\<close>

record clist_iter =
  it_start :: ptr        \<comment> \<open>\<open>m_start\<close>\<close>
  it_act :: ptr          \<comment> \<open>\<open>m_act\<close>\<close>

definition clist_iter_set_step :: "clist_iter \<Rightarrow> ptr \<Rightarrow> bool \<times> clist_iter" where
  "clist_iter_set_step iter next_item =
     (if it_start iter = NULL then (False, iter)
      else if it_act iter = NULL then (True, iter\<lparr>it_act := it_start iter\<rparr>)
      else if next_item = it_start iter then (False, iter\<lparr>it_act := NULL\<rparr>)
      else (True, iter\<lparr>it_act := next_item\<rparr>))"

definition clist_iter_new :: "ptr \<Rightarrow> clist_iter" where
  "clist_iter_new list = \<lparr>it_start = list, it_act = NULL\<rparr>"

definition clist_iter_valid :: "clist_iter \<Rightarrow> bool" where
  "clist_iter_valid iter \<longleftrightarrow> it_start iter \<noteq> NULL \<and> it_act iter \<noteq> NULL"

definition clist_iter_next :: "'a heap \<Rightarrow> clist_iter \<Rightarrow> (bool \<times> clist_iter) option" where
  "clist_iter_next h iter = do {
     next_item \<leftarrow> (if it_act iter \<noteq> NULL then get_next h (it_act iter) else Some NULL);
     Some (clist_iter_set_step iter next_item)
   }"

definition clist_iter_prev :: "'a heap \<Rightarrow> clist_iter \<Rightarrow> (bool \<times> clist_iter) option" where
  "clist_iter_prev h iter = do {
     prev_item \<leftarrow> (if it_act iter \<noteq> NULL then get_prev h (it_act iter) else Some NULL);
     Some (clist_iter_set_step iter prev_item)
   }"

definition clist_iter_data :: "'a heap \<Rightarrow> clist_iter \<Rightarrow> 'a option" where
  "clist_iter_data h iter =
     (if it_act iter = NULL then None
      else if \<not> clist_iter_valid iter then None
      else get_data h (it_act iter))"

definition clist_iter_remove ::
  "'a heap \<Rightarrow> clist_iter \<Rightarrow> ('a \<Rightarrow> 's \<Rightarrow> 's) option \<Rightarrow> 's
     \<Rightarrow> ('a heap \<times> clist_iter \<times> 's) option" where
  "clist_iter_remove h iter destroy s =
     (if it_act iter = NULL then None
      else do {
        rebase \<leftarrow> Some (it_act iter = it_start iter);
        (h, act, s) \<leftarrow> clist_remove h (it_act iter) destroy s;
        iter \<leftarrow> Some (iter\<lparr>it_act := act\<rparr>);
        Some (h, if rebase then iter\<lparr>it_start := it_act iter\<rparr> else iter, s)
      })"

text \<open>
  The loop \<open>for (iter = clist_iter_new(list); clist_iter_next(iter); ) body\<close> that
  \<open>clist.h\<close> documents and the library uses for read-only passes. The body sees the
  current data and may leave the loop with a result (\<open>Inl\<close>) or go on (\<open>Inr\<close>).
\<close>

partial_function (option) clist_for ::
  "'a heap \<Rightarrow> clist_iter \<Rightarrow> ('a \<Rightarrow> 's \<Rightarrow> 'r + 's) \<Rightarrow> 's \<Rightarrow> ('r + 's) option" where
  "clist_for h iter body s = do {
     (more, iter) \<leftarrow> clist_iter_next h iter;
     (if \<not> more then Some (Inr s)
      else do {
        d \<leftarrow> clist_iter_data h iter;
        (case body d s of
           Inl r \<Rightarrow> Some (Inl r)
         | Inr s' \<Rightarrow> clist_for h iter body s')
      })
   }"

section \<open>Rings\<close>

definition next_ix :: "nat \<Rightarrow> nat \<Rightarrow> nat" where
  "next_ix n i = (if Suc i = n then 0 else Suc i)"

definition prev_ix :: "nat \<Rightarrow> nat \<Rightarrow> nat" where
  "prev_ix n i = (if i = 0 then n - 1 else i - 1)"

lemma next_ix_less [simp]: "i < n \<Longrightarrow> next_ix n i < n"
  by (auto simp: next_ix_def)

lemma prev_ix_less [simp]: "i < n \<Longrightarrow> prev_ix n i < n"
  by (auto simp: prev_ix_def)

lemma prev_next_ix [simp]: "i < n \<Longrightarrow> prev_ix n (next_ix n i) = i"
  by (auto simp: next_ix_def prev_ix_def)

lemma next_prev_ix [simp]: "i < n \<Longrightarrow> next_ix n (prev_ix n i) = i"
  by (auto simp: next_ix_def prev_ix_def)

lemma nth_rotate1_next_ix: "i < length xs \<Longrightarrow> rotate1 xs ! i = xs ! next_ix (length xs) i"
  by (cases xs) (auto simp: nth_append next_ix_def)

definition ring_node :: "ptr list \<Rightarrow> 'a list \<Rightarrow> nat \<Rightarrow> 'a clist_node" where
  "ring_node as xs i =
     \<lparr>cl_data = xs ! i, cl_next = as ! next_ix (length as) i,
      cl_prev = as ! prev_ix (length as) i\<rparr>"

definition ring :: "'a heap \<Rightarrow> ptr \<Rightarrow> ptr list \<Rightarrow> 'a list \<Rightarrow> bool" where
  "ring h p as xs \<longleftrightarrow>
     length as = length xs \<and> distinct as \<and> NULL \<notin> set as \<and>
     p = (if as = [] then NULL else hd as) \<and>
     (\<forall>i < length as. cells h (as ! i) = Some (ring_node as xs i))"

definition heap_ok :: "'a heap \<Rightarrow> bool" where
  "heap_ok h \<longleftrightarrow> 0 < brk h \<and> cells h NULL = None \<and> (\<forall>a n. cells h a = Some n \<longrightarrow> a < brk h)"

text \<open>\<open>same_outside h h' A\<close>: the two heaps agree on every address not in \<open>A\<close>.\<close>

definition same_outside :: "'a heap \<Rightarrow> 'a heap \<Rightarrow> ptr set \<Rightarrow> bool" where
  "same_outside h h' A \<longleftrightarrow> (\<forall>a. a \<notin> A \<longrightarrow> cells h' a = cells h a)"

lemma empty_heap_ok [ring_laws]: "heap_ok empty_heap"
  by (simp add: heap_ok_def empty_heap_def)

lemma ring_empty [simp]: "ring h p [] xs \<longleftrightarrow> p = NULL \<and> xs = []"
  by (auto simp: ring_def)

lemma ring_NULL [simp]: "ring h NULL as xs \<longleftrightarrow> as = [] \<and> xs = []"
  by (cases as) (auto simp: ring_def)

lemma ring_length: "ring h p as xs \<Longrightarrow> length as = length xs"
  by (simp add: ring_def)

lemma ring_cell: "ring h p as xs \<Longrightarrow> i < length xs \<Longrightarrow> cells h (as ! i) = Some (ring_node as xs i)"
  by (simp add: ring_def)

lemma ring_nonNULL: "ring h p as xs \<Longrightarrow> i < length xs \<Longrightarrow> as ! i \<noteq> NULL"
  unfolding ring_def by (metis nth_mem)

lemma ring_head: "ring h p as xs \<Longrightarrow> as \<noteq> [] \<Longrightarrow> p = as ! 0 \<and> p \<noteq> NULL"
  by (auto simp: ring_def hd_conv_nth) (metis length_greater_0_conv nth_mem)

lemma ring_index_eq:
  "ring h p as xs \<Longrightarrow> i < length xs \<Longrightarrow> j < length xs \<Longrightarrow> as ! i = as ! j \<longleftrightarrow> i = j"
  by (simp add: ring_def nth_eq_iff_index_eq)

lemma ring_dom: "ring h p as xs \<Longrightarrow> set as \<subseteq> dom (cells h)"
  by (force simp: ring_def in_set_conv_nth)

lemma ring_fresh: "heap_ok h \<Longrightarrow> ring h p as xs \<Longrightarrow> brk h \<notin> set as"
  unfolding heap_ok_def by (metis domD less_irrefl ring_dom subsetD)

lemma ring_unique: "ring h p as xs \<Longrightarrow> ring h p bs xs \<Longrightarrow> as = bs"
proof -
  assume r: "ring h p as xs" and s: "ring h p bs xs"
  have l: "length as = length xs" "length bs = length xs"
    using ring_length [OF r] ring_length [OF s] by auto
  have "as ! i = bs ! i" if "i < length xs" for i
    using that
  proof (induction i)
    case 0
    then have "as \<noteq> []" "bs \<noteq> []" using l by auto
    then show ?case using ring_head [OF r] ring_head [OF s] by simp
  next
    case (Suc i)
    then have "as ! i = bs ! i" by simp
    then have "ring_node as xs i = ring_node bs xs i"
      using ring_cell [OF r, of i] ring_cell [OF s, of i] Suc.prems by simp
    then show ?case using Suc.prems l by (simp add: ring_node_def next_ix_def)
  qed
  then show "as = bs" using l by (simp add: nth_equalityI)
qed

text \<open>The frame rule: a ring depends on the cells of its own addresses only.\<close>

lemma ring_frame:
  assumes "ring h p as xs" and "\<And>a. a \<in> set as \<Longrightarrow> cells h' a = cells h a"
  shows "ring h' p as xs"
  using assms by (auto simp: ring_def)

lemma ring_same_outside [ring_laws]:
  "ring h p as xs \<Longrightarrow> same_outside h h' A \<Longrightarrow> set as \<inter> A = {} \<Longrightarrow> ring h' p as xs"
  by (erule ring_frame) (auto simp: same_outside_def)

lemma same_outside_refl [simp]: "same_outside h h A"
  by (simp add: same_outside_def)

lemma same_outside_trans:
  "same_outside h h' A \<Longrightarrow> same_outside h' h'' B \<Longrightarrow> A \<subseteq> C \<Longrightarrow> B \<subseteq> C \<Longrightarrow> same_outside h h'' C"
  unfolding same_outside_def by (metis subsetD)

text \<open>Every node of a ring is a head of the same list, rotated.\<close>

lemma ring_rotate1:
  assumes r: "ring h p as xs" and "as \<noteq> []"
  shows "ring h (hd (rotate1 as)) (rotate1 as) (rotate1 xs)"
proof -
  have len: "length as = length xs" using r by (rule ring_length)
  have "cells h (rotate1 as ! i) = Some (ring_node (rotate1 as) (rotate1 xs) i)"
    if "i < length as" for i
  proof -
    have "cells h (as ! next_ix (length as) i) = Some (ring_node as xs (next_ix (length as) i))"
      using ring_cell [OF r] that len by simp
    then show ?thesis
      using that len by (simp add: nth_rotate1_next_ix ring_node_def)
  qed
  then show ?thesis using r \<open>as \<noteq> []\<close> by (auto simp: ring_def)
qed

lemma ring_unrotate1:
  assumes r: "ring h p (rotate1 as) (rotate1 xs)" and "as \<noteq> []"
  shows "ring h (hd as) as xs"
proof -
  have len: "length as = length xs" using ring_length [OF r] by simp
  have "cells h (as ! i) = Some (ring_node as xs i)" if i: "i < length as" for i
  proof -
    have "cells h (rotate1 as ! prev_ix (length as) i)
            = Some (ring_node (rotate1 as) (rotate1 xs) (prev_ix (length as) i))"
      using ring_cell [OF r, of "prev_ix (length as) i"] i len by simp
    then show ?thesis using i len by (simp add: nth_rotate1_next_ix ring_node_def)
  qed
  then show ?thesis using r \<open>as \<noteq> []\<close> len by (auto simp: ring_def)
qed

section \<open>What the operations do to rings\<close>

lemma clist_append_ring:
  assumes ok: "heap_ok h" and r: "ring h p as xs"
  shows "\<exists>h'. clist_append h p x = Some (h', if as = [] then brk h else p) \<and>
           ring h' (if as = [] then brk h else p) (as @ [brk h]) (xs @ [x]) \<and>
           heap_ok h' \<and> same_outside h h' (insert (brk h) (set as))"
proof (cases "as = []")
  case True
  then show ?thesis
    using ok r by (auto simp: clist_append_def access_defs ring_def ring_node_def next_ix_def
        prev_ix_def heap_ok_def same_outside_def NULL_def less_Suc_eq)
next
  case False
  define n where "n = length as"
  define b where "b = brk h"
  define l where "l = as ! (n - 1)"
  have n: "0 < n" "n = length xs" using False ring_length [OF r] by (auto simp: n_def)
  have p: "p = as ! 0" "p \<noteq> NULL" using ring_head [OF r False] by simp_all
  have fresh: "b \<notin> set as" using ring_fresh [OF ok r] by (simp add: b_def)
  have dist: "distinct as" and nn: "NULL \<notin> set as" using r by (simp_all add: ring_def)
  have mem: "p \<in> set as" "l \<in> set as" using n(1) p(1) by (simp_all add: n_def l_def)
  have l0: "l \<noteq> 0" using mem nn unfolding NULL_def by metis
  have cell: "cells h (as ! i) = Some (ring_node as xs i)" if "i < n" for i
    using ring_cell [OF r] that n by simp
  have cp: "cells h p = Some (ring_node as xs 0)" using cell [of 0] n p by simp
  have cl: "cells h l = Some (ring_node as xs (n - 1))" using cell [of "n - 1"] n by (simp add: l_def)
  have pr: "cl_prev (ring_node as xs 0) = l" by (simp add: ring_node_def prev_ix_def l_def n_def)
  have pb: "p \<noteq> b" "l \<noteq> b" using mem fresh by auto
  define nl where "nl = (ring_node as xs (n - 1))\<lparr>cl_next := b\<rparr>"
  define np where "np = (if l = p then nl else ring_node as xs 0)\<lparr>cl_prev := b\<rparr>"
  define h' where "h' = \<lparr>cells = (cells h)(b \<mapsto> \<lparr>cl_data = x, cl_next = p, cl_prev = l\<rparr>,
      l \<mapsto> nl, p \<mapsto> np), brk = Suc (brk h)\<rparr>"
  have lp: "l = p \<longleftrightarrow> n = 1"
    using p(1) n(1) nth_eq_iff_index_eq [OF dist, of "n - 1" 0] by (auto simp: l_def n_def le_Suc_eq)
  have eq: "clist_append h p x = Some (h', p)"
    using p cp cl pr pb mem
    by (auto simp: clist_append_def access_defs h'_def nl_def np_def b_def [symmetric] lp
        fun_upd_twist)
  have cell': "cells h' ((as @ [b]) ! i) = Some (ring_node (as @ [b]) (xs @ [x]) i)"
    if "i < Suc n" for i
  proof (cases "i = n")
    case True
    then show ?thesis using pb n p
      by (auto simp: h'_def ring_node_def next_ix_def prev_ix_def nth_append n_def l_def)
  next
    case False
    with that have i: "i < n" by simp
    have ai: "as ! i \<noteq> b" using fresh i by (metis n_def nth_mem)
    have il: "as ! i = l \<longleftrightarrow> i = n - 1" and ip: "as ! i = p \<longleftrightarrow> i = 0"
      using i p(1) n(1) nth_eq_iff_index_eq [OF dist, of i 0] nth_eq_iff_index_eq [OF dist, of i "n - 1"]
      by (simp_all add: l_def n_def)
    show ?thesis
      using i n ai il ip lp cell [OF i]
      by (cases "i = n - 1"; cases "i = 0")
        (simp_all add: h'_def nl_def np_def ring_node_def next_ix_def prev_ix_def nth_append
          n_def [symmetric], auto)
  qed
  have "ring h' p (as @ [b]) (xs @ [x])"
    using r False cell' fresh n ok
    by (auto simp: ring_def n_def b_def heap_ok_def NULL_def)
  moreover have "heap_ok h'"
    using ok mem ring_dom [OF r] p l0 by (auto simp: heap_ok_def h'_def b_def less_Suc_eq NULL_def)
  moreover have "same_outside h h' (insert b (set as))"
    using mem by (auto simp: same_outside_def h'_def)
  ultimately show ?thesis using eq False by (auto simp: b_def)
qed

lemma clist_prepend_ring:
  assumes ok: "heap_ok h" and r: "ring h p as xs"
  shows "\<exists>h'. clist_prepend h p x = Some (h', brk h) \<and>
           ring h' (brk h) (brk h # as) (x # xs) \<and>
           heap_ok h' \<and> same_outside h h' (insert (brk h) (set as))"
proof -
  let ?p = "if as = [] then brk h else p"
  obtain h' where h': "clist_append h p x = Some (h', ?p)"
      "ring h' ?p (as @ [brk h]) (xs @ [x])" "heap_ok h'"
      "same_outside h h' (insert (brk h) (set as))"
    using clist_append_ring [OF assms] by blast
  let ?as = "as @ [brk h]" and ?xs = "xs @ [x]"
  have head: "?p = ?as ! 0" using ring_head [OF h'(2)] by simp
  have "get_prev h' ?p = Some (cl_prev (ring_node ?as ?xs 0))"
    using ring_cell [OF h'(2), of 0] head by (simp add: get_prev_def)
  also have "cl_prev (ring_node ?as ?xs 0) = brk h"
    by (simp add: ring_node_def prev_ix_def)
  finally have "clist_prepend h p x = Some (h', brk h)"
    using h'(1) by (simp add: clist_prepend_def)
  moreover have "ring h' (brk h) (brk h # as) (x # xs)"
    using ring_unrotate1 [of h' _ "brk h # as" "x # xs"] h'(2) by simp
  ultimately show ?thesis using h' by blast
qed

lemma clist_remove_ring:
  assumes r: "ring h p (a # as) (x # xs)"
  shows "\<exists>h'. clist_remove h p destroy s =
             Some (h', if as = [] then NULL else hd as, call_destroy destroy x s) \<and>
           ring h' (if as = [] then NULL else hd as) as xs \<and>
           (heap_ok h \<longrightarrow> heap_ok h') \<and> cells h' a = None \<and>
           same_outside h h' (insert a (set as))"
proof (cases "as = []")
  case True
  have "cells h a = Some (ring_node [a] [x] 0)" "p = a" "a \<noteq> NULL" "xs = []"
    using r True by (auto simp: ring_def)
  then show ?thesis using True
    by (auto simp: clist_remove_def access_defs ring_node_def next_ix_def heap_ok_def
        same_outside_def)
next
  case False
  define n where "n = length as"
  define f where "f = as ! 0"
  define l where "l = as ! (n - 1)"
  have len: "n = length xs" "0 < n" using ring_length [OF r] False by (auto simp: n_def)
  have p: "p = a" "a \<noteq> NULL" using r by (auto simp: ring_def)
  have dist: "a \<notin> set as" "distinct as" and nn: "NULL \<notin> set as" using r by (auto simp: ring_def)
  have ca: "cells h a = Some (ring_node (a # as) (x # xs) 0)"
    using ring_cell [OF r, of 0] by simp
  have cell: "cells h (as ! i) = Some (ring_node (a # as) (x # xs) (Suc i))" if "i < n" for i
    using ring_cell [OF r, of "Suc i"] that len by simp
  have nx: "cl_next (ring_node (a # as) (x # xs) 0) = f"
    and pv: "cl_prev (ring_node (a # as) (x # xs) 0) = l"
    using len by (auto simp: ring_node_def next_ix_def prev_ix_def n_def f_def l_def nth_Cons')
  have cf: "cells h f = Some (ring_node (a # as) (x # xs) 1)"
    and cl: "cells h l = Some (ring_node (a # as) (x # xs) n)"
    using cell [of 0] cell [of "n - 1"] len by (simp_all add: f_def l_def)
  have ne: "f \<noteq> a" "l \<noteq> a" using dist len by (auto simp: f_def l_def n_def)
  define nf where "nf = (ring_node (a # as) (x # xs) 1)\<lparr>cl_prev := l\<rparr>"
  define nl where "nl = (if l = f then nf else ring_node (a # as) (x # xs) n)\<lparr>cl_next := f\<rparr>"
  define h' where "h' = h\<lparr>cells := (cells h)(f \<mapsto> nf, l \<mapsto> nl, a := None)\<rparr>"
  have eq: "clist_remove h p destroy s = Some (h', f, call_destroy destroy x s)"
    using p ca cf cl nx pv ne
    by (auto simp: clist_remove_def access_defs h'_def nf_def nl_def ring_node_def)
  have lf: "l = f \<longleftrightarrow> n = 1"
    using len(2) nth_eq_iff_index_eq [OF dist(2), of "n - 1" 0] by (auto simp: l_def f_def n_def le_Suc_eq)
  have cell': "cells h' (as ! i) = Some (ring_node as xs i)" if i: "i < n" for i
  proof -
    have "as ! i \<noteq> a" using dist i by (metis n_def nth_mem)
    moreover have "as ! i = l \<longleftrightarrow> i = n - 1" and "as ! i = f \<longleftrightarrow> i = 0"
      using i len dist by (simp_all add: l_def f_def n_def nth_eq_iff_index_eq)
    ultimately show ?thesis
      using i len lf cell [OF i]
      by (auto simp: h'_def nl_def nf_def ring_node_def next_ix_def prev_ix_def nth_Cons'
          n_def [symmetric] l_def f_def)
  qed
  have "ring h' f as xs"
    using r False cell' len by (auto simp: ring_def n_def f_def hd_conv_nth)
  moreover have "heap_ok h'" if "heap_ok h"
    using that cf cl nn len p by (auto simp: heap_ok_def h'_def f_def l_def n_def)
  moreover have "same_outside h h' (insert a (set as))"
    using len by (auto simp: same_outside_def h'_def f_def l_def n_def)
  ultimately show ?thesis using eq False by (auto simp: f_def hd_conv_nth h'_def)
qed

text \<open>
  \<open>clist_destroy\<close>: the loop condition holds for no second round, so exactly the head is
  passed to \<open>destroy\<close> and freed, whatever the length of the list.
\<close>

lemma clist_destroy_ring:
  assumes r: "ring h p (a # as) (x # xs)"
  shows "clist_destroy h p destroy s =
           Some (h\<lparr>cells := (cells h)(a := None)\<rparr>, call_destroy destroy x s)"
proof -
  have "cells h a = Some (ring_node (a # as) (x # xs) 0)" "p = a" "a \<noteq> NULL"
    using r ring_cell [OF r, of 0] by (auto simp: ring_def)
  then show ?thesis
    by (simp add: clist_destroy_def destroy_loop.simps access_defs ring_node_def)
qed

text \<open>\<open>clist_foreach\<close> is a left-to-right pass with early exit.\<close>

fun foreach_list :: "('a \<Rightarrow> 's \<Rightarrow> bool \<times> 's) \<Rightarrow> 'a list \<Rightarrow> 's \<Rightarrow> bool \<times> 's" where
  "foreach_list cb [] s = (True, s)"
| "foreach_list cb (x # xs) s =
     (if fst (cb x s) then foreach_list cb xs (snd (cb x s)) else (False, snd (cb x s)))"

lemma ring_next:
  "ring h p as xs \<Longrightarrow> i < length xs \<Longrightarrow> get_next h (as ! i) = Some (as ! next_ix (length xs) i)"
  by (simp add: get_next_def ring_cell ring_node_def ring_length)

lemma ring_data:
  "ring h p as xs \<Longrightarrow> i < length xs \<Longrightarrow> get_data h (as ! i) = Some (xs ! i)"
  by (simp add: get_data_def ring_cell ring_node_def)

lemma foreach_loop_ring:
  assumes r: "ring h p as xs" and "i < length xs"
  shows "foreach_loop h (as ! i) p cb s = Some (foreach_list cb (drop i xs) s)"
  using assms(2)
proof (induction "length xs - i" arbitrary: i s)
  case (Suc k)
  have p: "p = as ! 0" using ring_head [OF r] Suc.prems ring_length [OF r] by force
  have less: "0 < length xs" using Suc.prems by linarith
  have dr: "drop i xs = xs ! i # drop (Suc i) xs" using Suc.prems by (simp add: Cons_nth_drop_Suc)
  show ?case
  proof (cases "Suc i < length xs")
    case True
    then have "as ! Suc i \<noteq> p" using ring_index_eq [OF r True less] p by auto
    moreover have "foreach_loop h (as ! Suc i) p cb t = Some (foreach_list cb (drop (Suc i) xs) t)"
      for t using Suc True by auto
    ultimately show ?thesis
      using True ring_data [OF r Suc.prems] ring_next [OF r Suc.prems]
      by (simp add: foreach_loop.simps [of h "as ! i"] dr next_ix_def)
  next
    case False
    then have "Suc i = length xs" using Suc.prems by simp
    then show ?thesis
      using ring_data [OF r Suc.prems] ring_next [OF r Suc.prems] p
      by (simp add: foreach_loop.simps [of h "as ! i"] dr next_ix_def)
  qed
qed simp

lemma clist_foreach_ring:
  assumes r: "ring h p as xs"
  shows "clist_foreach h p cb s = Some (foreach_list cb xs s)"
proof (cases "as = []")
  case True
  then show ?thesis using r by (simp add: clist_foreach_def)
next
  case False
  then have "p = as ! 0" "p \<noteq> NULL" "0 < length xs"
    using ring_head [OF r] ring_length [OF r] by auto
  then show ?thesis
    using foreach_loop_ring [OF r, of 0 cb s] by (simp add: clist_foreach_def)
qed

text \<open>An iterator visits the data from the head on, once each.\<close>

fun loop_list :: "('a \<Rightarrow> 's \<Rightarrow> 'r + 's) \<Rightarrow> 'a list \<Rightarrow> 's \<Rightarrow> 'r + 's" where
  "loop_list body [] s = Inr s"
| "loop_list body (x # xs) s =
     (case body x s of Inl r \<Rightarrow> Inl r | Inr s' \<Rightarrow> loop_list body xs s')"

lemma clist_for_from:
  assumes r: "ring h p as xs" and "i < length xs"
  shows "clist_for h \<lparr>it_start = p, it_act = as ! i\<rparr> body s =
           Some (loop_list body (drop (Suc i) xs) s)"
  using assms(2)
proof (induction "length xs - i" arbitrary: i s)
  case (Suc k)
  have p: "p = as ! 0" "p \<noteq> NULL" using ring_head [OF r] Suc.prems ring_length [OF r] by force+
  have less: "0 < length xs" using Suc.prems by linarith
  have ai: "as ! i \<noteq> NULL" using ring_nonNULL [OF r Suc.prems] .
  show ?case
  proof (cases "Suc i < length xs")
    case True
    then have "as ! Suc i \<noteq> p" "as ! Suc i \<noteq> NULL"
      using ring_index_eq [OF r True less] p ring_nonNULL [OF r True] by auto
    moreover have "clist_for h \<lparr>it_start = p, it_act = as ! Suc i\<rparr> body t =
        Some (loop_list body (drop (Suc (Suc i)) xs) t)" for t
      using Suc True by auto
    moreover have "drop (Suc i) xs = xs ! Suc i # drop (Suc (Suc i)) xs"
      using True by (simp add: Cons_nth_drop_Suc)
    ultimately show ?thesis
      using True ring_data [OF r True] ring_next [OF r Suc.prems] p ai
      by (subst clist_for.simps)
        (simp add: clist_iter_next_def clist_iter_set_step_def clist_iter_data_def
          clist_iter_valid_def next_ix_def split: sum.split)
  next
    case False
    then have "Suc i = length xs" using Suc.prems by simp
    then show ?thesis
      using ring_next [OF r Suc.prems] p ai
      by (subst clist_for.simps)
        (simp add: clist_iter_next_def clist_iter_set_step_def next_ix_def)
  qed
qed simp

lemma clist_for_ring [ring_laws]:
  assumes r: "ring h p as xs"
  shows "clist_for h (clist_iter_new p) body s = Some (loop_list body xs s)"
proof (cases "as = []")
  case True
  then show ?thesis using r
    by (subst clist_for.simps)
      (simp add: clist_iter_next_def clist_iter_set_step_def clist_iter_new_def)
next
  case False
  then have p: "p = as ! 0" "p \<noteq> NULL" "0 < length xs"
    using ring_head [OF r] ring_length [OF r] by auto
  then have "xs = xs ! 0 # drop (Suc 0) xs" by (simp add: Cons_nth_drop_Suc)
  then have "loop_list body xs s =
      (case body (xs ! 0) s of Inl r \<Rightarrow> Inl r | Inr s' \<Rightarrow> loop_list body (drop (Suc 0) xs) s')"
    by (metis loop_list.simps(2))
  then show ?thesis
    using p ring_data [OF r p(3)] clist_for_from [OF r p(3), of body]
    by (subst clist_for.simps)
      (simp add: clist_iter_next_def clist_iter_set_step_def clist_iter_new_def
        clist_iter_data_def clist_iter_valid_def split: sum.split)
qed

section \<open>Removing through an iterator\<close>

text \<open>
  The position of an iterator in a ring that starts at the iterator's start: before the
  first step, or at one of the nodes.
\<close>

lemma ring_rotate:
  "ring h p as xs \<Longrightarrow> as \<noteq> [] \<Longrightarrow> ring h (hd (rotate k as)) (rotate k as) (rotate k xs)"
proof (induction k)
  case 0
  then show ?case by (auto simp: ring_def)
next
  case (Suc k)
  then have "ring h (hd (rotate k as)) (rotate k as) (rotate k xs)" by simp
  then show ?case using ring_rotate1 Suc.prems by (metis rotate_Suc rotate_is_Nil_conv)
qed

lemma ring_rotate_back:
  assumes "ring h p (rotate k as) (rotate k xs)" and "as \<noteq> []"
  shows "ring h (hd as) as xs"
  using assms
proof (induction k arbitrary: p)
  case 0
  then show ?case by (auto simp: ring_def)
next
  case (Suc k)
  then have "ring h (hd (rotate k as)) (rotate k as) (rotate k xs)"
    using ring_unrotate1 by (metis rotate_Suc rotate_is_Nil_conv)
  then show ?case using Suc by blast
qed

lemma ring_split:
  assumes "ring h p (as @ a # bs) (xs @ x # ys)" and "length as = length xs"
  shows "ring h a (a # bs @ as) (x # ys @ xs)"
  using ring_rotate [OF assms(1), of "length as"] rotate_append [of as "a # bs"]
    rotate_append [of xs "x # ys"] assms(2) by simp

lemma ring_join:
  assumes "ring h q (bs @ as) (ys @ xs)" and "length bs = length ys" and "as @ bs \<noteq> []"
  shows "ring h (hd (as @ bs)) (as @ bs) (xs @ ys)"
proof -
  have "length as = length xs" using assms ring_length by force
  then have "rotate (length as) (as @ bs) = bs @ as" "rotate (length as) (xs @ ys) = ys @ xs"
    by (metis rotate_append)+
  then show ?thesis using ring_rotate_back [of h q "length as"] assms by metis
qed

text \<open>
  \<open>clist_iter_remove\<close> at any node: the node leaves the ring and is freed, and the
  iterator stands on the node that followed, which the next step therefore passes over;
  removing the start moves the start as well.
\<close>

lemma clist_iter_remove_ring:
  assumes r: "ring h p (as @ a # bs) (xs @ x # ys)" and len: "length as = length xs"
  defines "rest \<equiv> as @ bs"
  defines "q \<equiv> if rest = [] then NULL else hd (bs @ as)"
  defines "p' \<equiv> if as = [] then q else p"
  shows "\<exists>h'. clist_iter_remove h \<lparr>it_start = p, it_act = a\<rparr> destroy s =
           Some (h', \<lparr>it_start = p', it_act = q\<rparr>, call_destroy destroy x s) \<and>
         ring h' p' rest (xs @ ys) \<and> (heap_ok h \<longrightarrow> heap_ok h') \<and>
         cells h' a = None \<and> same_outside h h' (set (as @ a # bs))"
proof -
  have ra: "ring h a (a # bs @ as) (x # ys @ xs)" using ring_split [OF r len] .
  have q: "(if bs @ as = [] then NULL else hd (bs @ as)) = q" by (auto simp: q_def rest_def)
  obtain h' where h': "clist_remove h a destroy s = Some (h', q, call_destroy destroy x s)"
      "ring h' q (bs @ as) (ys @ xs)" "heap_ok h \<longrightarrow> heap_ok h'" "cells h' a = None"
      "same_outside h h' (insert a (set (bs @ as)))"
    using clist_remove_ring [OF ra, of destroy s] unfolding q by blast
  have a: "a \<noteq> NULL" "a \<notin> set as" using r by (auto simp: ring_def)
  have pa: "p = a \<longleftrightarrow> as = []"
    using r a by (cases as) (auto simp: ring_def)
  have lb: "length bs = length ys" using ring_length [OF r] len by simp
  have "ring h' p' rest (xs @ ys)"
  proof (cases "rest = []")
    case True
    then show ?thesis using h'(2) lb len by (auto simp: rest_def p'_def q_def)
  next
    case False
    have "p' = hd rest" using r False by (cases as) (auto simp: p'_def q_def rest_def ring_def)
    then show ?thesis using ring_join [OF h'(2) lb] False by (simp add: rest_def)
  qed
  moreover have "clist_iter_remove h \<lparr>it_start = p, it_act = a\<rparr> destroy s =
      Some (h', \<lparr>it_start = p', it_act = q\<rparr>, call_destroy destroy x s)"
    using h'(1) a pa by (auto simp: clist_iter_remove_def p'_def)
  moreover have "same_outside h h' (set (as @ a # bs))"
    using h'(5) by (auto simp: same_outside_def)
  ultimately show ?thesis using h' by blast
qed

section \<open>Properties\<close>

text \<open>A ring of two nodes at the addresses 1 and 2, used by the witnesses.\<close>

definition two_ring :: "nat heap" where
  "two_ring = \<lparr>cells = [1 \<mapsto> \<lparr>cl_data = 10, cl_next = 2, cl_prev = 2\<rparr>,
                         2 \<mapsto> \<lparr>cl_data = 20, cl_next = 1, cl_prev = 1\<rparr>], brk = 3\<rparr>"

lemma two_ring_ring: "ring two_ring 1 [1, 2] [10, 20]"
  by (simp add: two_ring_def ring_def ring_node_def next_ix_def prev_ix_def NULL_def less_Suc_eq)

lemma two_ring_ok: "heap_ok two_ring"
  by (auto simp: two_ring_def heap_ok_def NULL_def split: if_splits)

text \<open>Appending and prepending succeed on every list, put the new datum at the end or
  at the front, return the head of the list that results (for \<open>clist_prepend\<close> the new
  node, not the old head), and leave every other cell of the heap as it was.\<close>

theorem clist_insert_refines:
  assumes "heap_ok h" and "ring h p as xs"
  shows "(\<exists>h' p'. clist_append h p x = Some (h', p') \<and> ring h' p' (as @ [brk h]) (xs @ [x]) \<and>
             heap_ok h' \<and> same_outside h h' (insert (brk h) (set as))) \<and>
         (\<exists>h'. clist_prepend h p x = Some (h', brk h) \<and> ring h' (brk h) (brk h # as) (x # xs) \<and>
             heap_ok h' \<and> same_outside h h' (insert (brk h) (set as)))"
  using clist_append_ring [OF assms, of x] clist_prepend_ring [OF assms, of x] by blast

lemma clist_insert_refines_witness:
  "\<exists>h p h' p'. clist_append two_ring 1 30 = Some (h, p) \<and> ring h p [1, 2, 3] [10, 20, 30] \<and>
     clist_prepend two_ring 1 30 = Some (h', p') \<and> ring h' p' [3, 1, 2] [30, 10, 20]"
proof -
  have "brk two_ring = 3" by (simp add: two_ring_def)
  then show ?thesis
    using clist_insert_refines [OF two_ring_ok two_ring_ring, of 30] by auto
qed

text \<open>C23: Removing a node unlinks and frees it alone, hands its datum to the callback once
  and returns the next node as the head of the remaining list, \<open>NULL\<close> when it was the
  last one; this holds for the head and, through an iterator, for a node at any place.\<close>

theorem clist_remove_refines:
  assumes "ring h p (as @ a # bs) (xs @ x # ys)" and "length as = length xs"
  shows "(\<exists>h' p' q. clist_iter_remove h \<lparr>it_start = p, it_act = a\<rparr> destroy s =
             Some (h', \<lparr>it_start = p', it_act = q\<rparr>, call_destroy destroy x s) \<and>
           q = (if as @ bs = [] then NULL else hd (bs @ as)) \<and>
           ring h' p' (as @ bs) (xs @ ys) \<and> cells h' a = None \<and>
           same_outside h h' (set (as @ a # bs))) \<and>
         (as = [] \<longrightarrow> (\<exists>h'. clist_remove h p destroy s =
             Some (h', if bs = [] then NULL else hd bs, call_destroy destroy x s) \<and>
           ring h' (if bs = [] then NULL else hd bs) bs ys))"
  using clist_iter_remove_ring [OF assms, of destroy s] clist_remove_ring [of h p a bs x ys destroy s]
    assms by auto

lemma clist_remove_refines_witness:
  "\<exists>h' p'. clist_iter_remove two_ring \<lparr>it_start = 1, it_act = 2\<rparr> None () =
       Some (h', \<lparr>it_start = p', it_act = 1\<rparr>, ()) \<and> ring h' p' [1] [10]"
  using clist_remove_refines [of two_ring 1 "[1]" 2 "[]" "[10]" 20 "[]" "None" "()"] two_ring_ring
  by (auto simp: call_destroy_def)

text \<open>\<open>clist_foreach\<close> and a loop over an iterator end on every list and hand every
  datum to the callback once, from the head on, until the callback asks to stop.\<close>

theorem clist_traversal_once:
  assumes "ring h p as xs"
  shows "clist_foreach h p cb s = Some (foreach_list cb xs s) \<and>
         clist_for h (clist_iter_new p) body t = Some (loop_list body xs t)"
  by (simp add: clist_foreach_ring [OF assms] clist_for_ring [OF assms])

lemma clist_traversal_once_witness:
  "clist_foreach two_ring 1 (\<lambda>d s. (True, s @ [d])) [] = Some (True, [10, 20]) \<and>
   clist_for two_ring (clist_iter_new 1) (\<lambda>d s. if d = 20 then Inl s else Inr (s + d)) 0 =
     Some (Inl 10)"
  using clist_traversal_once [OF two_ring_ring, of "\<lambda>d s. (True, s @ [d])" "[]"
      "\<lambda>d s. if d = 20 then Inl s else Inr (s + d)" 0] by simp

text \<open>\<open>clist_destroy\<close> ends, but it hands only the head's datum to the callback and
  frees only the head: all other nodes stay allocated.\<close>

theorem clist_destroy_head_only:
  assumes "ring h p (a # as) (x # xs)"
  shows "\<exists>h'. clist_destroy h p destroy s = Some (h', call_destroy destroy x s) \<and>
           cells h' a = None \<and> (\<forall>b. b \<noteq> a \<longrightarrow> cells h' b = cells h b) \<and>
           (\<forall>b \<in> set as. cells h' b \<noteq> None)"
proof -
  have "cells h b \<noteq> None \<and> b \<noteq> a" if "b \<in> set as" for b
    using that ring_dom [OF assms] assms by (auto simp: ring_def)
  then show ?thesis using clist_destroy_ring [OF assms, of destroy s] by auto
qed

lemma clist_destroy_head_only_witness:
  "\<exists>h'. clist_destroy two_ring 1 (Some (\<lambda>d s. s @ [d])) [] = Some (h', [10]) \<and>
     cells h' 1 = None \<and> cells h' 2 \<noteq> None"
  using clist_destroy_head_only [OF two_ring_ring, of "Some (\<lambda>d s. s @ [d])" "[]"]
  by (auto simp: call_destroy_def)

end
