(* ===== verification/Log.thy ===== *)
theory Log
  imports Message CList "HOL-Library.AList"
begin

text \<open>
  \<open>lib/log.c\<close>, \<open>lib/tinu/log.h\<close>: the global handler list with its cached maximal
  priority, diversion of all messages, and the built-in handlers. A handler function is a
  code \<open>'h\<close>; \<open>call\<close> says what running it on a message and its user data does to the
  environment \<open>'e\<close> (and may stop the program). Handlers do not register, unregister or
  divert handlers themselves, as none in the sources does.
\<close>

section \<open>State\<close>

record 'h log_handler =
  lh_max_priority :: int         \<comment> \<open>\<open>m_max_priority\<close>\<close>
  lh_user_data :: ptr            \<comment> \<open>\<open>m_user_data\<close>\<close>
  lh_handler :: 'h               \<comment> \<open>\<open>m_handler\<close>\<close>

text \<open>
  The globals of \<open>log.c\<close>: the list of handler addresses with the structures they point
  to, the cached maximum, the diversion (\<open>None\<close> for \<open>NULL\<close>), and the next address
  \<open>g_new0\<close> returns.
\<close>

record 'h log_state =
  g_log_list :: "(ptr \<times> 'h log_handler) list"
  g_log_max_priority :: int
  g_divert_handler :: "'h option"
  g_divert_user_data :: ptr
  log_brk :: ptr

definition log_start :: "'h log_state" where
  "log_start = \<lparr>g_log_list = [], g_log_max_priority = -1, g_divert_handler = None,
                g_divert_user_data = NULL, log_brk = 1\<rparr>"

type_synonym ('h, 'e) handler_call = "'h \<Rightarrow> message \<Rightarrow> ptr \<Rightarrow> 'e \<Rightarrow> (bool \<times> 'e) res"

section \<open>Dispatch\<close>

text \<open>\<open>_log_alert_handlers\<close>: \<open>for (act = g_log_list; act && propagate; act = act->next)\<close>.\<close>

fun alert_loop ::
  "('h, 'e) handler_call \<Rightarrow> message \<Rightarrow> (ptr \<times> 'h log_handler) list \<Rightarrow> bool \<Rightarrow> 'e \<Rightarrow> 'e res" where
  "alert_loop call msg [] propagate e = Inr e"
| "alert_loop call msg ((p, self) # act) propagate e =
     (if \<not> propagate then Inr e
      else if lh_max_priority self \<ge> msg_priority msg
      then bindr (call (lh_handler self) msg (lh_user_data self) e) (\<lambda>(propagate, e).
             alert_loop call msg act propagate e)
      else alert_loop call msg act propagate e)"

definition log_alert_handlers ::
  "('h, 'e) handler_call \<Rightarrow> 'h log_state \<Rightarrow> message \<Rightarrow> 'e \<Rightarrow> 'e res" where
  "log_alert_handlers call st msg e = alert_loop call msg (g_log_list st) True e"

section \<open>Registration\<close>

definition log_register_message_handler ::
  "'h log_state \<Rightarrow> 'h \<Rightarrow> int \<Rightarrow> ptr \<Rightarrow> 'h log_state \<times> ptr" where
  "log_register_message_handler st handler max_priority user_data =
     (if g_divert_handler st \<noteq> None then (st, NULL)
      else
        (let self = log_brk st;
             st = st\<lparr>log_brk := Suc self\<rparr>;
             st = (if max_priority > g_log_max_priority st
                   then st\<lparr>g_log_max_priority := max_priority\<rparr> else st)
         in (st\<lparr>g_log_list :=
                  (self, \<lparr>lh_max_priority = max_priority, lh_user_data = user_data,
                          lh_handler = handler\<rparr>) # g_log_list st\<rparr>, self)))"

text \<open>The loop of \<open>log_unregister_message_handler\<close>: the list kept and the maximum.\<close>

fun unregister_loop ::
  "ptr \<Rightarrow> (ptr \<times> 'h log_handler) list \<Rightarrow> int \<Rightarrow> (ptr \<times> 'h log_handler) list \<times> int" where
  "unregister_loop handler [] mp = ([], mp)"
| "unregister_loop handler ((p, act) # rest) mp =
     (if p = handler then unregister_loop handler rest mp
      else
        (let mp = (if lh_max_priority act > mp then lh_max_priority act else mp);
             (kept, mp) = unregister_loop handler rest mp
         in ((p, act) # kept, mp)))"

definition log_unregister_message_handler :: "'h log_state \<Rightarrow> ptr \<Rightarrow> 'h log_state" where
  "log_unregister_message_handler st handler =
     (if g_divert_handler st \<noteq> None then st
      else
        (let (kept, mp) = unregister_loop handler (g_log_list st) LOG_EMERG
         in st\<lparr>g_log_list := kept, g_log_max_priority := (if kept = [] then -1 else mp)\<rparr>))"

definition log_init :: "'h log_state \<Rightarrow> 'h log_state" where
  "log_init st = st"

definition log_clear :: "'h log_state \<Rightarrow> 'h log_state" where
  "log_clear st = st\<lparr>g_log_max_priority := -1, g_log_list := []\<rparr>"

definition log_divert :: "'h log_state \<Rightarrow> 'h option \<Rightarrow> ptr \<Rightarrow> 'h log_state" where
  "log_divert st handler user_data =
     (log_clear st)\<lparr>g_divert_handler := handler, g_divert_user_data := user_data,
                    g_log_max_priority := LOG_DEBUG\<rparr>"

section \<open>Emitting messages\<close>

text \<open>
  Both functions return the environment and the tags that were freed: by
  \<open>msg_destroy\<close>, or directly when \<open>log_vformat\<close> drops the message unformed.
\<close>

definition log_message ::
  "('h, 'e) handler_call \<Rightarrow> 'h log_state \<Rightarrow> message \<Rightarrow> bool \<Rightarrow> 'e \<Rightarrow> ('e \<times> msg_tag list) res" where
  "log_message call st msg free_msg e =
     bindr
       (case g_divert_handler st of
          Some h \<Rightarrow> bindr (call h msg (g_divert_user_data st) e) (\<lambda>(_, e). Inr e)
        | None \<Rightarrow>
            if g_log_list st = [] \<or> msg_priority msg > g_log_max_priority st then Inr e
            else log_alert_handlers call st msg e)
       (\<lambda>e. bindr (if free_msg then msg_destroy msg else Inr []) (\<lambda>freed. Inr (e, freed)))"

definition log_vformat ::
  "('h, 'e) handler_call \<Rightarrow> 'h log_state \<Rightarrow> int \<Rightarrow> string \<Rightarrow> msg_tag list \<Rightarrow> 'e
     \<Rightarrow> ('e \<times> msg_tag list) res" where
  "log_vformat call st priority msg vl e =
     (case g_divert_handler st of
        Some h \<Rightarrow>
          bindr (msg_vcreate priority msg vl) (\<lambda>self.
          bindr (call h self (g_divert_user_data st) e) (\<lambda>(_, e).
          bindr (msg_destroy self) (\<lambda>freed. Inr (e, freed))))
      | None \<Rightarrow>
          if g_log_list st = [] \<or> priority > g_log_max_priority st then Inr (e, vl)
          else
            bindr (msg_vcreate priority msg vl) (\<lambda>self.
            bindr (log_alert_handlers call st self e) (\<lambda>e.
            bindr (msg_destroy self) (\<lambda>freed. Inr (e, freed)))))"

definition log_format ::
  "('h, 'e) handler_call \<Rightarrow> 'h log_state \<Rightarrow> int \<Rightarrow> string \<Rightarrow> msg_tag list \<Rightarrow> 'e
     \<Rightarrow> ('e \<times> msg_tag list) res" where
  "log_format call st priority msg vl e = log_vformat call st priority msg vl e"

text \<open>
  The macro \<open>log_wrap\<close> of \<open>log.h\<close>, behind \<open>log_emerg\<close> to \<open>log_debug\<close>: below the cached
  maximum nothing is evaluated, so the tags are not even made (\<open>vl\<close> may fail).
\<close>

definition log_wrap ::
  "('h, 'e) handler_call \<Rightarrow> 'h log_state \<Rightarrow> int \<Rightarrow> string \<Rightarrow> msg_tag list res \<Rightarrow> 'e
     \<Rightarrow> ('e \<times> msg_tag list) res" where
  "log_wrap call st pri msg vl e =
     (if g_log_max_priority st \<ge> pri
      then bindr vl (\<lambda>vl. log_format call st pri msg vl e)
      else Inr (e, []))"

section \<open>Loggers\<close>

text \<open>
  What the other components see of the logger: \<open>log_format\<close>, the priority macros,
  \<open>log_message\<close> and the cached maximum, as functions on the environment. The tags of a macro call are made only when the message
  passes the cached maximum.
\<close>

record 'e logger =
  lg_format :: "int \<Rightarrow> string \<Rightarrow> msg_tag list \<Rightarrow> 'e \<Rightarrow> 'e res"
  lg_macro :: "int \<Rightarrow> string \<Rightarrow> msg_tag list res \<Rightarrow> 'e \<Rightarrow> 'e res"
  lg_message :: "message \<Rightarrow> 'e \<Rightarrow> 'e res"      \<comment> \<open>\<open>log_message (msg, TRUE)\<close>\<close>
  lg_max :: int                                 \<comment> \<open>\<open>g_log_max_priority\<close>\<close>

definition the_logger :: "('h, 'e) handler_call \<Rightarrow> 'h log_state \<Rightarrow> 'e logger" where
  "the_logger call st =
     \<lparr>lg_format = (\<lambda>pri txt tags e. bindr (log_format call st pri txt tags e) (\<lambda>(e, _). Inr e)),
      lg_macro = (\<lambda>pri txt tags e. bindr (log_wrap call st pri txt tags e) (\<lambda>(e, _). Inr e)),
      lg_message = (\<lambda>msg e. bindr (log_message call st msg True e) (\<lambda>(e, _). Inr e)),
      lg_max = g_log_max_priority st\<rparr>"

text \<open>Evaluating the tag arguments of a call from left to right.\<close>

fun eval_tags :: "msg_tag res list \<Rightarrow> msg_tag list res" where
  "eval_tags [] = Inr []"
| "eval_tags (t # ts) = bindr t (\<lambda>t. bindr (eval_tags ts) (\<lambda>ts. Inr (t # ts)))"

section \<open>The built-in handlers\<close>

text \<open>What the handlers write to: the system log, stderr and the open streams.\<close>

record io =
  io_syslog :: "(int \<times> string) list"
  io_stderr :: string
  io_files :: "(ptr \<times> string) list"

datatype 'u handler_fn =
    Syslog_handler
  | Stderr_handler
  | Stderr_fancy_handler
  | Fail_handler
  | File_handler
  | User_handler 'u

definition file_write :: "io \<Rightarrow> ptr \<Rightarrow> string \<Rightarrow> io" where
  "file_write io f txt =
     io\<lparr>io_files := AList.map_default f txt (\<lambda>old. old @ txt) (io_files io)\<rparr>"

definition ptr_bool :: "ptr \<Rightarrow> bool" where
  "ptr_bool p \<longleftrightarrow> (word_of_nat p :: 32 word) \<noteq> 0"

definition ptr_int :: "ptr \<Rightarrow> int" where
  "ptr_int p = sint (word_of_nat p :: 32 word)"

definition name_arg :: "name_ptr \<Rightarrow> parg res" where
  "name_arg name = (case name of NamePtr nm \<Rightarrow> Inr (pstr nm) | MinusOnePtr \<Rightarrow> Inl WildPtr)"

definition msg_syslog_handler :: "message \<Rightarrow> ptr \<Rightarrow> io \<Rightarrow> (bool \<times> io) res" where
  "msg_syslog_handler msg user_data io =
     bindr (msg_format_simple msg) (\<lambda>buffer.
       Inr (ptr_bool user_data, io\<lparr>io_syslog := io_syslog io @ [(msg_priority msg, buffer)]\<rparr>))"

text \<open>The line \<open>msg_file_handler\<close> writes, to a stream or (through \<open>msg_stderr_handler\<close>) to stderr.\<close>

definition file_line :: "message \<Rightarrow> string res" where
  "file_line msg =
     bindr (msg_format_simple msg) (\<lambda>buffer.
     bindr (msg_format_priority (msg_priority msg)) (\<lambda>name.
     bindr (name_arg name) (\<lambda>a.
       vformat (''[%s] %s'' @ [CHR 0x0A]) [a, pstr buffer])))"

definition msg_file_handler :: "message \<Rightarrow> ptr \<Rightarrow> io \<Rightarrow> (bool \<times> io) res" where
  "msg_file_handler msg user_data io =
     bindr (file_line msg) (\<lambda>line. Inr (True, file_write io user_data line))"

definition msg_stderr_handler :: "message \<Rightarrow> ptr \<Rightarrow> io \<Rightarrow> (bool \<times> io) res" where
  "msg_stderr_handler msg user_data io =
     bindr (file_line msg) (\<lambda>line.
       Inr (ptr_bool user_data, io\<lparr>io_stderr := io_stderr io @ line\<rparr>))"

definition esc :: "string \<Rightarrow> string" where
  "esc code = CHR 0x1B # CHR ''['' # code @ ''m''"

definition priority_color :: "int \<Rightarrow> string" where
  "priority_color p =
     (if p = LOG_EMERG \<or> p = LOG_ALERT \<or> p = LOG_CRIT then esc ''41'' @ esc ''1;37''
      else if p = LOG_ERR then esc ''1;31''
      else if p = LOG_WARNING then esc ''1;33''
      else if p = LOG_DEBUG then esc ''1;30''
      else esc ''1;34'')"

definition fancy_fmt :: string where
  "fancy_fmt = ''[%s%s'' @ esc ''0'' @ ''] %s''"

definition fancy_tag_fmt :: string where
  "fancy_tag_fmt = '' ['' @ esc ''36'' @ ''%s'' @ esc ''0'' @ ''=%s]''"

definition msg_stderr_fancy_handler :: "message \<Rightarrow> ptr \<Rightarrow> io \<Rightarrow> (bool \<times> io) res" where
  "msg_stderr_fancy_handler msg user_data io =
     bindr (msg_format_priority (msg_priority msg)) (\<lambda>name.
     bindr (name_arg name) (\<lambda>a.
     bindr (vformat fancy_fmt [pstr (priority_color (msg_priority msg)), a, pstr (msg_message msg)]) (\<lambda>head.
     bindr (fold_res (\<lambda>i out.
              bindr (block_get (msg_tags msg) i) (\<lambda>t.
              bindr (vformat fancy_tag_fmt [pstr (mt_tag t), pstr (mt_value t)]) (\<lambda>txt.
                Inr (out @ txt))))
            [0..<msg_tag_count msg] (io_stderr io @ head)) (\<lambda>out.
       Inr (ptr_bool user_data, io\<lparr>io_stderr := out @ [CHR 0x0A]\<rparr>)))))"

definition msg_fail_handler :: "message \<Rightarrow> ptr \<Rightarrow> io \<Rightarrow> (bool \<times> io) res" where
  "msg_fail_handler msg user_data io =
     (if msg_priority msg \<le> ptr_int user_data then Inl AssertAbort else Inr (True, io))"

fun call_handler :: "('u, io) handler_call \<Rightarrow> ('u handler_fn, io) handler_call" where
  "call_handler user Syslog_handler = msg_syslog_handler"
| "call_handler user Stderr_handler = msg_stderr_handler"
| "call_handler user Stderr_fancy_handler = msg_stderr_fancy_handler"
| "call_handler user Fail_handler = msg_fail_handler"
| "call_handler user File_handler = msg_file_handler"
| "call_handler user (User_handler u) = user u"

section \<open>Delivery without the shortcut\<close>

text \<open>
  What dispatch should do: the handlers that accept the priority get the message, newest
  first, until one of them asks not to propagate it.
\<close>

fun deliver :: "('h, 'e) handler_call \<Rightarrow> message \<Rightarrow> 'h log_handler list \<Rightarrow> 'e \<Rightarrow> 'e res" where
  "deliver call msg [] e = Inr e"
| "deliver call msg (h # hs) e =
     bindr (call (lh_handler h) msg (lh_user_data h) e) (\<lambda>(propagate, e).
       if propagate then deliver call msg hs e else Inr e)"

definition accepting :: "'h log_state \<Rightarrow> int \<Rightarrow> 'h log_handler list" where
  "accepting st pri = filter (\<lambda>h. pri \<le> lh_max_priority h) (map snd (g_log_list st))"

lemma alert_loop_stopped: "alert_loop call msg hs False e = Inr e"
  by (cases hs) auto

lemma alert_loop_deliver:
  "alert_loop call msg hs True e =
     deliver call msg (filter (\<lambda>h. msg_priority msg \<le> lh_max_priority h) (map snd hs)) e"
proof (induction hs arbitrary: e)
  case (Cons ph hs)
  obtain p h where ph: "ph = (p, h)" by (cases ph)
  show ?case
  proof (cases "call (lh_handler h) msg (lh_user_data h) e")
    case (Inr r)
    then show ?thesis using Cons
      by (cases r; cases "fst r") (auto simp: ph alert_loop_stopped)
  qed (simp add: ph Cons)
qed simp

lemma log_alert_handlers_deliver:
  "log_alert_handlers call st msg e = deliver call msg (accepting st (msg_priority msg)) e"
  by (simp add: log_alert_handlers_def alert_loop_deliver accepting_def)

section \<open>Reachable states\<close>

inductive log_reach :: "'h log_state \<Rightarrow> bool" where
  reach_start: "log_reach log_start"
| reach_register: "log_reach st \<Longrightarrow> log_reach (fst (log_register_message_handler st h mp u))"
| reach_unregister: "log_reach st \<Longrightarrow> log_reach (log_unregister_message_handler st p)"
| reach_clear: "log_reach st \<Longrightarrow> log_reach (log_clear st)"
| reach_divert: "log_reach st \<Longrightarrow> log_reach (log_divert st h u)"

definition log_inv :: "'h log_state \<Rightarrow> bool" where
  "log_inv st \<longleftrightarrow>
     (\<forall>(p, h) \<in> set (g_log_list st). lh_max_priority h \<le> g_log_max_priority st) \<and>
     distinct (map fst (g_log_list st)) \<and> 0 < log_brk st \<and>
     (\<forall>(p, h) \<in> set (g_log_list st). 0 < p \<and> p < log_brk st) \<and>
     (g_divert_handler st \<noteq> None \<longrightarrow> g_log_list st = [])"

lemma unregister_loop_spec:
  "unregister_loop p hs mp =
     (filter (\<lambda>(q, _). q \<noteq> p) hs,
      fold (\<lambda>(q, h) mp. max (lh_max_priority h) mp) (filter (\<lambda>(q, _). q \<noteq> p) hs) mp)"
  by (induction hs arbitrary: mp) (auto simp: Let_def max_def)

lemma fold_max_bounds:
  "mp \<le> fold (\<lambda>(q, h) mp. max (lh_max_priority h) mp) hs mp \<and>
   (\<forall>(q, h) \<in> set hs. lh_max_priority h \<le> fold (\<lambda>(q, h) mp. max (lh_max_priority h) mp) hs mp)"
proof (induction hs arbitrary: mp)
  case (Cons ph hs)
  obtain q h where "ph = (q, h)" by (cases ph)
  then show ?case using Cons [of "max (lh_max_priority h) mp"] by auto
qed simp

lemma log_inv_register: "log_inv st \<Longrightarrow> log_inv (fst (log_register_message_handler st h mp u))"
  by (fastforce simp: log_inv_def log_register_message_handler_def Let_def)

lemma log_inv_unregister: "log_inv st \<Longrightarrow> log_inv (log_unregister_message_handler st p)"
  using fold_max_bounds [of LOG_EMERG "filter (\<lambda>(q, _). q \<noteq> p) (g_log_list st)"]
  by (auto simp: log_inv_def log_unregister_message_handler_def unregister_loop_spec filter_empty_conv
      intro: distinct_map_filter)

lemma log_inv_clear: "log_inv st \<Longrightarrow> log_inv (log_clear st)"
  by (simp add: log_inv_def log_clear_def)

lemma log_inv_divert: "log_inv st \<Longrightarrow> log_inv (log_divert st h u)"
  by (simp add: log_inv_def log_clear_def log_divert_def)

lemma log_inv_start: "log_inv log_start"
  by (simp add: log_inv_def log_start_def)

lemma log_reach_inv: "log_reach st \<Longrightarrow> log_inv st"
  by (induction rule: log_reach.induct)
     (simp_all add: log_inv_start log_inv_register log_inv_unregister log_inv_clear log_inv_divert)

lemma accepting_dropped:
  assumes "log_inv st" and "g_log_list st = [] \<or> pri > g_log_max_priority st"
  shows "accepting st pri = []"
proof -
  have "\<not> pri \<le> lh_max_priority h" if "(p, h) \<in> set (g_log_list st)" for p h
    using assms that by (fastforce simp: log_inv_def)
  then show ?thesis by (fastforce simp: accepting_def filter_empty_conv)
qed

lemma msg_vcreate_small:
  assumes "length ts \<le> 29"
  shows "msg_vcreate p s ts = Inr \<lparr>msg_priority = p, msg_message = s, msg_tag_count = length ts,
           msg_tags = map Some ts\<rparr>"
proof -
  have "cap_after 0 (length ts) < 2 ^ 31" if "ts \<noteq> []"
  proof -
    have "(2::nat) ^ (length ts + 1) < 2 ^ 31"
      using assms by (intro power_strict_increasing) auto
    then show ?thesis using that by (simp only: cap_after_zero length_0_conv if_False)
  qed
  then show ?thesis
    using append_then_trim [of "\<lparr>msg_priority = p, msg_message = s, msg_tag_count = 0, msg_tags = []\<rparr>"
        "[]" ts]
    by (auto simp: msg_vcreate_def)
qed

section \<open>Properties\<close>


text \<open>Unregistering takes out exactly the handler with that handle, keeps the others in
  order, and the new maximum is that of the handlers left (at least 0, and -1 when none is
  left); a handle is never \<open>NULL\<close>, and unregistering right after registering gives the
  old list back.\<close>

theorem log_unregister_exact:
  assumes "log_reach st" and "g_divert_handler st = None"
  shows "g_log_list (log_unregister_message_handler st p) =
           filter (\<lambda>(q, _). q \<noteq> p) (g_log_list st) \<and>
         g_log_max_priority (log_unregister_message_handler st p) =
           (let kept = filter (\<lambda>(q, _). q \<noteq> p) (g_log_list st)
            in if kept = [] then -1 else Max (insert 0 (set (map (lh_max_priority \<circ> snd) kept)))) \<and>
         (case log_register_message_handler st h mp u of
            (st', p') \<Rightarrow> p' \<noteq> NULL \<and>
              g_log_list (log_unregister_message_handler st' p') = g_log_list st)"
proof -
  have fold_Max: "fold (\<lambda>(q, h) mp. max (lh_max_priority h) mp) hs m =
      Max (insert m (set (map (lh_max_priority \<circ> snd) hs)))" for hs :: "(ptr \<times> 'a log_handler) list" and m
  proof (induction hs arbitrary: m)
    case (Cons ph hs)
    obtain q h where ph: "ph = (q, h)" by (cases ph)
    have "Max (insert m (insert a S)) = Max (insert (max a m) S)" if "finite S" for a m :: int and S
      using that by (cases "S = {}") (simp_all add: Max_insert ac_simps)
    then show ?case using Cons by (simp add: ph)
  qed simp
  have inv: "log_inv st" using log_reach_inv [OF assms(1)] .
  then have fresh: "filter (\<lambda>(q, _). q \<noteq> log_brk st) (g_log_list st) = g_log_list st"
    by (fastforce simp: log_inv_def filter_id_conv)
  have "0 < log_brk st" using inv by (simp add: log_inv_def)
  then show ?thesis
    using fresh assms(2)
    by (simp add: log_unregister_message_handler_def unregister_loop_spec fold_Max Let_def
        log_register_message_handler_def NULL_def)
qed

text \<open>Diversion captures everything: afterwards every message, of whatever priority, goes
  to the divert handler alone, and registering or unregistering changes nothing and gives
  no handle. A later \<open>log_clear\<close> keeps the diversion but resets the maximum, so that
  the macros fall silent while \<open>log_message\<close> still diverts.\<close>

theorem log_divert_captures:
  assumes "st' = log_divert st (Some h) u"
  shows "log_message call st' msg False e = bindr (call h msg u e) (\<lambda>(_, e). Inr (e, [])) \<and>
         accepting st' pri = [] \<and>
         log_register_message_handler st' h2 mp u2 = (st', NULL) \<and>
         log_unregister_message_handler st' p = st' \<and>
         log_message call (log_clear st') msg False e = log_message call st' msg False e \<and>
         (0 \<le> pri \<longrightarrow> log_wrap call (log_clear st') pri txt vl e = Inr (e, []))"
proof (cases "call h msg u e")
  case (Inr r)
  then show ?thesis by (cases r)
    (simp add: assms log_divert_def log_clear_def log_message_def accepting_def
      log_register_message_handler_def log_unregister_message_handler_def log_wrap_def)
qed (simp add: assms log_divert_def log_clear_def log_message_def accepting_def
      log_register_message_handler_def log_unregister_message_handler_def log_wrap_def)

text \<open>Witnesses: a state with two handlers that record their number.\<close>

definition record_call :: "(nat, (nat \<times> int) list) handler_call" where
  "record_call h msg u e = Inr (h \<noteq> 0, e @ [(h, msg_priority msg)])"

definition two_handlers :: "nat log_state" where
  "two_handlers =
     fst (log_register_message_handler
       (fst (log_register_message_handler log_start 1 LOG_ERR NULL)) 2 LOG_INFO NULL)"

lemma two_handlers_reach: "log_reach two_handlers"
  unfolding two_handlers_def by (intro log_reach.intros)

lemma two_handlers_eval:
  "two_handlers = \<lparr>g_log_list =
      [(2, \<lparr>lh_max_priority = 6, lh_user_data = 0, lh_handler = 2\<rparr>),
       (1, \<lparr>lh_max_priority = 3, lh_user_data = 0, lh_handler = 1\<rparr>)],
    g_log_max_priority = 6, g_divert_handler = None, g_divert_user_data = 0, log_brk = 3\<rparr>"
  by (simp add: two_handlers_def log_register_message_handler_def log_start_def NULL_def)


lemma log_unregister_exact_witness:
  "map fst (g_log_list (log_unregister_message_handler two_handlers 2)) = [1] \<and>
   g_log_max_priority (log_unregister_message_handler two_handlers 2) = 3 \<and>
   g_log_max_priority
     (log_unregister_message_handler (log_unregister_message_handler two_handlers 2) 1) = -1"
proof -
  have r: "log_reach (log_unregister_message_handler two_handlers 2)"
    by (rule reach_unregister [OF two_handlers_reach])
  have d: "g_divert_handler two_handlers = None"
      "g_divert_handler (log_unregister_message_handler two_handlers 2) = None"
    by (simp_all add: two_handlers_eval log_unregister_message_handler_def)
  show ?thesis
    using log_unregister_exact [OF two_handlers_reach d(1), of 2]
      log_unregister_exact [OF r d(2), of 1]
    by (simp add: two_handlers_eval Let_def)
qed

lemma log_divert_captures_witness:
  "log_message record_call (log_divert two_handlers (Some 9) NULL)
     \<lparr>msg_priority = 99, msg_message = [], msg_tag_count = 0, msg_tags = []\<rparr> False [] =
       Inr ([(9, 99)], [])"
  by (simp add: log_divert_captures [OF refl] record_call_def)

end
