(* ===== verification/Dwarf.thy ===== *)
theory Dwarf
  imports Log
begin

text \<open>
  \<open>lib/dwarf.c\<close>, \<open>lib/tinu/dwarf.h\<close>: the line table read from an executable and the
  search for the line of an address. The answers of libdwarf are inputs of the model: what
  each of its calls returned for a compilation unit, in the order the code makes them.
\<close>

section \<open>Tables\<close>

type_synonym gptr = "64 word"

record dwarf_entry =
  dwe_source :: string          \<comment> \<open>the string of the quark \<open>m_source\<close>\<close>
  dwe_pointer :: gptr           \<comment> \<open>\<open>m_pointer\<close>\<close>
  dwe_lineno :: "32 word"       \<comment> \<open>\<open>m_lineno\<close>\<close>

record dwarf_comp_unit =
  dwu_entries :: "dwarf_entry list"
  dwu_lowpc :: gptr
  dwu_highpc :: gptr

record dwarf_handle =
  dwh_filename :: string
  dwh_entries :: "dwarf_comp_unit list"

text \<open>\<open>DWARF_ADDR_TO_GPOINTER\<close> converts through \<open>int\<close>: 32 bits, then sign extension.\<close>

definition addr_to_gpointer :: "64 word \<Rightarrow> gptr" where
  "addr_to_gpointer addr = scast (ucast addr :: 32 word)"

section \<open>Answers of libdwarf\<close>

datatype 'a dw_answer = DW_OK 'a | DW_NO_ENTRY | DW_ERROR

record dw_line =
  ln_src :: "string dw_answer"         \<comment> \<open>\<open>dwarf_linesrc\<close>\<close>
  ln_addr :: "64 word dw_answer"       \<comment> \<open>\<open>dwarf_lineaddr\<close>\<close>
  ln_no :: "64 word dw_answer"         \<comment> \<open>\<open>dwarf_lineno\<close>\<close>

record dw_die =
  die_srclines :: "dw_line list dw_answer"
  die_lowpc :: "64 word dw_answer"
  die_highpc :: "64 word dw_answer"

section \<open>Reading\<close>

text \<open>The loop over the lines; \<open>None\<close> when one of the three calls does not return \<open>DW_DLV_OK\<close>.\<close>

fun process_lines :: "dw_line list \<Rightarrow> dwarf_entry list option" where
  "process_lines [] = Some []"
| "process_lines (l # ls) =
     (case ln_src l of
        DW_OK filename \<Rightarrow>
          (case ln_addr l of
             DW_OK lineaddr \<Rightarrow>
               (case ln_no l of
                  DW_OK lineno \<Rightarrow>
                    map_option
                      (\<lambda>es. \<lparr>dwe_source = filename, dwe_pointer = addr_to_gpointer lineaddr,
                              dwe_lineno = ucast lineno\<rparr> # es)
                      (process_lines ls)
                | _ \<Rightarrow> None)
           | _ \<Rightarrow> None)
      | _ \<Rightarrow> None)"

text \<open>\<open>_dw_process_unit\<close>: the result and what is stored through \<open>res_unit\<close>.\<close>

definition dw_process_unit :: "dw_die \<Rightarrow> bool \<times> dwarf_comp_unit option" where
  "dw_process_unit die =
     (case die_srclines die of
        DW_NO_ENTRY \<Rightarrow> (True, None)
      | DW_ERROR \<Rightarrow> (False, None)
      | DW_OK linebuf \<Rightarrow>
          (case die_lowpc die of
             DW_ERROR \<Rightarrow> (False, None)
           | DW_NO_ENTRY \<Rightarrow> (True, None)
           | DW_OK low \<Rightarrow>
               (case die_highpc die of
                  DW_ERROR \<Rightarrow> (False, None)
                | DW_NO_ENTRY \<Rightarrow> (True, None)
                | DW_OK high \<Rightarrow>
                    (case process_lines linebuf of
                       None \<Rightarrow> (False, None)
                     | Some es \<Rightarrow>
                         (True, Some \<lparr>dwu_entries = es, dwu_lowpc = addr_to_gpointer low,
                                      dwu_highpc = addr_to_gpointer high\<rparr>)))))"

text \<open>
  The loop of \<open>dw_new\<close> over the compilation unit headers: each has the answer of
  \<open>dwarf_siblingof\<close>; \<open>last\<close> is the answer that ended the loop. \<open>None\<close> is the jump to
  \<open>error\<close>.
\<close>

fun read_units :: "(bool \<times> dw_die) list \<Rightarrow> bool \<Rightarrow> dwarf_comp_unit list option" where
  "read_units [] last_error = (if last_error then None else Some [])"
| "read_units ((sibling_ok, die) # cus) last_error =
     (if \<not> sibling_ok then None
      else
        (case dw_process_unit die of
           (False, _) \<Rightarrow> None
         | (True, None) \<Rightarrow> read_units cus last_error
         | (True, Some unit) \<Rightarrow> map_option (\<lambda>us. unit # us) (read_units cus last_error)))"

text \<open>The file as \<open>dw_new\<close> meets it.\<close>

datatype dw_file =
    Dw_no_file                                     \<comment> \<open>\<open>open\<close> fails\<close>
  | Dw_no_init "string option"                     \<comment> \<open>\<open>dwarf_init\<close> fails, with this error\<close>
  | Dw_units "(bool \<times> dw_die) list" bool "string option"  \<comment> \<open>units, how the loop ends, the error\<close>

definition dw_new :: "'e logger \<Rightarrow> string \<Rightarrow> dw_file \<Rightarrow> 'e \<Rightarrow> (dwarf_handle option \<times> 'e) res" where
  "dw_new lg name file e =
     (let res = \<lparr>dwh_filename = name, dwh_entries = []\<rparr>;
          report = (\<lambda>err e.
            bindr (case err of
                     None \<Rightarrow> Inr e
                   | Some txt \<Rightarrow> lg_macro lg LOG_ERR ''DWARF error''
                       (eval_tags [msg_tag_str ''error'' (Some txt)]) e)
              (\<lambda>e. Inr (None, e)))
      in bindr (lg_macro lg LOG_INFO ''Loading trace info''
                  (eval_tags [msg_tag_str ''filename'' (Some name)]) e) (\<lambda>e.
         case file of
           Dw_no_file \<Rightarrow>
             bindr (lg_macro lg LOG_ERR ''Cannot open runtime file''
                      (eval_tags [msg_tag_str ''filename'' (Some name)]) e) (report None)
         | Dw_no_init err \<Rightarrow>
             (case err of
                Some txt \<Rightarrow> report err e
              | None \<Rightarrow>
                  bindr (lg_macro lg LOG_WARNING ''File does not contain entries'' (Inr []) e)
                    (\<lambda>e. Inr (Some res, e)))
         | Dw_units cus last_error err \<Rightarrow>
             (case read_units cus last_error of
                None \<Rightarrow> report err e
              | Some units \<Rightarrow>
                  bindr (lg_macro lg LOG_INFO ''DWARF init successfull'' (Inr []) e)
                    (\<lambda>e. Inr (Some (res\<lparr>dwh_entries := units\<rparr>), e)))))"

section \<open>Searching\<close>

fun find_unit :: "dwarf_comp_unit list \<Rightarrow> gptr \<Rightarrow> dwarf_comp_unit option" where
  "find_unit [] p = None"
| "find_unit (unit # us) p =
     (if p \<ge> dwu_lowpc unit \<and> p \<le> dwu_highpc unit then Some unit else find_unit us p)"

text \<open>
  The second loop: \<open>entry\<close> is the variable it leaves behind, \<open>None\<close> while it is not
  initialised.
\<close>

fun find_line :: "dwarf_entry list \<Rightarrow> gptr \<Rightarrow> dwarf_entry option \<Rightarrow> dwarf_entry option" where
  "find_line [] p entry = entry"
| "find_line (e # es) p entry = (if p < dwe_pointer e then Some e else find_line es p (Some e))"

definition dw_lookup :: "dwarf_handle \<Rightarrow> gptr \<Rightarrow> nat \<Rightarrow> dwarf_entry option res" where
  "dw_lookup self p tolerance =
     (case find_unit (dwh_entries self) p of
        None \<Rightarrow> Inr None
      | Some unit \<Rightarrow>
          (case find_line (dwu_entries unit) p None of
             None \<Rightarrow> Inl WildPtr
           | Some e \<Rightarrow> Inr (Some e)))"

section \<open>What the search finds\<close>

lemma find_line_spec:
  "find_line es p entry =
     (case List.find (\<lambda>e. p < dwe_pointer e) es of
        Some e \<Rightarrow> Some e | None \<Rightarrow> if es = [] then entry else Some (last es))"
  by (induction es arbitrary: entry) (auto split: option.splits)

lemma find_unit_spec:
  "find_unit us p = List.find (\<lambda>u. dwu_lowpc u \<le> p \<and> p \<le> dwu_highpc u) us"
  by (induction us) auto

lemma find_next_sorted:
  assumes "sorted (map dwe_pointer (pre @ [e]))" and "dwe_pointer e \<le> p" and "p < dwe_pointer e'"
  shows "List.find (\<lambda>e. p < dwe_pointer e) (pre @ e # e' # post) = Some e'"
proof -
  have "List.find (\<lambda>e. p < dwe_pointer e) (pre @ [e]) = None"
    using assms by (auto simp: find_None_iff' sorted_append)
  then have "List.find (\<lambda>e. p < dwe_pointer e) ((pre @ [e]) @ e' # post) = Some e'"
    using assms(3) by (simp add: find_append del: append.simps append_assoc)
  then show ?thesis by simp
qed

section \<open>Properties\<close>

text \<open>For an address inside a unit whose entries are sorted, \<open>dw_lookup\<close> returns the
  entry after the one the address belongs to, even when the address is exactly the start
  of a line, and the last entry when there is none after it; the tolerance plays no part.\<close>

theorem dw_lookup_next_line:
  assumes "find_unit (dwh_entries self) p = Some unit" and "dwu_entries unit = pre @ e # rest"
    and "sorted (map dwe_pointer (pre @ [e]))" and "dwe_pointer e \<le> p"
    and "rest \<noteq> [] \<Longrightarrow> p < dwe_pointer (hd rest)"
  shows "dw_lookup self p tolerance = Inr (Some (if rest = [] then e else hd rest))"
proof (cases rest)
  case Nil
  have "List.find (\<lambda>e. p < dwe_pointer e) (pre @ [e]) = None"
    using assms(3,4) by (auto simp: find_None_iff' sorted_append)
  then show ?thesis using assms(1,2) Nil by (simp add: dw_lookup_def find_line_spec)
next
  case (Cons e' post)
  then show ?thesis
    using find_next_sorted [OF assms(3,4), of e' post] assms(1,2,5)
    by (simp add: dw_lookup_def find_line_spec)
qed

definition three_lines :: dwarf_handle where
  "three_lines = \<lparr>dwh_filename = ''a.out'', dwh_entries =
     [\<lparr>dwu_entries = [\<lparr>dwe_source = ''a.c'', dwe_pointer = 16, dwe_lineno = 1\<rparr>,
                       \<lparr>dwe_source = ''a.c'', dwe_pointer = 32, dwe_lineno = 2\<rparr>,
                       \<lparr>dwe_source = ''a.c'', dwe_pointer = 48, dwe_lineno = 3\<rparr>],
       dwu_lowpc = 16, dwu_highpc = 64\<rparr>]\<rparr>"

lemma dw_lookup_next_line_witness:
  "dw_lookup three_lines 32 0 = Inr (Some \<lparr>dwe_source = ''a.c'', dwe_pointer = 48, dwe_lineno = 3\<rparr>)"
  by (subst dw_lookup_next_line [of _ _ "hd (dwh_entries three_lines)"
        "[\<lparr>dwe_source = ''a.c'', dwe_pointer = 16, dwe_lineno = 1\<rparr>]"
        "\<lparr>dwe_source = ''a.c'', dwe_pointer = 32, dwe_lineno = 2\<rparr>"
        "[\<lparr>dwe_source = ''a.c'', dwe_pointer = 48, dwe_lineno = 3\<rparr>]"])
     (simp_all add: three_lines_def)

end
