(* ===== verification/Backtrace.thy ===== *)
theory Backtrace
  imports Dwarf
begin

text \<open>
  \<open>lib/backtrace.c\<close>, \<open>lib/tinu/backtrace.h\<close>: backtraces, their reference counts, the
  resolution of frames and the two dumps. The frames glibc's \<open>backtrace\<close> returns, the
  answers of \<open>dladdr\<close> and the demangler are parameters; the line table is the one
  \<open>dw_new\<close> built (\<open>None\<close> when there is none or line information is not compiled in).
\<close>

abbreviation (input) "MAX_DEPTH \<equiv> (4096::nat)"

record backtrace =
  bt_refcnt :: int                 \<comment> \<open>\<open>m_refcnt\<close>\<close>
  bt_symbols :: "gptr list"        \<comment> \<open>\<open>m_symbols\<close>; \<open>m_length\<close> is its length\<close>

record backtrace_entry =
  be_ptr :: gptr
  be_offset :: "64 word"
  be_function :: string
  be_file :: string

record dl_info =
  dli_fname :: string
  dli_sname :: "string option"
  dli_saddr :: gptr

text \<open>What the resolution of a frame depends on.\<close>

record symbols =
  sy_dladdr :: "gptr \<Rightarrow> dl_info option"            \<comment> \<open>\<open>None\<close>: \<open>dladdr\<close> returns 0\<close>
  sy_demangle :: "string \<Rightarrow> string option"          \<comment> \<open>\<open>g_demangler\<close>\<close>
  sy_dwarf :: "dwarf_handle option"                 \<comment> \<open>\<open>g_backtrace_dwarf\<close>\<close>

section \<open>Creation and reference counts\<close>

text \<open>
  \<open>frames\<close> is what \<open>backtrace (buffer, MAX_DEPTH)\<close> stores, \<open>None\<close> its error -1. The
  argument \<open>depth\<close> reaches only the messages.
\<close>

definition depth_tags :: "32 word \<Rightarrow> 32 word \<Rightarrow> msg_tag list res" where
  "depth_tags depth skip = eval_tags [msg_tag_int ''depth'' depth, msg_tag_int ''skip'' skip]"

definition backtrace_create_depth ::
  "'e logger \<Rightarrow> gptr list option \<Rightarrow> 32 word \<Rightarrow> 32 word \<Rightarrow> 'e \<Rightarrow> (backtrace option \<times> 'e) res" where
  "backtrace_create_depth lg frames depth skip e =
     bindr (if MAX_DEPTH < unat depth
            then lg_macro lg LOG_WARNING ''Requested depth exceeded maximum depth'' (depth_tags depth skip) e
            else Inr e) (\<lambda>e.
       case frames of
         None \<Rightarrow>
           bindr (lg_macro lg LOG_ERR ''Could not create backtrace object'' (depth_tags depth skip) e)
             (\<lambda>e. Inr (None, e))
       | Some buffer \<Rightarrow>
           if length buffer \<le> unat skip then
             bindr (lg_macro lg LOG_WARNING ''Backtrace empty'' (depth_tags depth skip) e)
               (\<lambda>e. Inr (Some \<lparr>bt_refcnt = 1, bt_symbols = []\<rparr>, e))
           else Inr (Some \<lparr>bt_refcnt = 1, bt_symbols = drop (unat skip) buffer\<rparr>, e))"

definition backtrace_create ::
  "'e logger \<Rightarrow> gptr list option \<Rightarrow> 32 word \<Rightarrow> 'e \<Rightarrow> (backtrace option \<times> 'e) res" where
  "backtrace_create lg frames skip e = backtrace_create_depth lg frames (of_nat MAX_DEPTH) skip e"

definition backtrace_reference :: "backtrace \<Rightarrow> backtrace" where
  "backtrace_reference self = self\<lparr>bt_refcnt := bt_refcnt self + 1\<rparr>"

text \<open>\<open>None\<close>: the backtrace was \<open>NULL\<close> or its memory was given back.\<close>

definition backtrace_unreference :: "backtrace option \<Rightarrow> backtrace option" where
  "backtrace_unreference self =
     (case self of
        None \<Rightarrow> None
      | Some b \<Rightarrow>
          (let b = b\<lparr>bt_refcnt := bt_refcnt b - 1\<rparr> in if bt_refcnt b = 0 then None else Some b))"

definition backtrace_depth :: "backtrace \<Rightarrow> nat" where
  "backtrace_depth self = length (bt_symbols self)"

section \<open>Resolving a frame\<close>

text \<open>
  \<open>_backtrace_resolve_info\<close>: the statement after \<open>if (dladdr (...) != 0);\<close> is empty, so
  the block below it runs even when \<open>dladdr\<close> fails and reads an uninitialised \<open>Dl_info\<close>.
\<close>

definition backtrace_resolve_info :: "symbols \<Rightarrow> gptr \<Rightarrow> backtrace_entry option res" where
  "backtrace_resolve_info sy addr =
     (if addr = 0 then Inr None
      else
        (case sy_dladdr sy addr of
           None \<Rightarrow> Inl WildPtr
         | Some info \<Rightarrow>
             Inr (Some
               \<lparr>be_ptr = addr, be_offset = addr - dli_saddr info,
                be_function =
                  (case dli_sname info of
                     None \<Rightarrow> ''<unknown>''
                   | Some s \<Rightarrow> (case sy_demangle sy s of None \<Rightarrow> ''<unknown>'' | Some f \<Rightarrow> f)),
                be_file = dli_fname info\<rparr>)))"

definition backtrace_line :: "symbols \<Rightarrow> backtrace \<Rightarrow> nat \<Rightarrow> backtrace_entry option res" where
  "backtrace_line sy self index =
     (if index \<ge> length (bt_symbols self) then Inr None
      else backtrace_resolve_info sy (bt_symbols self ! index))"

text \<open>\<open>backtrace_resolv_lines\<close>: \<open>None\<close> is \<open>FALSE\<close>.\<close>

definition backtrace_resolv_lines :: "symbols \<Rightarrow> backtrace_entry \<Rightarrow> (string \<times> 32 word) option res" where
  "backtrace_resolv_lines sy entry =
     (case sy_dwarf sy of
        None \<Rightarrow> Inr None
      | Some dwarf \<Rightarrow>
          bindr (dw_lookup dwarf (be_ptr entry) 48) (\<lambda>found.
            Inr (map_option (\<lambda>d. (dwe_source d, dwe_lineno d)) found)))"

section \<open>Dumps\<close>

text \<open>\<open>backtrace_dump\<close>: the callback gets \<open>None\<close> for \<open>BACKTRACE_ENTRY_INVALID\<close>.\<close>

definition backtrace_dump ::
  "symbols \<Rightarrow> backtrace \<Rightarrow> (backtrace_entry option \<Rightarrow> 'e \<Rightarrow> 'e res) \<Rightarrow> 'e \<Rightarrow> 'e res" where
  "backtrace_dump sy self callback e =
     fold_res (\<lambda>addr e. bindr (backtrace_resolve_info sy addr) (\<lambda>entry. callback entry e))
       (bt_symbols self) e"

definition dump_log_callback ::
  "symbols \<Rightarrow> 'e logger \<Rightarrow> int \<Rightarrow> string \<Rightarrow> backtrace_entry option \<Rightarrow> 'e \<Rightarrow> 'e res" where
  "dump_log_callback sy lg priority prefix entry e =
     (case entry of
        None \<Rightarrow>
          bindr (eval_tags [msg_tag_str ''error'' (Some ''invalid frame'')]) (\<lambda>tags.
            lg_format lg priority prefix tags e)
      | Some entry \<Rightarrow>
          bindr (backtrace_resolv_lines sy entry) (\<lambda>found.
          bindr (eval_tags
                   [msg_tag_str ''function'' (Some (be_function entry)),
                    msg_tag_str ''file'' (Some (be_file entry)),
                    msg_tag_hex ''offset'' (ucast (be_offset entry)),
                    msg_tag_ptr ''ptr'' (be_ptr entry),
                    msg_tag_printf ''location'' ''%s:%d''
                      [PStr (map_option fst found), PInt (case found of None \<Rightarrow> 0 | Some (_, n) \<Rightarrow> n)]])
            (\<lambda>tags. lg_format lg priority prefix tags e)))"

definition backtrace_dump_log ::
  "symbols \<Rightarrow> 'e logger \<Rightarrow> backtrace \<Rightarrow> string \<Rightarrow> int \<Rightarrow> 'e \<Rightarrow> 'e res" where
  "backtrace_dump_log sy lg self prefix priority e =
     backtrace_dump sy self (dump_log_callback sy lg priority prefix) e"

text \<open>The text one frame adds to the stream of \<open>backtrace_dump_file\<close>.\<close>

definition dump_file_callback ::
  "symbols \<Rightarrow> nat \<Rightarrow> backtrace_entry option \<Rightarrow> string \<Rightarrow> string res" where
  "dump_file_callback sy indent entry out =
     (let lead = [PInt (of_nat indent), PInt 32] in
      case entry of
        None \<Rightarrow>
          bindr (vformat (''%*c<invalid frame>'' @ [CHR 0x0A]) lead) (\<lambda>t. Inr (out @ t))
      | Some entry \<Rightarrow>
          bindr (vformat (''%*c%s'' @ [CHR 0x0A]) (lead @ [pstr (be_function entry)])) (\<lambda>t.
          bindr (backtrace_resolv_lines sy entry) (\<lambda>found.
            case found of
              None \<Rightarrow> Inr (out @ t)
            | Some (src, line) \<Rightarrow>
                bindr (vformat (CHR 0x09 # ''location: %s:%d'' @ [CHR 0x0A]) [pstr src, PInt line]) (\<lambda>u.
                  Inr (out @ t @ u)))))"

definition backtrace_dump_file :: "symbols \<Rightarrow> backtrace \<Rightarrow> nat \<Rightarrow> string res" where
  "backtrace_dump_file sy self indent = backtrace_dump sy self (dump_file_callback sy indent) []"

text \<open>
  \<open>strndup (str->str, str->len - 2)\<close>: with an empty text the length wraps around and the
  copy ends at the NUL byte.
\<close>

definition msg_tag_trace :: "symbols \<Rightarrow> string \<Rightarrow> backtrace \<Rightarrow> msg_tag res" where
  "msg_tag_trace sy tag trace =
     bindr (fold_res (\<lambda>addr str.
              bindr (backtrace_resolve_info sy addr) (\<lambda>entry.
                Inr (str @ (case entry of Some en \<Rightarrow> be_function en @ '', '' | None \<Rightarrow> ''???, ''))))
            (bt_symbols trace) [])
       (\<lambda>str. Inr \<lparr>mt_tag = tag,
                    mt_value = take (unat (of_nat (length str) - 2 :: 64 word)) str\<rparr>)"

definition msg_tag_trace_current ::
  "'e logger \<Rightarrow> symbols \<Rightarrow> gptr list option \<Rightarrow> string \<Rightarrow> 32 word \<Rightarrow> 'e \<Rightarrow> (msg_tag \<times> 'e) res" where
  "msg_tag_trace_current lg sy frames tag skip e =
     bindr (backtrace_create lg frames skip e) (\<lambda>(trace, e).
       case trace of
         None \<Rightarrow> Inl NullDeref
       | Some b \<Rightarrow> bindr (msg_tag_trace sy tag b) (\<lambda>t. Inr (t, e)))"

section \<open>What the dumps show\<close>

definition resolves :: "symbols \<Rightarrow> gptr \<Rightarrow> bool" where
  "resolves sy addr \<longleftrightarrow> addr = 0 \<or> sy_dladdr sy addr \<noteq> None"

definition frame_entry :: "symbols \<Rightarrow> gptr \<Rightarrow> backtrace_entry option" where
  "frame_entry sy addr = (case backtrace_resolve_info sy addr of Inl _ \<Rightarrow> None | Inr en \<Rightarrow> en)"

lemma resolve_ok: "resolves sy addr \<Longrightarrow> backtrace_resolve_info sy addr = Inr (frame_entry sy addr)"
  by (auto simp: resolves_def frame_entry_def backtrace_resolve_info_def)

lemma backtrace_dump_frames:
  "list_all (resolves sy) (bt_symbols b) \<Longrightarrow>
     backtrace_dump sy b callback e = fold_res callback (map (frame_entry sy) (bt_symbols b)) e"
proof -
  have "fold_res (\<lambda>addr e. bindr (backtrace_resolve_info sy addr) (\<lambda>entry. callback entry e)) addrs e =
      fold_res callback (map (frame_entry sy) addrs) e" if "list_all (resolves sy) addrs" for addrs
    using that
  proof (induction addrs arbitrary: e)
    case (Cons a addrs)
    then show ?case by (cases "callback (frame_entry sy a) e") (auto simp: resolve_ok)
  qed simp
  then show "list_all (resolves sy) (bt_symbols b) \<Longrightarrow>
      backtrace_dump sy b callback e = fold_res callback (map (frame_entry sy) (bt_symbols b)) e"
    by (simp add: backtrace_dump_def)
qed

lemma backtrace_dump_append:
  "backtrace_dump sy (b\<lparr>bt_symbols := xs @ ys\<rparr>) callback e =
     bindr (backtrace_dump sy (b\<lparr>bt_symbols := xs\<rparr>) callback e)
       (backtrace_dump sy (b\<lparr>bt_symbols := ys\<rparr>) callback)"
  by (simp add: backtrace_dump_def [abs_def] fold_res_append)

section \<open>Properties\<close>

text \<open>C40: A backtrace holds the frames \<open>backtrace\<close> returned without the first \<open>skip\<close>,
  with one reference; the requested depth never shortens it. A dump hands each frame to
  its callback once, in order; the first frame \<open>dladdr\<close> does not know ends it with a read
  of uninitialised memory.\<close>

theorem backtrace_frames:
  assumes "backtrace_create_depth lg (Some frames) depth skip e = Inr (b, e')"
  shows "b = Some \<lparr>bt_refcnt = 1, bt_symbols = drop (unat skip) frames\<rparr> \<and>
         (list_all (resolves sy) (drop (unat skip) frames) \<longrightarrow>
            backtrace_dump sy (the b) callback s =
              fold_res callback (map (frame_entry sy) (drop (unat skip) frames)) s) \<and>
         (\<forall>pre a post. drop (unat skip) frames = pre @ a # post \<and>
              list_all (resolves sy) pre \<and> \<not> resolves sy a \<longrightarrow>
            backtrace_dump sy (the b) callback s =
              bindr (fold_res callback (map (frame_entry sy) pre) s) (\<lambda>_. Inl WildPtr))"
proof -
  have b: "b = Some \<lparr>bt_refcnt = 1, bt_symbols = drop (unat skip) frames\<rparr>"
    using assms by (auto simp: backtrace_create_depth_def res_simps split: if_splits)
  have "backtrace_dump sy (the b) callback s =
      bindr (fold_res callback (map (frame_entry sy) pre) s) (\<lambda>_. Inl WildPtr)"
    if d: "drop (unat skip) frames = pre @ a # post" and pre: "list_all (resolves sy) pre"
      and a: "\<not> resolves sy a" for pre a post
  proof -
    let ?b = "\<lparr>bt_refcnt = 1, bt_symbols = []\<rparr>"
    have "the b = ?b\<lparr>bt_symbols := pre @ a # post\<rparr>" by (simp add: b d)
    moreover have "backtrace_dump sy (?b\<lparr>bt_symbols := a # post\<rparr>) callback = (\<lambda>_. Inl WildPtr)"
      using a by (simp add: backtrace_dump_def fun_eq_iff backtrace_resolve_info_def resolves_def)
    moreover have "backtrace_dump sy (?b\<lparr>bt_symbols := pre\<rparr>) callback s =
        fold_res callback (map (frame_entry sy) pre) s"
      using backtrace_dump_frames [of sy "?b\<lparr>bt_symbols := pre\<rparr>"] pre by simp
    ultimately show ?thesis by (simp only: backtrace_dump_append)
  qed
  then show ?thesis using b backtrace_dump_frames [of sy "the b" callback s] by auto
qed

definition one_symbol :: symbols where
  "one_symbol = \<lparr>sy_dladdr = (\<lambda>a. if a = 7 then Some \<lparr>dli_fname = ''f'', dli_sname = None, dli_saddr = 5\<rparr>
      else None), sy_demangle = Some, sy_dwarf = None\<rparr>"

definition no_logger :: "'e logger" where
  "no_logger = \<lparr>lg_format = (\<lambda>_ _ _ e. Inr e), lg_macro = (\<lambda>_ _ _ e. Inr e),
     lg_message = (\<lambda>_ e. Inr e), lg_max = -1\<rparr>"

lemma backtrace_frames_witness:
  "\<exists>b. backtrace_create_depth no_logger (Some [1, 7]) 1 1 () = Inr (Some b, ()) \<and>
     backtrace_dump one_symbol b (\<lambda>en s. Inr (s @ [map_option be_offset en])) [] = Inr [Some 2]"
proof -
  have c: "backtrace_create_depth no_logger (Some [1, 7]) 1 1 () =
      Inr (Some \<lparr>bt_refcnt = 1, bt_symbols = [7]\<rparr>, ())"
    by (simp add: backtrace_create_depth_def no_logger_def)
  show ?thesis
    using backtrace_frames [OF c, of one_symbol "\<lambda>en s. Inr (s @ [map_option be_offset en])" "[]"] c
    by (simp add: resolves_def one_symbol_def frame_entry_def backtrace_resolve_info_def)
qed

end
