(* ===== verification/Leakwatch.thy ===== *)
theory Leakwatch
  imports Backtrace "HOL-Library.AList"
begin

text \<open>
  \<open>lib/leakwatch.c\<close>, \<open>lib/tinu/leakwatch.h\<close>: the allocation hooks of the C library, the
  list of watches and the table of live blocks a simple watch keeps. The addresses the
  underlying allocator returns are inputs. The table is an association list in the order
  of \<open>g_hash_table_foreach\<close>; backtraces are counted references into a store.
\<close>

section \<open>Reference-counted traces\<close>

record trace_store =
  ts_traces :: "nat \<Rightarrow> backtrace option"     \<comment> \<open>\<open>None\<close>: not allocated, or freed\<close>
  ts_next :: nat

definition no_traces :: trace_store where
  "no_traces = \<lparr>ts_traces = (\<lambda>_. None), ts_next = 0\<rparr>"

definition new_trace :: "trace_store \<Rightarrow> backtrace option \<Rightarrow> trace_store \<times> nat option" where
  "new_trace s b =
     (case b of
        None \<Rightarrow> (s, None)
      | Some b \<Rightarrow>
          (s\<lparr>ts_traces := (ts_traces s)(ts_next s := Some b), ts_next := Suc (ts_next s)\<rparr>,
           Some (ts_next s)))"

definition ref_trace :: "trace_store \<Rightarrow> nat option \<Rightarrow> trace_store res" where
  "ref_trace s t =
     (case t of
        None \<Rightarrow> Inl NullDeref
      | Some i \<Rightarrow>
          (case ts_traces s i of
             None \<Rightarrow> Inl WildPtr
           | Some b \<Rightarrow> Inr (s\<lparr>ts_traces := (ts_traces s)(i := Some (backtrace_reference b))\<rparr>)))"

definition unref_trace :: "trace_store \<Rightarrow> nat option \<Rightarrow> trace_store res" where
  "unref_trace s t =
     (case t of
        None \<Rightarrow> Inr s
      | Some i \<Rightarrow>
          (case ts_traces s i of
             None \<Rightarrow> Inl WildPtr
           | Some b \<Rightarrow> Inr (s\<lparr>ts_traces := (ts_traces s)(i := backtrace_unreference (Some b))\<rparr>)))"

section \<open>The table of a simple watch\<close>

datatype leakwatch_operation =
    LEAKWATCH_OPERATION_MALLOC | LEAKWATCH_OPERATION_REALLOC | LEAKWATCH_OPERATION_FREE

record memory_entry =
  me_ptr :: ptr
  me_size :: "64 word"
  me_origin :: "nat option"
  me_last :: "nat option"

type_synonym leak_table = "(ptr \<times> memory_entry) list"

definition memory_entry_destroy :: "memory_entry \<Rightarrow> trace_store \<Rightarrow> trace_store res" where
  "memory_entry_destroy self s =
     bindr (unref_trace s (me_origin self)) (\<lambda>s. unref_trace s (me_last self))"

text \<open>\<open>g_hash_table_remove\<close> and \<open>g_hash_table_insert\<close> destroy the value they drop.\<close>

definition table_remove :: "leak_table \<Rightarrow> ptr \<Rightarrow> trace_store \<Rightarrow> (leak_table \<times> trace_store) res" where
  "table_remove tab p s =
     (case map_of tab p of
        None \<Rightarrow> Inr (tab, s)
      | Some en \<Rightarrow> bindr (memory_entry_destroy en s) (\<lambda>s. Inr (AList.delete p tab, s)))"

definition table_insert ::
  "leak_table \<Rightarrow> ptr \<Rightarrow> memory_entry \<Rightarrow> trace_store \<Rightarrow> (leak_table \<times> trace_store) res" where
  "table_insert tab p en s =
     (case map_of tab p of
        None \<Rightarrow> Inr (AList.update p en tab, s)
      | Some old \<Rightarrow> bindr (memory_entry_destroy old s) (\<lambda>s. Inr (AList.update p en tab, s)))"

definition leakwatch_simple_callback ::
  "leakwatch_operation \<Rightarrow> ptr \<Rightarrow> ptr \<Rightarrow> 64 word \<Rightarrow> nat option \<Rightarrow> leak_table \<Rightarrow> trace_store
     \<Rightarrow> (leak_table \<times> trace_store) res" where
  "leakwatch_simple_callback operation oldptr p sz trace self s =
     (case operation of
        LEAKWATCH_OPERATION_MALLOC \<Rightarrow>
          bindr (ref_trace s trace) (\<lambda>s.
            table_insert self p \<lparr>me_ptr = p, me_size = sz, me_origin = trace, me_last = None\<rparr> s)
      | LEAKWATCH_OPERATION_REALLOC \<Rightarrow>
          (case map_of self oldptr of
             None \<Rightarrow> Inr (self, s)
           | Some oldentry \<Rightarrow>
               if p = oldptr then
                 bindr (unref_trace s (me_last oldentry)) (\<lambda>s.
                 bindr (ref_trace s trace) (\<lambda>s.
                   Inr (AList.update oldptr (oldentry\<lparr>me_last := trace, me_size := sz\<rparr>) self, s)))
               else
                 bindr (ref_trace s (me_origin oldentry)) (\<lambda>s.
                 bindr (ref_trace s trace) (\<lambda>s.
                 bindr (table_remove self oldptr s) (\<lambda>(self, s).
                   table_insert self p
                     \<lparr>me_ptr = p, me_size = sz, me_origin = me_origin oldentry, me_last = trace\<rparr> s))))
      | LEAKWATCH_OPERATION_FREE \<Rightarrow> table_remove self oldptr s)"

text \<open>\<open>tinu_leakwatch_summary\<close>: a \<open>gsize\<close> sum.\<close>

definition tinu_leakwatch_summary :: "leak_table \<Rightarrow> 64 word" where
  "tinu_leakwatch_summary result = fold (\<lambda>(_, en) res. res + me_size en) result 0"

text \<open>\<open>tinu_leakwatch_simple_dump\<close> and its callback for one entry.\<close>

definition dump_trace ::
  "symbols \<Rightarrow> 'e logger \<Rightarrow> trace_store \<Rightarrow> string \<Rightarrow> nat option \<Rightarrow> int \<Rightarrow> 'e \<Rightarrow> 'e res" where
  "dump_trace sy lg s title t priority e =
     (case t of
        None \<Rightarrow> Inr e
      | Some i \<Rightarrow>
          bindr (lg_format lg priority title [] e) (\<lambda>e.
            case ts_traces s i of
              None \<Rightarrow> Inl WildPtr
            | Some b \<Rightarrow> backtrace_dump_log sy lg b ''    '' priority e))"

definition simple_dump_entry ::
  "symbols \<Rightarrow> 'e logger \<Rightarrow> trace_store \<Rightarrow> int \<Rightarrow> memory_entry \<Rightarrow> 'e \<Rightarrow> 'e res" where
  "simple_dump_entry sy lg s priority self e =
     bindr (eval_tags [msg_tag_ptr ''pointer'' (of_nat (me_ptr self)),
                       msg_tag_int ''size'' (ucast (me_size self))]) (\<lambda>tags.
     bindr (lg_format lg priority ''Memory leak found'' tags e) (\<lambda>e.
     bindr (dump_trace sy lg s ''  Original allocator'' (me_origin self) priority e) (\<lambda>e.
       dump_trace sy lg s ''  Last (re)allocator'' (me_last self) priority e)))"

definition tinu_leakwatch_simple_dump ::
  "symbols \<Rightarrow> 'e logger \<Rightarrow> trace_store \<Rightarrow> leak_table \<Rightarrow> int \<Rightarrow> 'e \<Rightarrow> 'e res" where
  "tinu_leakwatch_simple_dump sy lg s result loglevel e =
     fold_res (\<lambda>(_, en). simple_dump_entry sy lg s loglevel en) result e"

text \<open>\<open>g_hash_table_destroy\<close> destroys all values.\<close>

fun table_destroy :: "leak_table \<Rightarrow> trace_store \<Rightarrow> trace_store res" where
  "table_destroy [] s = Inr s"
| "table_destroy ((p, en) # tab) s = bindr (memory_entry_destroy en s) (table_destroy tab)"

section \<open>Hooks and watches\<close>

text \<open>The value of a hook variable: \<open>NULL\<close>, the function of this file, or another one.\<close>

datatype hook_ptr = HNull | HOwn | HOther nat

record hooks =
  hook_malloc :: hook_ptr
  hook_realloc :: hook_ptr
  hook_free :: hook_ptr

definition all_hooks :: "hook_ptr \<Rightarrow> hooks" where
  "all_hooks p = \<lparr>hook_malloc = p, hook_realloc = p, hook_free = p\<rparr>"

text \<open>
  The globals: the watches (newest first) as handle and watched table, the count, the
  initialisation flag, the hooks of libc, the saved hooks and the next handle.
\<close>

record lw_state =
  g_leakwatch_list :: "(ptr \<times> ptr) list"
  g_leakwatch_count :: int
  g_leakwatch_init :: bool
  libc_hooks :: hooks
  saved_hooks :: hooks
  lw_brk :: ptr

definition lw_start :: "hooks \<Rightarrow> lw_state" where
  "lw_start h = \<lparr>g_leakwatch_list = [], g_leakwatch_count = 0, g_leakwatch_init = False,
                 libc_hooks = h, saved_hooks = all_hooks HNull, lw_brk = 1\<rparr>"

definition hook_pause :: "lw_state \<Rightarrow> lw_state" where
  "hook_pause st = (if g_leakwatch_count st > 0 then st\<lparr>libc_hooks := all_hooks HNull\<rparr> else st)"

definition hook_resume :: "lw_state \<Rightarrow> lw_state" where
  "hook_resume st = (if g_leakwatch_count st > 0 then st\<lparr>libc_hooks := all_hooks HOwn\<rparr> else st)"

definition tinu_leakwatch_enable :: "lw_state \<Rightarrow> lw_state" where
  "tinu_leakwatch_enable st =
     (let st = (if g_leakwatch_count st = 0
                then st\<lparr>saved_hooks := libc_hooks st, libc_hooks := all_hooks HOwn\<rparr> else st)
      in st\<lparr>g_leakwatch_count := g_leakwatch_count st + 1\<rparr>)"

definition tinu_leakwatch_clear :: "lw_state \<Rightarrow> lw_state" where
  "tinu_leakwatch_clear st = st\<lparr>libc_hooks := saved_hooks st, saved_hooks := all_hooks HNull\<rparr>"

definition tinu_leakwatch_disable :: "lw_state \<Rightarrow> lw_state res" where
  "tinu_leakwatch_disable st =
     bindr (guard_res (Exited 1) (g_leakwatch_count st > 0)) (\<lambda>_.
     bindr (if g_leakwatch_count st = 1
            then (let st = tinu_leakwatch_clear st
                  in bindr (guard_res (Exited 1) (g_leakwatch_list st = [])) (\<lambda>_. Inr st))
            else Inr st)
       (\<lambda>st. Inr (st\<lparr>g_leakwatch_count := g_leakwatch_count st - 1\<rparr>)))"

definition tinu_register_watch :: "lw_state \<Rightarrow> ptr \<Rightarrow> lw_state \<times> ptr" where
  "tinu_register_watch st user_data =
     (let st = (if \<not> g_leakwatch_init st then st\<lparr>g_leakwatch_init := True\<rparr> else st);
          st = tinu_leakwatch_enable st;
          st = hook_pause st;
          lw = lw_brk st;
          st = st\<lparr>lw_brk := Suc lw, g_leakwatch_list := (lw, user_data) # g_leakwatch_list st\<rparr>
      in (hook_resume st, lw))"

fun remove_watch :: "(ptr \<times> ptr) list \<Rightarrow> ptr \<Rightarrow> (ptr \<times> ptr) list" where
  "remove_watch [] handle = []"
| "remove_watch ((p, ud) # act) handle =
     (if p = handle then act else (p, ud) # remove_watch act handle)"

definition tinu_unregister_watch ::
  "'e logger \<Rightarrow> lw_state \<Rightarrow> ptr \<Rightarrow> 'e \<Rightarrow> (bool \<times> lw_state \<times> 'e) res" where
  "tinu_unregister_watch lg st handle e =
     (if \<not> g_leakwatch_init st then
        bindr (lg_macro lg LOG_EMERG ''Leakwatch subsystem uninitialized'' (Inr []) e)
          (\<lambda>e. Inr (False, st, e))
      else
        (let found = list_ex (\<lambda>(p, _). p = handle) (g_leakwatch_list st);
             st = hook_pause st;
             st = st\<lparr>g_leakwatch_list := remove_watch (g_leakwatch_list st) handle\<rparr>;
             st = hook_resume st
         in if found
            then bindr (tinu_leakwatch_disable st) (\<lambda>st. Inr (True, st, e))
            else
              bindr (lg_macro lg LOG_WARNING ''Leakwatch handle is not registered''
                       (eval_tags [msg_tag_ptr ''handle'' (of_nat handle)]) e)
                (\<lambda>e. Inr (False, st, e))))"

section \<open>Alerts\<close>

text \<open>The tables of the registered watches, by the address given as user data.\<close>

type_synonym lw_tables = "ptr \<Rightarrow> leak_table"

text \<open>
  \<open>_leakwatch_alert\<close>: the trace of the call lives while the callbacks run; each callback
  updates the table of its watch.
\<close>

definition leakwatch_alert ::
  "lw_state \<Rightarrow> leakwatch_operation \<Rightarrow> ptr \<Rightarrow> ptr \<Rightarrow> 64 word \<Rightarrow> backtrace option
     \<Rightarrow> lw_tables \<times> trace_store \<Rightarrow> (lw_tables \<times> trace_store) res" where
  "leakwatch_alert st op oldptr p sz trace = (\<lambda>(tabs, s).
     (case new_trace s trace of
        (s, t) \<Rightarrow>
          bindr (fold_res (\<lambda>(_, ud) (tabs, s).
                   bindr (leakwatch_simple_callback op oldptr p sz t (tabs ud) s)
                     (\<lambda>(tab, s). Inr (tabs(ud := tab), s)))
                 (g_leakwatch_list st) (tabs, s))
            (\<lambda>(tabs, s). bindr (unref_trace s t) (\<lambda>s. Inr (tabs, s)))))"

text \<open>The hook functions; \<open>new_ptr\<close> is what the underlying allocator returns.\<close>

datatype mem_event =
    Malloc "64 word" ptr
  | Realloc ptr "64 word" ptr
  | Free ptr

definition leakwatch_hook ::
  "lw_state \<Rightarrow> mem_event \<Rightarrow> backtrace option \<Rightarrow> lw_tables \<times> trace_store
     \<Rightarrow> (lw_state \<times> lw_tables \<times> trace_store) res" where
  "leakwatch_hook st ev trace w =
     (let st1 = hook_pause st in
      bindr (case ev of
               Malloc sz new_ptr \<Rightarrow>
                 if new_ptr \<noteq> NULL
                 then leakwatch_alert st1 LEAKWATCH_OPERATION_MALLOC NULL new_ptr sz trace w
                 else Inr w
             | Realloc old sz new_ptr \<Rightarrow>
                 if new_ptr \<noteq> NULL
                 then leakwatch_alert st1 LEAKWATCH_OPERATION_REALLOC old new_ptr sz trace w
                 else Inr w
             | Free old \<Rightarrow> leakwatch_alert st1 LEAKWATCH_OPERATION_FREE old NULL 0 trace w)
        (\<lambda>w. Inr (hook_resume st1, w)))"

text \<open>An allocation event of the program: the hook runs when it is installed.\<close>

definition mem_step ::
  "mem_event \<Rightarrow> backtrace option \<Rightarrow> lw_state \<times> lw_tables \<times> trace_store
     \<Rightarrow> (lw_state \<times> lw_tables \<times> trace_store) res" where
  "mem_step ev trace = (\<lambda>(st, w).
     (let h = (case ev of Malloc _ _ \<Rightarrow> hook_malloc (libc_hooks st)
                        | Realloc _ _ _ \<Rightarrow> hook_realloc (libc_hooks st)
                        | Free _ \<Rightarrow> hook_free (libc_hooks st))
      in if h = HOwn then leakwatch_hook st ev trace w else Inr (st, w)))"

section \<open>Reference counts\<close>

definition cnt :: "trace_store \<Rightarrow> nat \<Rightarrow> int" where
  "cnt s i = (case ts_traces s i of None \<Rightarrow> 0 | Some b \<Rightarrow> bt_refcnt b)"

text \<open>Every trace in the store has at least one reference, and fresh identifiers are unused.\<close>

definition store_ok :: "trace_store \<Rightarrow> bool" where
  "store_ok s \<longleftrightarrow> (\<forall>i b. ts_traces s i = Some b \<longrightarrow> 0 < bt_refcnt b) \<and>
                 (\<forall>i. ts_next s \<le> i \<longrightarrow> ts_traces s i = None)"

definition oref :: "nat option \<Rightarrow> nat \<Rightarrow> int" where
  "oref t i = of_bool (t = Some i)"

definition eref :: "memory_entry \<Rightarrow> nat \<Rightarrow> int" where
  "eref en i = oref (me_origin en) i + oref (me_last en) i"

definition refs :: "leak_table \<Rightarrow> nat \<Rightarrow> int" where
  "refs tab i = (\<Sum>(_, en) \<leftarrow> tab. eref en i)"

lemma oref_nonneg [simp]: "0 \<le> oref t i" by (simp add: oref_def)

lemma eref_nonneg [simp]: "0 \<le> eref en i" by (simp add: eref_def)

lemma refs_nonneg [simp]: "0 \<le> refs tab i"
  by (auto simp: refs_def intro!: sum_list_nonneg)

lemma oref_None [simp]: "oref None i = 0" by (simp add: oref_def)

lemma refs_Nil [simp]: "refs [] i = 0" by (simp add: refs_def)

lemma refs_Cons [simp]: "refs ((p, en) # tab) i = eref en i + refs tab i" by (simp add: refs_def)

lemma cnt_pos: "store_ok s \<Longrightarrow> 0 < cnt s i \<longleftrightarrow> ts_traces s i \<noteq> None"
  by (auto simp: cnt_def store_ok_def split: option.splits)

lemma ref_trace_ok:
  assumes "store_ok s" and "0 < cnt s i"
  shows "\<exists>s'. ref_trace s (Some i) = Inr s' \<and> store_ok s' \<and> ts_next s' = ts_next s \<and>
           (\<forall>j. cnt s' j = cnt s j + oref (Some i) j)"
proof -
  obtain b where "ts_traces s i = Some b" using assms cnt_pos by auto
  then show ?thesis using assms(1)
    by (fastforce simp: ref_trace_def backtrace_reference_def store_ok_def cnt_def oref_def)
qed

lemma unref_trace_ok:
  assumes "store_ok s" and "\<And>i. t = Some i \<Longrightarrow> 0 < cnt s i"
  shows "\<exists>s'. unref_trace s t = Inr s' \<and> store_ok s' \<and> ts_next s' = ts_next s \<and>
           (\<forall>j. cnt s' j = cnt s j - oref t j)"
proof (cases t)
  case None
  then show ?thesis using assms(1) by (simp add: unref_trace_def)
next
  case (Some i)
  then obtain b where "ts_traces s i = Some b" "0 < bt_refcnt b"
    using assms cnt_pos store_ok_def by auto
  then show ?thesis using assms(1) Some
    by (fastforce simp: unref_trace_def backtrace_unreference_def store_ok_def cnt_def oref_def Let_def)
qed

lemma destroy_ok:
  assumes "store_ok s" and "\<And>i. eref en i \<le> cnt s i"
  shows "\<exists>s'. memory_entry_destroy en s = Inr s' \<and> store_ok s' \<and> ts_next s' = ts_next s \<and>
           (\<forall>j. cnt s' j = cnt s j - eref en j)"
proof -
  have "0 < cnt s i" if "me_origin en = Some i" for i
    using assms(2) [of i] that by (auto simp: eref_def oref_def of_bool_def split: if_splits)
  then obtain s1 where s1: "unref_trace s (me_origin en) = Inr s1" "store_ok s1" "ts_next s1 = ts_next s"
      "\<forall>j. cnt s1 j = cnt s j - oref (me_origin en) j"
    using unref_trace_ok [OF assms(1), of "me_origin en"] by blast
  have "0 < cnt s1 i" if "me_last en = Some i" for i
    using assms(2) [of i] that s1(4) by (auto simp: eref_def oref_def of_bool_def split: if_splits)
  then obtain s2 where "unref_trace s1 (me_last en) = Inr s2" "store_ok s2" "ts_next s2 = ts_next s1"
      "\<forall>j. cnt s2 j = cnt s1 j - oref (me_last en) j"
    using unref_trace_ok [OF s1(2), of "me_last en"] by blast
  then show ?thesis using s1 by (auto simp: memory_entry_destroy_def eref_def)
qed

lemma refs_member: "map_of tab p = Some en \<Longrightarrow> eref en i \<le> refs tab i"
proof (induction tab)
  case (Cons x tab)
  obtain q en' where x: "x = (q, en')" by (cases x)
  show ?case using Cons refs_nonneg [of tab i] eref_nonneg [of en' i]
    by (auto simp: x add_increasing split: if_splits)
qed simp

lemma refs_delete:
  assumes "distinct (map fst tab)" and "map_of tab p = Some en"
  shows "refs (AList.delete p tab) i = refs tab i - eref en i"
  using assms
proof (induction tab)
  case (Cons x tab)
  obtain q en' where x: "x = (q, en')" by (cases x)
  show ?case
  proof (cases "p = q")
    case True
    then have "p \<notin> fst ` set tab" using Cons.prems by (simp add: x)
    then have "AList.delete p tab = tab" by (force simp: AList.delete_eq filter_id_conv image_iff)
    then show ?thesis using True Cons.prems by (simp add: x AList.delete_simps)
  next
    case False
    then show ?thesis using Cons by (simp add: x AList.delete_simps)
  qed
qed simp

lemma refs_update:
  "refs (AList.update p en tab) i =
     refs tab i + eref en i - (case map_of tab p of None \<Rightarrow> 0 | Some old \<Rightarrow> eref old i)"
proof (induction tab)
  case (Cons x tab)
  obtain q en' where x: "x = (q, en')" by (cases x)
  show ?case using Cons by (cases "p = q") (auto simp: x)
qed simp

text \<open>
  The counts of the store are the references from the table, one more for each reference
  held outside it (\<open>out\<close>).
\<close>

definition counts_agree :: "leak_table \<Rightarrow> trace_store \<Rightarrow> (nat \<Rightarrow> int) \<Rightarrow> bool" where
  "counts_agree tab s out \<longleftrightarrow> distinct (map fst tab) \<and> store_ok s \<and>
     (\<forall>i. cnt s i = refs tab i + out i) \<and> (\<forall>i. 0 \<le> out i) \<and>
     (\<forall>(p, en) \<in> set tab. me_origin en \<noteq> None)"

lemma table_remove_agree:
  assumes "counts_agree tab s out"
  shows "\<exists>tab' s'. table_remove tab p s = Inr (tab', s') \<and> counts_agree tab' s' out \<and>
           tab' = AList.delete p tab \<and> ts_next s' = ts_next s"
proof (cases "map_of tab p")
  case None
  then have "AList.delete p tab = tab"
    by (force simp: AList.delete_eq filter_id_conv map_of_eq_None_iff image_iff)
  then show ?thesis using None assms by (simp add: table_remove_def)
next
  case (Some en)
  have "eref en i \<le> cnt s i" for i
    using refs_member [OF Some, of i] assms by (simp add: counts_agree_def add_increasing2)
  then obtain s' where s': "memory_entry_destroy en s = Inr s'" "store_ok s'" "ts_next s' = ts_next s"
      "\<forall>j. cnt s' j = cnt s j - eref en j"
    using destroy_ok [of s en] assms by (auto simp: counts_agree_def)
  have "set (AList.delete p tab) \<subseteq> set tab" by (auto simp: AList.delete_eq)
  then show ?thesis
    using assms s' Some refs_delete [OF _ Some]
    by (auto simp: table_remove_def counts_agree_def distinct_delete)
qed

lemma table_insert_agree:
  assumes "counts_agree tab s (\<lambda>i. out i + eref en i)" and "me_origin en \<noteq> None" and "\<And>i. 0 \<le> out i"
  shows "\<exists>s'. table_insert tab p en s = Inr (AList.update p en tab, s') \<and>
           counts_agree (AList.update p en tab) s' out \<and> ts_next s' = ts_next s"
proof -
  have sub: "set (AList.update p en tab) \<subseteq> insert (p, en) (set tab)" for tab :: leak_table
    by (induction tab) auto
  then have ent: "\<forall>(q, en') \<in> set (AList.update p en tab). me_origin en' \<noteq> None"
    using assms(1,2) by (fastforce simp: counts_agree_def)
  show ?thesis
  proof (cases "map_of tab p")
    case None
    then show ?thesis using assms ent
      by (auto simp: table_insert_def counts_agree_def refs_update distinct_update)
  next
    case (Some old)
    have "eref old i \<le> cnt s i" for i
      using refs_member [OF Some, of i] assms eref_nonneg [of en i] unfolding counts_agree_def
      by (smt (verit))
    then obtain s' where s': "memory_entry_destroy old s = Inr s'" "store_ok s'" "ts_next s' = ts_next s"
        "\<forall>j. cnt s' j = cnt s j - eref old j"
      using destroy_ok [of s old] assms by (auto simp: counts_agree_def)
    show ?thesis using assms s' Some ent
      by (auto simp: table_insert_def counts_agree_def refs_update distinct_update)
  qed
qed

lemma agree_shift:
  assumes "counts_agree tab s out" and "store_ok s'" and "\<And>i. cnt s' i = cnt s i + d i" and "\<And>i. 0 \<le> out i + d i"
  shows "counts_agree tab s' (\<lambda>i. out i + d i)"
  using assms by (simp add: counts_agree_def)

lemma ref_agree:
  assumes "counts_agree tab s out" and "0 < cnt s i"
  shows "\<exists>s'. ref_trace s (Some i) = Inr s' \<and> ts_next s' = ts_next s \<and>
           counts_agree tab s' (\<lambda>j. out j + oref (Some i) j)"
proof -
  have "store_ok s" using assms by (simp add: counts_agree_def)
  from ref_trace_ok [OF this assms(2)] obtain s' where s': "ref_trace s (Some i) = Inr s'"
      "store_ok s'" "ts_next s' = ts_next s" "\<forall>j. cnt s' j = cnt s j + oref (Some i) j" by blast
  moreover have "0 \<le> out j + oref (Some i) j" for j using assms(1) by (simp add: counts_agree_def)
  ultimately show ?thesis using agree_shift [OF assms(1) s'(2), of "oref (Some i)"] by blast
qed

lemma agree_ge: "counts_agree tab s out \<Longrightarrow> refs tab i \<le> cnt s i \<and> out i \<le> cnt s i"
  by (simp add: counts_agree_def)

lemma callback_malloc_agree:
  assumes "counts_agree tab s out" and "0 < out t"
  shows "\<exists>tab' s'. leakwatch_simple_callback LEAKWATCH_OPERATION_MALLOC old p sz (Some t) tab s =
             Inr (tab', s') \<and> counts_agree tab' s' out \<and> ts_next s' = ts_next s"
proof -
  let ?en = "\<lparr>me_ptr = p, me_size = sz, me_origin = Some t, me_last = None\<rparr>"
  have "0 < cnt s t" using agree_ge [OF assms(1), of t] assms(2) by simp
  from ref_agree [OF assms(1) this] obtain s1 where s1: "ref_trace s (Some t) = Inr s1"
      "ts_next s1 = ts_next s" "counts_agree tab s1 (\<lambda>j. out j + oref (Some t) j)" by blast
  have "counts_agree tab s1 (\<lambda>j. out j + eref ?en j)" using s1(3) by (simp add: eref_def)
  from table_insert_agree [OF this, of p] assms(1) s1 show ?thesis
    by (auto simp: leakwatch_simple_callback_def counts_agree_def)
qed

lemma callback_free_agree:
  "counts_agree tab s out \<Longrightarrow>
     \<exists>tab' s'. leakwatch_simple_callback LEAKWATCH_OPERATION_FREE old p sz t tab s =
             Inr (tab', s') \<and> counts_agree tab' s' out \<and> ts_next s' = ts_next s"
  unfolding leakwatch_simple_callback_def by simp (metis table_remove_agree)

lemma callback_realloc_in_place:
  assumes a: "counts_agree tab s out" and t: "0 < out t" and m: "map_of tab old = Some en"
  shows "\<exists>tab' s'. leakwatch_simple_callback LEAKWATCH_OPERATION_REALLOC old old sz (Some t) tab s =
             Inr (tab', s') \<and> counts_agree tab' s' out \<and> ts_next s' = ts_next s"
proof -
  let ?new = "en\<lparr>me_last := Some t, me_size := sz\<rparr>"
  have st: "store_ok s" and c: "cnt s i = refs tab i + out i" and o: "0 \<le> out i" for i
    using a by (simp_all add: counts_agree_def)
  have mem: "eref en i \<le> refs tab i" for i using refs_member [OF m] .
  have "0 < cnt s i" if "me_last en = Some i" for i
    using mem [of i] c [of i] o [of i] that by (auto simp: eref_def oref_def of_bool_def split: if_splits)
  then obtain s1 where s1: "unref_trace s (me_last en) = Inr s1" "store_ok s1" "ts_next s1 = ts_next s"
      "\<forall>j. cnt s1 j = cnt s j - oref (me_last en) j"
    using unref_trace_ok [OF st, of "me_last en"] by blast
  have "oref (me_last en) t \<le> refs tab t"
    using mem [of t] oref_nonneg [of "me_origin en" t] unfolding eref_def by linarith
  then have "0 < cnt s1 t" using c [of t] t s1(4) by simp
  from ref_trace_ok [OF s1(2) this] obtain s2 where s2: "ref_trace s1 (Some t) = Inr s2" "store_ok s2"
      "ts_next s2 = ts_next s1" "\<forall>j. cnt s2 j = cnt s1 j + oref (Some t) j" by blast
  have "cnt s2 i = refs (AList.update old ?new tab) i + out i" for i
    using s1(4) s2(4) c [of i] m by (simp add: refs_update eref_def)
  moreover have "\<forall>(q, en') \<in> set (AList.update old ?new tab). me_origin en' \<noteq> None"
  proof -
    have "me_origin en \<noteq> None" using a map_of_SomeD [OF m] by (auto simp: counts_agree_def)
    moreover have "set (AList.update old ?new tab) \<subseteq> insert (old, ?new) (set tab)"
      by (induction tab) auto
    ultimately show ?thesis using a by (fastforce simp: counts_agree_def)
  qed
  ultimately have "counts_agree (AList.update old ?new tab) s2 out"
    using a s2(2) by (simp add: counts_agree_def distinct_update)
  then show ?thesis using s1 s2 m by (simp add: leakwatch_simple_callback_def)
qed

lemma callback_realloc_moved:
  assumes a: "counts_agree tab s out" and t: "0 < out t" and m: "map_of tab old = Some en"
    and ne: "p \<noteq> old"
  shows "\<exists>tab' s'. leakwatch_simple_callback LEAKWATCH_OPERATION_REALLOC old p sz (Some t) tab s =
             Inr (tab', s') \<and> counts_agree tab' s' out \<and> ts_next s' = ts_next s"
proof -
  obtain i where i: "me_origin en = Some i"
    using a map_of_SomeD [OF m] by (fastforce simp: counts_agree_def)
  let ?new = "\<lparr>me_ptr = p, me_size = sz, me_origin = Some i, me_last = Some t\<rparr>"
  have "0 < refs tab i" using refs_member [OF m, of i] i oref_nonneg [of "me_last en" i]
    by (simp add: eref_def oref_def of_bool_def split: if_splits)
  then have "0 < cnt s i" using agree_ge [OF a, of i] by simp
  from ref_agree [OF a this] obtain s1 where s1: "ref_trace s (Some i) = Inr s1"
      "ts_next s1 = ts_next s" "counts_agree tab s1 (\<lambda>j. out j + oref (Some i) j)" by blast
  have "0 < cnt s1 t" using agree_ge [OF s1(3), of t] t oref_nonneg [of "Some i" t] by linarith
  from ref_agree [OF s1(3) this] obtain s2 where s2: "ref_trace s1 (Some t) = Inr s2"
      "ts_next s2 = ts_next s1" "counts_agree tab s2 (\<lambda>j. out j + oref (Some i) j + oref (Some t) j)"
    by blast
  from table_remove_agree [OF s2(3), of old] obtain s3 where s3:
      "table_remove tab old s2 = Inr (AList.delete old tab, s3)" "ts_next s3 = ts_next s2"
      "counts_agree (AList.delete old tab) s3 (\<lambda>j. out j + oref (Some i) j + oref (Some t) j)" by blast
  have "counts_agree (AList.delete old tab) s3 (\<lambda>j. out j + eref ?new j)"
    using s3(3) by (simp add: eref_def add.assoc)
  from table_insert_agree [OF this, of p] a s1 s2 s3 m ne i show ?thesis
    by (auto simp: leakwatch_simple_callback_def counts_agree_def)
qed

lemma callback_agree:
  assumes "counts_agree tab s out" and "0 < out t"
  shows "\<exists>tab' s'. leakwatch_simple_callback op old p sz (Some t) tab s = Inr (tab', s') \<and>
             counts_agree tab' s' out \<and> ts_next s' = ts_next s"
proof (cases op)
  case LEAKWATCH_OPERATION_REALLOC
  show ?thesis
  proof (cases "map_of tab old")
    case None
    then show ?thesis using assms(1) by (simp add: leakwatch_simple_callback_def LEAKWATCH_OPERATION_REALLOC)
  next
    case (Some en)
    then show ?thesis unfolding LEAKWATCH_OPERATION_REALLOC
      using callback_realloc_in_place [OF assms Some] callback_realloc_moved [OF assms Some]
      by (cases "p = old") auto
  qed
qed (use callback_malloc_agree [OF assms] callback_free_agree [OF assms(1)] in auto)

section \<open>All watches together\<close>

definition all_refs :: "ptr list \<Rightarrow> lw_tables \<Rightarrow> nat \<Rightarrow> int" where
  "all_refs uds tabs i = (\<Sum>ud \<leftarrow> uds. refs (tabs ud) i)"

definition world_ok :: "ptr list \<Rightarrow> lw_tables \<Rightarrow> trace_store \<Rightarrow> (nat \<Rightarrow> int) \<Rightarrow> bool" where
  "world_ok uds tabs s out \<longleftrightarrow> distinct uds \<and> store_ok s \<and> (\<forall>i. 0 \<le> out i) \<and>
     (\<forall>i. cnt s i = out i + all_refs uds tabs i) \<and>
     (\<forall>ud \<in> set uds. distinct (map fst (tabs ud)) \<and> (\<forall>(p, en) \<in> set (tabs ud). me_origin en \<noteq> None))"

lemma all_refs_nonneg: "0 \<le> all_refs uds tabs i"
  by (auto simp: all_refs_def intro!: sum_list_nonneg)

lemma all_refs_member: "ud \<in> set uds \<Longrightarrow> refs (tabs ud) i \<le> all_refs uds tabs i"
  unfolding all_refs_def by (rule member_le_sum_list) auto

lemma all_refs_update:
  assumes "distinct uds" and "ud \<in> set uds"
  shows "all_refs uds (tabs(ud := tab)) i = all_refs uds tabs i - refs (tabs ud) i + refs tab i"
  using assms
proof (induction uds)
  case (Cons u uds)
  show ?case
  proof (cases "u = ud")
    case True
    then have "(\<Sum>v \<leftarrow> uds. refs ((tabs(ud := tab)) v) i) = (\<Sum>v \<leftarrow> uds. refs (tabs v) i)"
      using Cons.prems by (intro arg_cong [of _ _ sum_list] map_cong) auto
    then show ?thesis using True by (simp add: all_refs_def)
  next
    case False
    then show ?thesis using Cons by (simp add: all_refs_def)
  qed
qed simp

lemma world_callback:
  assumes w: "world_ok uds tabs s out" and ud: "ud \<in> set uds" and t: "0 < out t"
  shows "\<exists>tab' s'. leakwatch_simple_callback op old p sz (Some t) (tabs ud) s = Inr (tab', s') \<and>
             world_ok uds (tabs(ud := tab')) s' out \<and> ts_next s' = ts_next s"
proof -
  let ?out = "\<lambda>i. cnt s i - refs (tabs ud) i"
  have ge: "out i \<le> ?out i" for i
    using w all_refs_member [OF ud, of tabs i] by (simp add: world_ok_def)
  have nonneg: "0 \<le> ?out i" for i using ge [of i] w unfolding world_ok_def by (smt (verit))
  have "counts_agree (tabs ud) s ?out"
    using w ud nonneg by (auto simp: counts_agree_def world_ok_def)
  moreover have "0 < ?out t" using ge [of t] t by linarith
  ultimately obtain tab' s' where c: "leakwatch_simple_callback op old p sz (Some t) (tabs ud) s = Inr (tab', s')"
      "counts_agree tab' s' ?out" "ts_next s' = ts_next s"
    using callback_agree [of "tabs ud" s ?out t op old p sz] by blast
  have "cnt s' i = out i + all_refs uds (tabs(ud := tab')) i" for i
    using c(2) w ud by (simp add: counts_agree_def world_ok_def all_refs_update)
  then have "world_ok uds (tabs(ud := tab')) s' out"
    using w c(2) by (auto simp: world_ok_def counts_agree_def)
  then show ?thesis using c by blast
qed

lemma world_callbacks:
  assumes "world_ok uds tabs s out" and "snd ` set ws \<subseteq> set uds" and "0 < out t"
  shows "\<exists>tabs' s'. fold_res (\<lambda>(_, ud) (tabs, s).
             bindr (leakwatch_simple_callback op old p sz (Some t) (tabs ud) s)
               (\<lambda>(tab, s). Inr (tabs(ud := tab), s))) ws (tabs, s) = Inr (tabs', s') \<and>
           world_ok uds tabs' s' out \<and> ts_next s' = ts_next s"
  using assms(1,2)
proof (induction ws arbitrary: tabs s)
  case (Cons w ws)
  obtain h ud where w: "w = (h, ud)" by (cases w)
  obtain tab' s1 where "leakwatch_simple_callback op old p sz (Some t) (tabs ud) s = Inr (tab', s1)"
      "world_ok uds (tabs(ud := tab')) s1 out" "ts_next s1 = ts_next s"
    using world_callback [OF Cons.prems(1) _ assms(3), of ud op old p sz] Cons.prems(2) by (auto simp: w)
  moreover from Cons.IH [OF this(2)] Cons.prems(2) this(3) show ?case
    by (auto simp: w calculation(1))
qed simp

lemma new_trace_world:
  assumes w: "world_ok uds tabs s out" and b: "bt_refcnt b = 1"
  shows "\<exists>s'. new_trace s (Some b) = (s', Some (ts_next s)) \<and>
           world_ok uds tabs s' (\<lambda>i. out i + oref (Some (ts_next s)) i)"
proof -
  let ?s = "s\<lparr>ts_traces := (ts_traces s)(ts_next s := Some b), ts_next := Suc (ts_next s)\<rparr>"
  have fresh: "ts_traces s (ts_next s) = None" using w by (simp add: world_ok_def store_ok_def)
  then have zero: "cnt s (ts_next s) = 0" by (simp add: cnt_def)
  have c: "cnt ?s i = cnt s i + oref (Some (ts_next s)) i" for i
    using zero b by (auto simp: cnt_def oref_def)
  have "store_ok ?s" using w b by (auto simp: world_ok_def store_ok_def)
  then have "world_ok uds tabs ?s (\<lambda>i. out i + oref (Some (ts_next s)) i)"
    using w c by (simp add: world_ok_def)
  then show ?thesis by (simp add: new_trace_def)
qed

lemma alert_world:
  assumes w: "world_ok (map snd (g_leakwatch_list st)) tabs s out" and b: "bt_refcnt b = 1"
  shows "\<exists>tabs' s'. leakwatch_alert st op old p sz (Some b) (tabs, s) = Inr (tabs', s') \<and>
           world_ok (map snd (g_leakwatch_list st)) tabs' s' out"
proof -
  let ?uds = "map snd (g_leakwatch_list st)" and ?t = "ts_next s"
  obtain s1 where s1: "new_trace s (Some b) = (s1, Some ?t)"
      "world_ok ?uds tabs s1 (\<lambda>i. out i + oref (Some ?t) i)"
    using new_trace_world [OF w b] by blast
  have "0 \<le> out ?t" using w by (simp add: world_ok_def)
  then have t: "0 < out ?t + oref (Some ?t) ?t" by (simp add: oref_def)
  obtain tabs' s2 where s2: "fold_res (\<lambda>(_, ud) (tabs, s).
             bindr (leakwatch_simple_callback op old p sz (Some ?t) (tabs ud) s)
               (\<lambda>(tab, s). Inr (tabs(ud := tab), s))) (g_leakwatch_list st) (tabs, s1) = Inr (tabs', s2)"
      "world_ok ?uds tabs' s2 (\<lambda>i. out i + oref (Some ?t) i)"
    using world_callbacks [OF s1(2) _ t, of "g_leakwatch_list st" op old p sz] by auto
  have c: "cnt s2 i = out i + oref (Some ?t) i + all_refs ?uds tabs' i" for i
    using s2(2) by (simp add: world_ok_def)
  have "0 < cnt s2 ?t" using c [of ?t] t all_refs_nonneg [of ?uds tabs' ?t] by linarith
  then obtain s3 where s3: "unref_trace s2 (Some ?t) = Inr s3" "store_ok s3"
      "\<forall>j. cnt s3 j = cnt s2 j - oref (Some ?t) j"
    using unref_trace_ok [of s2 "Some ?t"] s2(2) by (auto simp: world_ok_def)
  have "world_ok ?uds tabs' s3 out"
    using s2(2) s3 c w by (simp add: world_ok_def)
  then show ?thesis using s1(1) s2(1) s3(1) by (simp add: leakwatch_alert_def)
qed

text \<open>The watches installed: the hooks are ours exactly when somebody watches.\<close>

definition watching :: "lw_state \<Rightarrow> bool" where
  "watching st \<longleftrightarrow> g_leakwatch_count st > 0 \<and> libc_hooks st = all_hooks HOwn"

lemma pause_resume: "watching st \<Longrightarrow> hook_resume (hook_pause st) = st"
  by (simp add: watching_def hook_pause_def hook_resume_def)

lemma pause_list [simp]: "g_leakwatch_list (hook_pause st) = g_leakwatch_list st"
  by (simp add: hook_pause_def)

lemma mem_step_world:
  assumes st: "watching st" and w: "world_ok (map snd (g_leakwatch_list st)) tabs s out"
    and b: "bt_refcnt b = 1"
  shows "\<exists>tabs' s'. mem_step ev (Some b) (st, tabs, s) = Inr (st, tabs', s') \<and>
           world_ok (map snd (g_leakwatch_list st)) tabs' s' out"
proof -
  have w': "world_ok (map snd (g_leakwatch_list (hook_pause st))) tabs s out" using w by simp
  note a = alert_world [OF w' b]
  have own: "hook_malloc (libc_hooks st) = HOwn" "hook_realloc (libc_hooks st) = HOwn"
      "hook_free (libc_hooks st) = HOwn"
    using st by (simp_all add: watching_def all_hooks_def)
  show ?thesis
  proof (cases ev)
    case (Malloc n p)
    show ?thesis
      using a [of LEAKWATCH_OPERATION_MALLOC NULL p n] w own pause_resume [OF st]
      by (cases "p = NULL") (auto simp: mem_step_def leakwatch_hook_def Let_def Malloc)
  next
    case (Realloc old n p)
    show ?thesis
      using a [of LEAKWATCH_OPERATION_REALLOC old p n] w own pause_resume [OF st]
      by (cases "p = NULL") (auto simp: mem_step_def leakwatch_hook_def Let_def Realloc)
  next
    case (Free old)
    show ?thesis
      using a [of LEAKWATCH_OPERATION_FREE old NULL 0] own pause_resume [OF st]
      by (auto simp: mem_step_def leakwatch_hook_def Let_def Free)
  qed
qed

lemma mem_run_world:
  assumes "watching st" and "world_ok (map snd (g_leakwatch_list st)) tabs s out"
    and "\<forall>(ev, b) \<in> set evs. bt_refcnt b = 1"
  shows "\<exists>tabs' s'. fold_res (\<lambda>(ev, b). mem_step ev (Some b)) evs (st, tabs, s) = Inr (st, tabs', s') \<and>
           world_ok (map snd (g_leakwatch_list st)) tabs' s' out"
  using assms(2,3)
proof (induction evs arbitrary: tabs s)
  case (Cons x evs)
  obtain ev b where x: "x = (ev, b)" by (cases x)
  obtain tabs1 s1 where s1: "mem_step ev (Some b) (st, tabs, s) = Inr (st, tabs1, s1)"
      "world_ok (map snd (g_leakwatch_list st)) tabs1 s1 out"
    using mem_step_world [OF assms(1) Cons.prems(1), of b ev] Cons.prems(2) by (auto simp: x)
  from Cons.IH [OF s1(2)] Cons.prems(2) s1(1) show ?case by (simp add: x)
qed simp

lemma table_destroy_agree:
  assumes "store_ok s" and "\<And>i. cnt s i = refs tab i + out i" and "\<And>i. 0 \<le> out i"
  shows "\<exists>s'. table_destroy tab s = Inr s' \<and> store_ok s' \<and> (\<forall>i. cnt s' i = out i)"
  using assms(1,2)
proof (induction tab arbitrary: s)
  case (Cons x tab)
  obtain p en where x: "x = (p, en)" by (cases x)
  have "eref en i \<le> cnt s i" for i
    using Cons.prems(2) [of i] assms(3) [of i] refs_nonneg [of tab i] by (simp add: x)
  from destroy_ok [OF Cons.prems(1) this] obtain s1 where s1: "memory_entry_destroy en s = Inr s1"
      "store_ok s1" "\<forall>j. cnt s1 j = cnt s j - eref en j" by blast
  have "cnt s1 i = refs tab i + out i" for i using s1(3) Cons.prems(2) [of i] by (simp add: x)
  from Cons.IH [OF s1(2) this] s1(1) show ?case by (simp add: x)
qed simp

section \<open>The table as a map of live blocks\<close>

definition live_of :: "leak_table \<Rightarrow> ptr \<Rightarrow> 64 word option" where
  "live_of tab = (\<lambda>p. map_option me_size (map_of tab p))"

text \<open>What a table that follows the blocks allocated under watch should hold.\<close>

fun live_step :: "mem_event \<Rightarrow> (ptr \<Rightarrow> 64 word option) \<Rightarrow> (ptr \<Rightarrow> 64 word option)" where
  "live_step (Malloc sz p) live = (if p = NULL then live else live(p \<mapsto> sz))"
| "live_step (Realloc old sz p) live =
     (if p = NULL \<or> live old = None then live else (live(old := None))(p \<mapsto> sz))"
| "live_step (Free p) live = live(p := None)"

lemma live_update: "live_of (AList.update p en tab) = (live_of tab)(p \<mapsto> me_size en)"
  by (simp add: live_of_def update_conv' fun_eq_iff)

lemma live_delete: "live_of (AList.delete p tab) = (live_of tab)(p := None)"
  by (simp add: live_of_def delete_conv' fun_eq_iff)

lemma remove_live:
  assumes "table_remove tab p s = Inr (tab', s')"
  shows "live_of tab' = (live_of tab)(p := None)"
proof (cases "map_of tab p")
  case None
  then show ?thesis using assms by (auto simp: table_remove_def live_of_def)
next
  case (Some en)
  then show ?thesis using assms by (auto simp: table_remove_def res_simps live_delete)
qed

lemma insert_live: "table_insert tab p en s = Inr (tab', s') \<Longrightarrow> live_of tab' = (live_of tab)(p \<mapsto> me_size en)"
  by (auto simp: table_insert_def res_simps live_update split: option.splits)

lemma callback_live:
  assumes "leakwatch_simple_callback op old p sz t tab s = Inr (tab', s')"
  shows "live_of tab' =
     (case op of
        LEAKWATCH_OPERATION_MALLOC \<Rightarrow> (live_of tab)(p \<mapsto> sz)
      | LEAKWATCH_OPERATION_REALLOC \<Rightarrow>
          (if live_of tab old = None then live_of tab else ((live_of tab)(old := None))(p \<mapsto> sz))
      | LEAKWATCH_OPERATION_FREE \<Rightarrow> (live_of tab)(old := None))"
proof (cases op)
  case LEAKWATCH_OPERATION_MALLOC
  then show ?thesis using assms
    by (auto simp: leakwatch_simple_callback_def res_simps dest: insert_live)
next
  case LEAKWATCH_OPERATION_FREE
  then show ?thesis using assms
    by (auto simp: leakwatch_simple_callback_def dest: remove_live)
next
  case LEAKWATCH_OPERATION_REALLOC
  note op = this
  show ?thesis
  proof (cases "map_of tab old")
    case None
    then show ?thesis using assms op by (auto simp: leakwatch_simple_callback_def live_of_def)
  next
    case (Some en)
    then have some: "live_of tab old \<noteq> None" by (simp add: live_of_def)
    show ?thesis
    proof (cases "p = old")
      case True
      then show ?thesis using assms op Some some
        by (auto simp: leakwatch_simple_callback_def res_simps live_update)
    next
      case False
      then obtain tab1 s1 s2 en' where r: "table_remove tab old s1 = Inr (tab1, s2)"
          "table_insert tab1 p en' s2 = Inr (tab', s')" "me_size en' = sz"
        using assms op Some by (auto simp: leakwatch_simple_callback_def res_simps)
      show ?thesis using remove_live [OF r(1)] insert_live [OF r(2)] r(3) op some by auto
    qed
  qed
qed

text \<open>One watch \<open>ud\<close> installed: an event updates its table by \<open>live_step\<close>.\<close>

lemma mem_step_live:
  assumes "g_leakwatch_list st = [(lw, ud)]" and "watching st"
    and step: "mem_step ev (Some b) (st, tabs, s) = Inr (st', tabs', s')"
  shows "live_of (tabs' ud) = live_step ev (live_of (tabs ud))"
proof -
  have own: "hook_malloc (libc_hooks st) = HOwn" "hook_realloc (libc_hooks st) = HOwn"
      "hook_free (libc_hooks st) = HOwn"
    using assms(2) by (simp_all add: watching_def all_hooks_def)
  have alert: "\<exists>t s1 s2 tab. leakwatch_simple_callback op old p sz t (tabs ud) s1 = Inr (tab, s2) \<and>
      tabs2 = tabs(ud := tab)"
    if "leakwatch_alert (hook_pause st) op old p sz (Some b) (tabs, s) = Inr (tabs2, s3)"
    for op old p sz tabs2 s3
    using that assms(1) by (auto simp: leakwatch_alert_def new_trace_def res_simps)
  show ?thesis
  proof (cases ev)
    case (Malloc n p)
    show ?thesis
    proof (cases "p = NULL")
      case False
      then have "\<exists>s3. leakwatch_alert (hook_pause st) LEAKWATCH_OPERATION_MALLOC NULL p n (Some b) (tabs, s) =
          Inr (tabs', s3)"
        using step own by (auto simp: mem_step_def leakwatch_hook_def Let_def Malloc res_simps)
      then show ?thesis using alert False callback_live by (fastforce simp: Malloc)
    qed (use step own in \<open>auto simp: mem_step_def leakwatch_hook_def Let_def Malloc\<close>)
  next
    case (Realloc old n p)
    show ?thesis
    proof (cases "p = NULL")
      case False
      then have "\<exists>s3. leakwatch_alert (hook_pause st) LEAKWATCH_OPERATION_REALLOC old p n (Some b) (tabs, s) =
          Inr (tabs', s3)"
        using step own by (auto simp: mem_step_def leakwatch_hook_def Let_def Realloc res_simps)
      then show ?thesis using alert False callback_live by (fastforce simp: Realloc)
    qed (use step own in \<open>auto simp: mem_step_def leakwatch_hook_def Let_def Realloc\<close>)
  next
    case (Free old)
    have "\<exists>s3. leakwatch_alert (hook_pause st) LEAKWATCH_OPERATION_FREE old NULL 0 (Some b) (tabs, s) =
        Inr (tabs', s3)"
      using step own by (auto simp: mem_step_def leakwatch_hook_def Let_def Free res_simps)
    then show ?thesis using alert callback_live by (fastforce simp: Free)
  qed
qed

lemma mem_run_live:
  assumes "g_leakwatch_list st = [(lw, ud)]" and "watching st"
    and "world_ok [ud] tabs s out" and "\<forall>(ev, b) \<in> set evs. bt_refcnt b = 1"
    and "fold_res (\<lambda>(ev, b). mem_step ev (Some b)) evs (st, tabs, s) = Inr (st', tabs', s')"
  shows "live_of (tabs' ud) = fold live_step (map fst evs) (live_of (tabs ud))"
  using assms(3-5)
proof (induction evs arbitrary: tabs s)
  case (Cons x evs)
  obtain ev b where x: "x = (ev, b)" by (cases x)
  obtain tabs1 s1 where s1: "mem_step ev (Some b) (st, tabs, s) = Inr (st, tabs1, s1)" "world_ok [ud] tabs1 s1 out"
    using mem_step_world [OF assms(2), of tabs s out b ev] Cons.prems(1,2) assms(1) by (auto simp: x)
  have "live_of (tabs1 ud) = live_step ev (live_of (tabs ud))"
    using mem_step_live [OF assms(1,2) s1(1)] .
  moreover have "live_of (tabs' ud) = fold live_step (map fst evs) (live_of (tabs1 ud))"
    using Cons.IH [OF s1(2)] Cons.prems s1(1) by (simp add: x)
  ultimately show ?case by (simp add: x)
qed simp

lemma fold_sizes: "fold (\<lambda>(_, en) res. res + me_size en) tab r = r + (\<Sum>(_, en) \<leftarrow> tab. me_size en)"
  by (induction tab arbitrary: r) (auto simp: add.assoc)

lemma summary_live:
  assumes "distinct (map fst tab)"
  shows "tinu_leakwatch_summary tab = (\<Sum>p \<in> dom (live_of tab). the (live_of tab p))"
proof -
  have "dom (live_of tab) = dom (map_of tab)" by (auto simp: live_of_def)
  then have dom: "dom (live_of tab) = fst ` set tab" by (simp add: dom_map_of_conv_image_fst)
  have "(\<Sum>(_, en) \<leftarrow> tab. me_size en) = (\<Sum>p \<leftarrow> map fst tab. the (live_of tab p))"
    using assms
  proof (induction tab)
    case (Cons x tab)
    obtain p en where x: "x = (p, en)" by (cases x)
    have "(\<Sum>q \<leftarrow> map fst tab. the (live_of (x # tab) q)) = (\<Sum>q \<leftarrow> map fst tab. the (live_of tab q))"
      using Cons.prems by (intro arg_cong [of _ _ sum_list] map_cong) (auto simp: x live_of_def)
    moreover have "live_of (x # tab) p = Some (me_size en)" by (simp add: x live_of_def)
    ultimately show ?case using Cons by (simp add: x del: map_map)
  qed simp
  also have "\<dots> = (\<Sum>p \<in> set (map fst tab). the (live_of tab p))"
    using assms by (rule sum_list_distinct_conv_sum_set)
  finally show ?thesis by (simp add: tinu_leakwatch_summary_def fold_sizes dom)
qed

section \<open>The hook protocol\<close>

inductive lw_reach :: "hooks \<Rightarrow> lw_state \<Rightarrow> bool" for h0 where
  lwr_start: "lw_reach h0 (lw_start h0)"
| lwr_register: "lw_reach h0 st \<Longrightarrow> lw_reach h0 (fst (tinu_register_watch st ud))"
| lwr_unregister: "lw_reach h0 st \<Longrightarrow> tinu_unregister_watch lg st handle (e :: unit) = Inr (r, st', e') \<Longrightarrow>
    lw_reach h0 st'"
| lwr_event: "lw_reach h0 st \<Longrightarrow> mem_step ev b (st, w) = Inr (st', w') \<Longrightarrow> lw_reach h0 st'"

definition lw_inv :: "hooks \<Rightarrow> lw_state \<Rightarrow> bool" where
  "lw_inv h0 st \<longleftrightarrow>
     g_leakwatch_count st = int (length (g_leakwatch_list st)) \<and>
     (g_leakwatch_list st = [] \<longrightarrow> libc_hooks st = h0 \<and> saved_hooks st = all_hooks HNull) \<and>
     (g_leakwatch_list st \<noteq> [] \<longrightarrow> libc_hooks st = all_hooks HOwn \<and> saved_hooks st = h0 \<and>
        g_leakwatch_init st) \<and>
     0 < lw_brk st \<and> distinct (map fst (g_leakwatch_list st)) \<and>
     (\<forall>(p, _) \<in> set (g_leakwatch_list st). 0 < p \<and> p < lw_brk st)"

lemma remove_watch_set: "set (remove_watch ws h) \<subseteq> set ws"
  by (induction ws h rule: remove_watch.induct) auto

lemma remove_watch_filter:
  "distinct (map fst ws) \<Longrightarrow> remove_watch ws h = filter (\<lambda>(p, _). p \<noteq> h) ws"
proof (induction ws h rule: remove_watch.induct)
  case (2 p ud act handle)
  then show ?case by (auto simp: filter_id_conv[THEN iffD2] image_iff intro!: filter_True[symmetric])
qed simp

lemma remove_watch_length:
  "list_ex (\<lambda>(p, _). p = h) ws \<Longrightarrow> Suc (length (remove_watch ws h)) = length ws"
  by (induction ws h rule: remove_watch.induct) auto

lemma lw_inv_register: "lw_inv h0 st \<Longrightarrow> lw_inv h0 (fst (tinu_register_watch st ud))"
  by (auto simp: lw_inv_def tinu_register_watch_def tinu_leakwatch_enable_def hook_pause_def
      hook_resume_def Let_def less_Suc_eq)

lemma unregister_found:
  assumes inv: "lw_inv h0 st" and found: "list_ex (\<lambda>(p, _). p = handle) (g_leakwatch_list st)"
  shows "\<exists>st'. tinu_unregister_watch lg st handle e = Inr (True, st', e) \<and> lw_inv h0 st' \<and>
           g_leakwatch_list st' = filter (\<lambda>(p, _). p \<noteq> handle) (g_leakwatch_list st)"
proof -
  let ?ws = "remove_watch (g_leakwatch_list st) handle"
  have ne: "g_leakwatch_list st \<noteq> []" using found by auto
  have len: "int (length (g_leakwatch_list st)) = int (length ?ws) + 1"
    using remove_watch_length [OF found] by simp
  have d: "distinct (map fst (g_leakwatch_list st))" using inv by (simp add: lw_inv_def)
  have ws: "?ws = filter (\<lambda>(p, _). p \<noteq> handle) (g_leakwatch_list st)"
    using remove_watch_filter [OF d] .
  have "distinct (map fst ?ws)" using d by (simp add: ws distinct_map_filter)
  then show ?thesis
    using inv ne found len remove_watch_set [of "g_leakwatch_list st" handle]
    by (cases "?ws = []")
       (auto simp: lw_inv_def tinu_unregister_watch_def tinu_leakwatch_disable_def
          tinu_leakwatch_clear_def hook_pause_def hook_resume_def Let_def ws)
qed

lemma unregister_missing:
  assumes inv: "lw_inv h0 st" and "\<not> list_ex (\<lambda>(p, _). p = handle) (g_leakwatch_list st)"
    and "tinu_unregister_watch lg st handle e = Inr (r, st', e')"
  shows "r = False \<and> st' = st"
proof -
  have "\<forall>x \<in> set (g_leakwatch_list st). fst x \<noteq> handle" using assms(2) by (auto simp: list_ex_iff)
  then have "remove_watch (g_leakwatch_list st) handle = g_leakwatch_list st"
    using inv remove_watch_filter by (fastforce simp: lw_inv_def filter_id_conv)
  then show ?thesis
    using assms by (cases "g_leakwatch_list st = []")
      (auto simp: lw_inv_def tinu_unregister_watch_def hook_pause_def hook_resume_def Let_def
        res_simps split: if_splits)
qed

lemma mem_step_state: "lw_inv h0 st \<Longrightarrow> mem_step ev b (st, w) = Inr (st', w') \<Longrightarrow> st' = st"
  by (cases "g_leakwatch_list st = []")
     (auto simp: mem_step_def leakwatch_hook_def Let_def res_simps lw_inv_def hook_pause_def
       hook_resume_def split: if_splits)

lemma lw_reach_inv: "lw_reach h0 st \<Longrightarrow> lw_inv h0 st"
proof (induction rule: lw_reach.induct)
  case lwr_start
  then show ?case by (simp add: lw_inv_def lw_start_def)
next
  case (lwr_register st ud)
  then show ?case by (simp add: lw_inv_register)
next
  case (lwr_unregister st lg handle e r st' e')
  then show ?case
    using unregister_found [OF lwr_unregister.IH, of handle lg e]
      unregister_missing [OF lwr_unregister.IH _ lwr_unregister(2)]
    by (cases "list_ex (\<lambda>(p, _). p = handle) (g_leakwatch_list st)") auto
next
  case (lwr_event st ev b w st' w')
  then show ?case using mem_step_state by metis
qed

section \<open>Properties\<close>


definition one_watch :: lw_state where
  "one_watch = fst (tinu_register_watch (lw_start (all_hooks HNull)) 5)"


text \<open>C19: In every state that registering, unregistering and allocating can reach, the hooks
  of the C library are the library's own exactly while somebody watches and the original
  ones again afterwards; unregistering a registered handle always succeeds, removes that
  watch alone and trips none of the internal assertions; an unknown handle changes
  nothing.\<close>

theorem leakwatch_hooks_restored:
  assumes "lw_reach h0 st"
  shows "libc_hooks st = (if g_leakwatch_list st = [] then h0 else all_hooks HOwn) \<and>
         (if list_ex (\<lambda>(p, _). p = handle) (g_leakwatch_list st)
          then \<exists>st'. tinu_unregister_watch lg st handle e = Inr (True, st', e) \<and>
                 g_leakwatch_list st' = filter (\<lambda>(p, _). p \<noteq> handle) (g_leakwatch_list st) \<and>
                 libc_hooks st' = (if g_leakwatch_list st' = [] then h0 else all_hooks HOwn)
          else \<forall>r st' e'. tinu_unregister_watch lg st handle e = Inr (r, st', e') \<longrightarrow>
                 \<not> r \<and> st' = st)"
proof -
  have inv: "lw_inv h0 st" using lw_reach_inv [OF assms] .
  have hooks: "lw_inv h0 st' \<Longrightarrow> libc_hooks st' = (if g_leakwatch_list st' = [] then h0 else all_hooks HOwn)"
    for st' by (auto simp: lw_inv_def)
  have "\<exists>st'. tinu_unregister_watch lg st handle e = Inr (True, st', e) \<and>
                 g_leakwatch_list st' = filter (\<lambda>(p, _). p \<noteq> handle) (g_leakwatch_list st) \<and>
                 libc_hooks st' = (if g_leakwatch_list st' = [] then h0 else all_hooks HOwn)"
    if "list_ex (\<lambda>(p, _). p = handle) (g_leakwatch_list st)"
    using unregister_found [OF inv that, of lg e] hooks by blast
  then show ?thesis
    using hooks [OF inv] unregister_missing [OF inv, of handle lg e] by auto
qed

lemma leakwatch_hooks_restored_witness:
  "\<exists>st'. tinu_unregister_watch no_logger one_watch 1 () = Inr (True, st', ()) \<and>
     libc_hooks st' = all_hooks HNull"
proof -
  have r: "lw_reach (all_hooks HNull) one_watch"
    unfolding one_watch_def by (intro lw_reach.intros)
  have l: "g_leakwatch_list one_watch = [(1, 5)]"
    by (simp add: one_watch_def tinu_register_watch_def lw_start_def Let_def
        tinu_leakwatch_enable_def hook_pause_def hook_resume_def)
  show ?thesis
    using leakwatch_hooks_restored [OF r, of 1 no_logger "()"] by (auto simp: l)
qed

end
