(* ===== verification/RingFamily.thy ===== *)
theory RingFamily
  imports CList
begin

text \<open>
  Several circular lists in one heap, as the array \<open>m_hooks\<close> of a test context or the
  single list of report modules. \<open>list_family\<close> is the interface a client of the lists
  relies on: representation, append at the end, a pass over one list and giving a list
  up. Its lemmas are proved from these laws alone; the interpretation \<open>rings\<close> shows that
  \<open>clist.c\<close> keeps them.
\<close>

section \<open>The interface\<close>

locale list_family =
  fixes rep :: "'h \<Rightarrow> 'p list \<Rightarrow> 'a list list \<Rightarrow> bool"
    and nil :: 'p
    and app :: "'h \<Rightarrow> 'p \<Rightarrow> 'a \<Rightarrow> ('h \<times> 'p) option"
    and pass :: "'h \<Rightarrow> 'p \<Rightarrow> ('a \<Rightarrow> 's \<Rightarrow> 'r + 's) \<Rightarrow> 's \<Rightarrow> ('r + 's) option"
  assumes rep_length: "rep h ps xss \<Longrightarrow> length xss = length ps"
    and rep_app: "rep h ps xss \<Longrightarrow> i < length ps \<Longrightarrow>
      \<exists>h' p'. app h (ps ! i) x = Some (h', p') \<and> rep h' (ps[i := p']) (xss[i := xss ! i @ [x]])"
    and rep_pass: "rep h ps xss \<Longrightarrow> i < length ps \<Longrightarrow>
      pass h (ps ! i) body s = Some (loop_list body (xss ! i) s)"
    and rep_drop: "rep h ps xss \<Longrightarrow> i < length ps \<Longrightarrow> rep h (ps[i := nil]) (xss[i := []])"
begin

lemma pass_total:
  assumes "rep h ps xss" and "i < length ps" and "\<And>x s. \<exists>s'. body x s = Inr s'"
  shows "\<exists>s'. pass h (ps ! i) body s = Some (Inr s')"
proof -
  have "\<exists>s'. loop_list body xs s = Inr s'" for xs
  proof (induction xs arbitrary: s)
    case (Cons x xs)
    obtain s' where "body x s = Inr s'" using assms(3) by blast
    then show ?case using Cons by simp
  qed simp
  then show ?thesis using rep_pass [OF assms(1,2)] by simp
qed

lemma app_pass:
  assumes "rep h ps xss" and "i < length ps" and "app h (ps ! i) x = Some (h', p')"
    and "j < length ps"
  shows "pass h' (ps[i := p'] ! j) body s =
           Some (loop_list body (if j = i then xss ! i @ [x] else xss ! j) s)"
proof -
  have "rep h' (ps[i := p']) (xss[i := xss ! i @ [x]])"
    using rep_app [OF assms(1,2), of x] assms(3) by auto
  from rep_pass [OF this, of j] assms(2,4) rep_length [OF assms(1)]
  show ?thesis by (simp add: nth_list_update)
qed

lemma pass_empty:
  assumes "rep h ps xss" and "i < length ps"
  shows "pass h (ps[i := nil] ! i) body s = Some (Inr s)"
  using rep_pass [OF rep_drop [OF assms], of i] assms rep_length [OF assms(1)] by simp

end

section \<open>Rings in one heap\<close>

definition rings :: "'a heap \<Rightarrow> ptr list \<Rightarrow> 'a list list \<Rightarrow> bool" where
  "rings h ps xss \<longleftrightarrow> heap_ok h \<and> length xss = length ps \<and>
     (\<exists>ass. length ass = length ps \<and>
        (\<forall>i < length ps. ring h (ps ! i) (ass ! i) (xss ! i)) \<and>
        (\<forall>i < length ps. \<forall>j < length ps. i \<noteq> j \<longrightarrow> set (ass ! i) \<inter> set (ass ! j) = {}))"

definition clist_pass ::
  "'a heap \<Rightarrow> ptr \<Rightarrow> ('a \<Rightarrow> 's \<Rightarrow> 'r + 's) \<Rightarrow> 's \<Rightarrow> ('r + 's) option" where
  "clist_pass h p body s = clist_for h (clist_iter_new p) body s"

lemma ringsE:
  assumes "rings h ps xss"
  obtains ass where "heap_ok h" "length xss = length ps" "length ass = length ps"
    "\<And>i. i < length ps \<Longrightarrow> ring h (ps ! i) (ass ! i) (xss ! i)"
    "\<And>i j. i < length ps \<Longrightarrow> j < length ps \<Longrightarrow> i \<noteq> j \<Longrightarrow> set (ass ! i) \<inter> set (ass ! j) = {}"
  using assms unfolding rings_def by blast

text \<open>
  Replacing one ring by another whose addresses are old ones of that ring or fresh keeps
  the family.
\<close>

lemma rings_update:
  assumes fam: "rings h ps xss" and i: "i < length ps"
    and old: "\<And>as. ring h (ps ! i) as (xss ! i) \<Longrightarrow>
      \<exists>bs. ring h' p' bs ys \<and> same_outside h h' (insert (brk h) (set as)) \<and>
           set bs \<subseteq> insert (brk h) (set as)"
    and ok: "heap_ok h'"
  shows "rings h' (ps[i := p']) (xss[i := ys])"
proof -
  from fam obtain ass where a: "heap_ok h" "length xss = length ps" "length ass = length ps"
    "\<And>i. i < length ps \<Longrightarrow> ring h (ps ! i) (ass ! i) (xss ! i)"
    "\<And>i j. i < length ps \<Longrightarrow> j < length ps \<Longrightarrow> i \<noteq> j \<Longrightarrow> set (ass ! i) \<inter> set (ass ! j) = {}"
    unfolding rings_def by blast
  obtain bs where b: "ring h' p' bs ys" "same_outside h h' (insert (brk h) (set (ass ! i)))"
      "set bs \<subseteq> insert (brk h) (set (ass ! i))"
    using old [OF a(4) [OF i]] by blast
  have fresh: "brk h \<notin> set (ass ! j)" if "j < length ps" for j
    using ring_fresh [OF a(1) a(4) [OF that]] .
  have other: "ring h' (ps ! j) (ass ! j) (xss ! j)" if "j < length ps" "j \<noteq> i" for j
    using ring_same_outside [OF a(4) [OF that(1)] b(2)] a(5) [OF that(1) i that(2)]
      fresh [OF that(1)] by auto
  have "ring h' (ps[i := p'] ! j) (ass[i := bs] ! j) (xss[i := ys] ! j)" if "j < length ps" for j
    using other [OF that] b(1) that a(2,3) by (cases "j = i") auto
  moreover have "set (ass[i := bs] ! j) \<inter> set (ass[i := bs] ! k) = {}"
    if "j < length ps" "k < length ps" "j \<noteq> k" for j k
    using that a(3) a(5) [OF that] a(5) [OF that(1) i] a(5) [OF that(2) i] b(3)
      fresh [OF that(1)] fresh [OF that(2)]
    by (cases "j = i"; cases "k = i") auto
  ultimately show ?thesis
    unfolding rings_def using ok a(2,3) by (intro conjI exI [of _ "ass[i := bs]"]) auto
qed

lemma rings_append:
  assumes fam: "rings h ps xss" and i: "i < length ps"
  shows "\<exists>h' p'. clist_append h (ps ! i) x = Some (h', p') \<and>
           rings h' (ps[i := p']) (xss[i := xss ! i @ [x]])"
proof -
  obtain as where ok: "heap_ok h" and r: "ring h (ps ! i) as (xss ! i)"
    using ringsE [OF fam] i by metis
  obtain h' p' where h': "clist_append h (ps ! i) x = Some (h', p')"
      "ring h' p' (as @ [brk h]) (xss ! i @ [x])" "heap_ok h'"
    using clist_append_ring [OF ok r, of x] by blast
  have "rings h' (ps[i := p']) (xss[i := xss ! i @ [x]])"
  proof (rule rings_update [OF fam i _ h'(3)])
    fix bs assume "ring h (ps ! i) bs (xss ! i)"
    from clist_append_ring [OF ok this, of x] h'(1)
    show "\<exists>cs. ring h' p' cs (xss ! i @ [x]) \<and> same_outside h h' (insert (brk h) (set bs)) \<and>
            set cs \<subseteq> insert (brk h) (set bs)"
      by (intro exI [of _ "bs @ [brk h]"]) auto
  qed
  then show ?thesis using h'(1) by blast
qed

lemma rings_drop:
  assumes fam: "rings h ps xss" and i: "i < length ps"
  shows "rings h (ps[i := NULL]) (xss[i := []])"
proof (rule rings_update [OF fam i])
  show "heap_ok h" using fam by (simp add: rings_def)
qed (auto intro: exI [of _ "[]"])

lemma rings_pass:
  assumes "rings h ps xss" and "i < length ps"
  shows "clist_pass h (ps ! i) body s = Some (loop_list body (xss ! i) s)"
  using ringsE [OF assms(1)] assms(2) by (metis clist_for_ring clist_pass_def)

lemma rings_empty: "rings empty_heap (replicate n NULL) (replicate n [])"
  by (auto simp: rings_def empty_heap_ok intro!: exI [of _ "replicate n []"])

interpretation ring_lists: list_family rings NULL clist_append clist_pass
proof
  show "length xss = length ps" if "rings h ps xss" for h :: "'a heap" and ps xss
    using that by (simp add: rings_def)
qed (simp_all add: rings_append rings_pass rings_drop)

end
