(* ===== verification/TestHooks.thy ===== *)
theory TestHooks
  imports RingFamily
begin

text \<open>
  The hooks of a test context (\<open>lib/test.c\<close>: \<open>_test_run_hooks\<close>,
  \<open>test_register_hook\<close>, \<open>test_unregister_hook\<close> and their multiple forms;
  \<open>lib/tinu/test.h\<close>: \<open>TestHookID\<close>, \<open>TestHookEntry\<close>). The array \<open>m_hooks\<close> holds
  \<open>TEST_HOOK_MAX\<close> circular lists in one heap. A hook function is a code \<open>'k\<close>;
  \<open>call\<close> says what running it does to the environment.
\<close>

section \<open>Hook identifiers and entries\<close>

abbreviation (input) "TEST_HOOK_ASSERT \<equiv> (0::nat)"
abbreviation (input) "TEST_HOOK_SIGNAL_ABORT \<equiv> (1::nat)"
abbreviation (input) "TEST_HOOK_SIGNAL_SEGFAULT \<equiv> (2::nat)"
abbreviation (input) "TEST_HOOK_BEFORE_TEST \<equiv> (3::nat)"
abbreviation (input) "TEST_HOOK_AFTER_TEST \<equiv> (4::nat)"
abbreviation (input) "TEST_HOOK_BEFORE_SUITE \<equiv> (5::nat)"
abbreviation (input) "TEST_HOOK_AFTER_SUITE \<equiv> (6::nat)"
abbreviation (input) "TEST_HOOK_LEAKINFO \<equiv> (7::nat)"
abbreviation (input) "TEST_HOOK_MAX \<equiv> (8::nat)"
abbreviation (input) "TEST_HOOK_ALL \<equiv> (65535::nat)"

record 'k hook_entry =
  he_hook :: "'k option"         \<comment> \<open>\<open>m_hook\<close>, \<open>None\<close> for \<open>NULL\<close>\<close>
  he_user_data :: ptr            \<comment> \<open>\<open>m_user_data\<close>\<close>

text \<open>The part of a \<open>TestContext\<close> the hooks live in.\<close>

record 'k hook_store =
  hk_heap :: "'k hook_entry heap"
  m_hooks :: "ptr list"

text \<open>\<open>test_context_init\<close> clears the array.\<close>

definition hooks_init :: "'k hook_store" where
  "hooks_init = \<lparr>hk_heap = empty_heap, m_hooks = replicate TEST_HOOK_MAX NULL\<rparr>"

section \<open>Operations\<close>

text \<open>
  The body of \<open>test_register_hook\<close> for one hook; \<open>TEST_HOOK_ALL\<close> calls it once for
  each identifier.
\<close>

definition register_one ::
  "'k hook_store \<Rightarrow> nat \<Rightarrow> 'k option \<Rightarrow> ptr \<Rightarrow> 'k hook_store res" where
  "register_one self hook_id hook user_data =
     bindr (guard_res AssertAbort (hook_id < TEST_HOOK_MAX)) (\<lambda>_.
     bindr (lift_opt WildPtr (clist_append (hk_heap self) (m_hooks self ! hook_id)
              \<lparr>he_hook = hook, he_user_data = user_data\<rparr>)) (\<lambda>(h, p).
       Inr (self\<lparr>hk_heap := h, m_hooks := (m_hooks self)[hook_id := p]\<rparr>)))"

definition test_register_hook ::
  "'k hook_store \<Rightarrow> nat \<Rightarrow> 'k option \<Rightarrow> ptr \<Rightarrow> 'k hook_store res" where
  "test_register_hook self hook_id hook user_data =
     (if hook_id \<noteq> TEST_HOOK_ALL then register_one self hook_id hook user_data
      else fold_res (\<lambda>i self. register_one self i hook user_data) [0..<TEST_HOOK_MAX] self)"

definition test_register_multiple_hooks ::
  "'k hook_store \<Rightarrow> 'k option list \<Rightarrow> ptr \<Rightarrow> 'k hook_store res" where
  "test_register_multiple_hooks self hooks user_data =
     fold_res (\<lambda>id self.
         if hooks ! id \<noteq> None then test_register_hook self id (hooks ! id) user_data
         else Inr self)
       [0..<TEST_HOOK_MAX] self"

text \<open>
  The loop of \<open>test_unregister_hook\<close>; \<open>freed\<close> are the entries \<open>g_free\<close> got.
\<close>

partial_function (option) unregister_hooks_loop ::
  "'k hook_entry heap \<Rightarrow> clist_iter \<Rightarrow> 'k \<Rightarrow> ptr \<Rightarrow> 'k hook_entry list
     \<Rightarrow> ('k hook_entry heap \<times> 'k hook_entry list) option" where
  "unregister_hooks_loop h iter hook user_data freed = do {
     (more, iter) \<leftarrow> clist_iter_next h iter;
     (if \<not> more then Some (h, freed)
      else do {
        entry \<leftarrow> clist_iter_data h iter;
        (if he_hook entry = Some hook \<and> (user_data = NULL \<or> he_user_data entry = user_data)
         then do {
           (h, iter, freed) \<leftarrow> clist_iter_remove h iter (Some (\<lambda>e s. s @ [e])) freed;
           unregister_hooks_loop h iter hook user_data freed
         }
         else unregister_hooks_loop h iter hook user_data freed)
      })
   }"

text \<open>\<open>hook = None\<close> is the \<open>NULL\<close> that drops the whole list.\<close>

definition unregister_one ::
  "'k hook_store \<Rightarrow> nat \<Rightarrow> 'k option \<Rightarrow> ptr \<Rightarrow> 'k hook_store res" where
  "unregister_one self hook_id hook user_data =
     bindr (guard_res AssertAbort (hook_id < TEST_HOOK_MAX)) (\<lambda>_.
       case hook of
         None \<Rightarrow>
           bindr (lift_opt WildPtr
                    (clist_destroy (hk_heap self) (m_hooks self ! hook_id) (Some (\<lambda>e s. s @ [e])) []))
             (\<lambda>(h, freed). Inr (self\<lparr>hk_heap := h, m_hooks := (m_hooks self)[hook_id := NULL]\<rparr>))
       | Some f \<Rightarrow>
           bindr (lift_opt WildPtr
                    (unregister_hooks_loop (hk_heap self) (clist_iter_new (m_hooks self ! hook_id))
                       f user_data []))
             (\<lambda>(h, freed). Inr (self\<lparr>hk_heap := h, m_hooks := (m_hooks self)[hook_id := NULL]\<rparr>)))"

definition test_unregister_hook ::
  "'k hook_store \<Rightarrow> nat \<Rightarrow> 'k option \<Rightarrow> ptr \<Rightarrow> 'k hook_store res" where
  "test_unregister_hook self hook_id hook user_data =
     (if hook_id = TEST_HOOK_ALL
      then fold_res (\<lambda>i self. unregister_one self i None NULL) [0..<TEST_HOOK_MAX] self
      else unregister_one self hook_id hook user_data)"

definition test_unregister_multiple_hooks ::
  "'k hook_store \<Rightarrow> 'k option list \<Rightarrow> ptr \<Rightarrow> 'k hook_store res" where
  "test_unregister_multiple_hooks self hooks user_data =
     fold_res (\<lambda>id self.
         if hooks ! id \<noteq> None then test_unregister_hook self id (hooks ! id) user_data
         else Inr self)
       [0..<TEST_HOOK_MAX] self"

text \<open>
  \<open>_test_run_hooks\<close>: a pass over one list; entries without a function are skipped. The
  arguments after the identifier are part of \<open>call\<close>.
\<close>

definition hook_body ::
  "('k \<Rightarrow> ptr \<Rightarrow> 'e \<Rightarrow> 'e res) \<Rightarrow> 'k hook_entry \<Rightarrow> 'e \<Rightarrow> 'e res" where
  "hook_body call entry e =
     (case he_hook entry of None \<Rightarrow> Inr e | Some f \<Rightarrow> call f (he_user_data entry) e)"

definition test_run_hooks ::
  "('k \<Rightarrow> ptr \<Rightarrow> 'e \<Rightarrow> 'e res) \<Rightarrow> 'k hook_store \<Rightarrow> nat \<Rightarrow> 'e \<Rightarrow> 'e res" where
  "test_run_hooks call self hook_id e =
     bindr (guard_res AssertAbort (hook_id < TEST_HOOK_MAX)) (\<lambda>_.
       case clist_pass (hk_heap self) (m_hooks self ! hook_id) (hook_body call) e of
         None \<Rightarrow> Inl WildPtr
       | Some r \<Rightarrow> r)"

section \<open>Stores as eight lists of entries\<close>

definition hooks_hold :: "'k hook_store \<Rightarrow> 'k hook_entry list list \<Rightarrow> bool" where
  "hooks_hold self xss \<longleftrightarrow>
     rings (hk_heap self) (m_hooks self) xss \<and> length (m_hooks self) = TEST_HOOK_MAX"

lemma hooks_hold_init: "hooks_hold hooks_init (replicate TEST_HOOK_MAX [])"
  unfolding hooks_hold_def hooks_init_def by (simp only: hook_store.simps rings_empty length_replicate)

lemma hooks_hold_length: "hooks_hold self xss \<Longrightarrow> length xss = TEST_HOOK_MAX"
  unfolding hooks_hold_def using ring_lists.rep_length by metis

lemma register_one_hold:
  assumes "hooks_hold self xss" and "i < TEST_HOOK_MAX"
  shows "\<exists>self'. register_one self i f ud = Inr self' \<and>
           hooks_hold self' (xss[i := xss ! i @ [\<lparr>he_hook = f, he_user_data = ud\<rparr>]])"
  using ring_lists.rep_app [of "hk_heap self" "m_hooks self" xss i "\<lparr>he_hook = f, he_user_data = ud\<rparr>"]
    assms by (auto simp: hooks_hold_def register_one_def guard_res_def)

lemma run_hooks_hold:
  assumes "hooks_hold self xss" and "i < TEST_HOOK_MAX"
  shows "test_run_hooks call self i e = loop_list (hook_body call) (xss ! i) e"
  using ring_lists.rep_pass [of "hk_heap self" "m_hooks self" xss i "hook_body call" e] assms
  by (simp add: hooks_hold_def test_run_hooks_def guard_res_def)

lemma register_range:
  assumes "hooks_hold self xss" and "n \<le> TEST_HOOK_MAX"
  shows "\<exists>self'. fold_res (\<lambda>i self. register_one self i f ud) [0..<n] self = Inr self' \<and>
           hooks_hold self'
             (map (\<lambda>xs. xs @ [\<lparr>he_hook = f, he_user_data = ud\<rparr>]) (take n xss) @ drop n xss)"
  using assms(2)
proof (induction n)
  case 0
  then show ?case using assms(1) by simp
next
  case (Suc n)
  let ?e = "\<lparr>he_hook = f, he_user_data = ud\<rparr>"
  let ?app = "\<lambda>n. map (\<lambda>xs. xs @ [?e]) (take n xss) @ drop n xss"
  obtain s where s: "fold_res (\<lambda>i self. register_one self i f ud) [0..<n] self = Inr s"
      "hooks_hold s (?app n)"
    using Suc by auto
  have n: "n < length xss" using Suc.prems hooks_hold_length [OF assms(1)] by simp
  obtain s' where s': "register_one s n f ud = Inr s'"
      "hooks_hold s' ((?app n)[n := ?app n ! n @ [?e]])"
    using register_one_hold [OF s(2), of n f ud] Suc.prems by auto
  have "(?app n)[n := ?app n ! n @ [?e]] = ?app (Suc n)"
    using n by (simp add: list_update_append nth_append take_Suc_conv_app_nth
        flip: Cons_nth_drop_Suc)
  then show ?case using s s' by (simp add: fold_res_append)
qed

section \<open>Unregistering ends\<close>

text \<open>
  Every round of the loop either moves the iterator towards the end of the ring or
  removes a node; after a removal the iterator may be anywhere in the smaller ring.
\<close>

lemma clist_iter_next_at:
  assumes r: "ring h p as xs" and i: "i < length xs"
  shows "clist_iter_next h \<lparr>it_start = p, it_act = as ! i\<rparr> =
           Some (if Suc i < length xs then (True, \<lparr>it_start = p, it_act = as ! Suc i\<rparr>)
                 else (False, \<lparr>it_start = p, it_act = NULL\<rparr>))"
proof -
  have l: "length as = length xs" using ring_length [OF r] .
  have pos: "0 < length xs" using i by linarith
  then have "as \<noteq> []" using l by auto
  then have p: "p = as ! 0" "p \<noteq> NULL" using ring_head [OF r] by auto
  have "Suc i < length xs \<Longrightarrow> as ! Suc i \<noteq> p"
    using ring_index_eq [OF r _ pos, of "Suc i"] p by auto
  then show ?thesis
    using ring_next [OF r i] ring_nonNULL [OF r i] p i l
    by (auto simp: clist_iter_next_def clist_iter_set_step_def next_ix_def)
qed

lemma unregister_loop_from:
  assumes "ring h p as xs" and "i < length xs"
  shows "\<exists>h' freed' p' as' xs'.
           unregister_hooks_loop h \<lparr>it_start = p, it_act = as ! i\<rparr> f ud freed = Some (h', freed') \<and>
           ring h' p' as' xs' \<and> set as' \<subseteq> set as \<and> (heap_ok h \<longrightarrow> heap_ok h') \<and>
           same_outside h h' (set as)"
  using assms
proof (induction "length xs" arbitrary: h p as xs i freed rule: less_induct)
  case less
  note outer = less.hyps
  show ?case using less.prems
  proof (induction "length xs - i" arbitrary: i freed)
    case 0
    then show ?case by simp
  next
    case (Suc d)
    note r = \<open>ring h p as xs\<close> and i = \<open>i < length xs\<close>
    have l: "length as = length xs" using ring_length [OF r] .
    have "as \<noteq> []" using l i by auto
    then have head: "p \<noteq> NULL" using ring_head [OF r] by simp
    show ?case
    proof (cases "Suc i < length xs")
      case False
      then have "unregister_hooks_loop h \<lparr>it_start = p, it_act = as ! i\<rparr> f ud freed = Some (h, freed)"
        by (subst unregister_hooks_loop.simps) (simp add: clist_iter_next_at [OF r i])
      then show ?thesis using r by (intro exI conjI) auto
    next
      case True
      define a x where "a = as ! Suc i" and "x = xs ! Suc i"
      have data: "clist_iter_data h \<lparr>it_start = p, it_act = a\<rparr> = Some x"
        using ring_data [OF r True] ring_nonNULL [OF r True] head
        by (auto simp: clist_iter_data_def clist_iter_valid_def a_def x_def)
      show ?thesis
      proof (cases "he_hook x = Some f \<and> (ud = NULL \<or> he_user_data x = ud)")
        case False
        have step: "unregister_hooks_loop h \<lparr>it_start = p, it_act = as ! i\<rparr> f ud freed =
            unregister_hooks_loop h \<lparr>it_start = p, it_act = as ! Suc i\<rparr> f ud freed"
          by (subst unregister_hooks_loop.simps)
             (use True False data in \<open>auto simp: clist_iter_next_at [OF r i] a_def\<close>)
        have "d = length xs - Suc i" using Suc.hyps(2) by simp
        from Suc.hyps(1) [OF this r True, of freed] show ?thesis unfolding step .
      next
        case match: True
        have split: "as = take (Suc i) as @ a # drop (Suc (Suc i)) as"
            "xs = take (Suc i) xs @ x # drop (Suc (Suc i)) xs"
          using True l by (simp_all add: a_def x_def id_take_nth_drop)
        define q p' where
          "q = (if take (Suc i) as @ drop (Suc (Suc i)) as = [] then NULL
                else hd (drop (Suc (Suc i)) as @ take (Suc i) as))"
          and "p' = (if take (Suc i) as = [] then q else p)"
        obtain h1 where h1: "clist_iter_remove h \<lparr>it_start = p, it_act = a\<rparr>
              (Some (\<lambda>e s. s @ [e])) freed = Some (h1, \<lparr>it_start = p', it_act = q\<rparr>, freed @ [x])"
            "ring h1 p' (take (Suc i) as @ drop (Suc (Suc i)) as)
               (take (Suc i) xs @ drop (Suc (Suc i)) xs)"
            "heap_ok h \<longrightarrow> heap_ok h1" "same_outside h h1 (set as)"
          using clist_iter_remove_ring [of h p "take (Suc i) as" a "drop (Suc (Suc i)) as"
              "take (Suc i) xs" x "drop (Suc (Suc i)) xs" "Some (\<lambda>e s. s @ [e])" freed] r l
          unfolding split [symmetric] p'_def q_def by (auto simp: call_destroy_def)
        define as1 xs1 where "as1 = take (Suc i) as @ drop (Suc (Suc i)) as"
          and "xs1 = take (Suc i) xs @ drop (Suc (Suc i)) xs"
        have r1: "ring h1 p' as1 xs1" using h1(2) by (simp add: as1_def xs1_def)
        have sub: "set as1 \<subseteq> set as"
          by (auto simp: as1_def dest: in_set_takeD in_set_dropD)
        have small: "length xs1 < length xs" using True by (simp add: xs1_def)
        have ne: "as1 \<noteq> []" using i l by (auto simp: as1_def)
        have "q \<in> set as1"
          using ne unfolding q_def as1_def by (metis hd_in_set set_append sup_commute Nil_is_append_conv)
        then obtain k where k: "k < length xs1" "q = as1 ! k"
          using ring_length [OF r1] by (metis in_set_conv_nth)
        have step: "unregister_hooks_loop h \<lparr>it_start = p, it_act = as ! i\<rparr> f ud freed =
            unregister_hooks_loop h1 \<lparr>it_start = p', it_act = as1 ! k\<rparr> f ud (freed @ [x])"
          by (subst unregister_hooks_loop.simps)
             (use True match data h1(1) k(2) in \<open>simp add: clist_iter_next_at [OF r i] a_def\<close>)
        obtain h' freed' p2 as2 xs2 where fin:
            "unregister_hooks_loop h1 \<lparr>it_start = p', it_act = as1 ! k\<rparr> f ud (freed @ [x]) = Some (h', freed')"
            "ring h' p2 as2 xs2" "set as2 \<subseteq> set as1" "heap_ok h1 \<longrightarrow> heap_ok h'"
            "same_outside h1 h' (set as1)"
          using outer [OF small r1 k(1), of "freed @ [x]"] by blast
        have "same_outside h h' (set as)"
          using h1(4) fin(5) sub by (auto simp: same_outside_def)
        then show ?thesis
          using fin h1(3) sub unfolding step by (intro exI [of _ h'] exI [of _ freed']) blast
      qed
    qed
  qed
qed

lemma unregister_loop_ring:
  assumes "ring h p as xs"
  shows "\<exists>h' freed' p' as' xs'.
           unregister_hooks_loop h (clist_iter_new p) f ud freed = Some (h', freed') \<and>
           ring h' p' as' xs' \<and> set as' \<subseteq> set as \<and> (heap_ok h \<longrightarrow> heap_ok h') \<and>
           same_outside h h' (set as)"
proof (cases "as = []")
  case True
  then have "p = NULL" using assms by simp
  then have "unregister_hooks_loop h (clist_iter_new p) f ud freed = Some (h, freed)"
    by (subst unregister_hooks_loop.simps)
       (simp add: clist_iter_next_def clist_iter_set_step_def clist_iter_new_def)
  then show ?thesis using assms by (intro exI conjI) auto
next
  case False
  have l: "length as = length xs" using ring_length [OF assms] .
  have pos: "0 < length xs" using False l by auto
  have head: "p = as ! 0" "p \<noteq> NULL" using ring_head [OF assms False] by auto
  define x where "x = xs ! 0"
  have first: "clist_iter_next h (clist_iter_new p) = Some (True, \<lparr>it_start = p, it_act = as ! 0\<rparr>)"
    using head by (simp add: clist_iter_next_def clist_iter_set_step_def clist_iter_new_def)
  have data: "clist_iter_data h \<lparr>it_start = p, it_act = as ! 0\<rparr> = Some x"
    using ring_data [OF assms pos] head by (auto simp: clist_iter_data_def clist_iter_valid_def x_def)
  show ?thesis
  proof (cases "he_hook x = Some f \<and> (ud = NULL \<or> he_user_data x = ud)")
    case False
    have step: "unregister_hooks_loop h (clist_iter_new p) f ud freed =
        unregister_hooks_loop h \<lparr>it_start = p, it_act = as ! 0\<rparr> f ud freed"
      by (subst unregister_hooks_loop.simps) (use False first data in \<open>auto\<close>)
    show ?thesis unfolding step by (rule unregister_loop_from [OF assms pos])
  next
    case match: True
    obtain a as1 xs1 where split: "as = a # as1" "xs = x # xs1"
      using False l by (cases as; cases xs) (auto simp: x_def)
    have pa: "as ! 0 = a" using split by simp
    define q where "q = (if as1 = [] then NULL else hd as1)"
    obtain h1 where h1: "clist_iter_remove h \<lparr>it_start = p, it_act = a\<rparr>
          (Some (\<lambda>e s. s @ [e])) freed = Some (h1, \<lparr>it_start = q, it_act = q\<rparr>, freed @ [x])"
        "ring h1 q as1 xs1" "heap_ok h \<longrightarrow> heap_ok h1" "same_outside h h1 (set as)"
      using clist_iter_remove_ring [of h p "[]" a as1 "[]" x xs1 "Some (\<lambda>e s. s @ [e])" freed] assms
      unfolding q_def split by (auto simp: call_destroy_def cong: if_cong)
    have step: "unregister_hooks_loop h (clist_iter_new p) f ud freed =
        unregister_hooks_loop h1 \<lparr>it_start = q, it_act = q\<rparr> f ud (freed @ [x])"
      by (subst unregister_hooks_loop.simps) (use match first data h1(1) in \<open>simp add: pa\<close>)
    show ?thesis
    proof (cases "as1 = []")
      case True
      then have "unregister_hooks_loop h1 \<lparr>it_start = q, it_act = q\<rparr> f ud (freed @ [x]) =
          Some (h1, freed @ [x])"
        by (subst unregister_hooks_loop.simps)
           (simp add: clist_iter_next_def clist_iter_set_step_def q_def)
      then show ?thesis using h1 True unfolding step
        by (intro exI [of _ h1] exI [of _ "freed @ [x]"] exI [of _ q] exI [of _ as1] exI [of _ xs1])
           (auto simp: split)
    next
      case False
      have q: "q = as1 ! 0" "0 < length xs1"
        using False ring_length [OF h1(2)] by (auto simp: q_def hd_conv_nth)
      obtain h' freed' p2 as2 xs2 where fin:
          "unregister_hooks_loop h1 \<lparr>it_start = q, it_act = as1 ! 0\<rparr> f ud (freed @ [x]) = Some (h', freed')"
          "ring h' p2 as2 xs2" "set as2 \<subseteq> set as1" "heap_ok h1 \<longrightarrow> heap_ok h'"
          "same_outside h1 h' (set as1)"
        using unregister_loop_from [OF h1(2) q(2), of f ud "freed @ [x]"] by blast
      have "same_outside h h' (set as)"
        using h1(4) fin(5) by (auto simp: same_outside_def split)
      then show ?thesis using fin h1(3) q(1) unfolding step
        by (intro exI [of _ h'] exI [of _ freed'] exI [of _ p2] exI [of _ as2] exI [of _ xs2])
           (auto simp: split)
    qed
  qed
qed

text \<open>Changing only the cells of one ring, and then forgetting it, keeps the family.\<close>

lemma rings_forget:
  assumes fam: "rings h ps xss" and i: "i < length ps"
    and old: "\<And>as. ring h (ps ! i) as (xss ! i) \<Longrightarrow> same_outside h h' (set as)"
    and ok: "heap_ok h'"
  shows "rings h' (ps[i := NULL]) (xss[i := []])"
proof (rule rings_update [OF fam i _ ok])
  fix as assume "ring h (ps ! i) as (xss ! i)"
  from old [OF this] show "\<exists>bs. ring h' NULL bs [] \<and>
      same_outside h h' (insert (brk h) (set as)) \<and> set bs \<subseteq> insert (brk h) (set as)"
    by (intro exI [of _ "[]"]) (auto simp: same_outside_def)
qed

lemma unregister_one_hold:
  assumes hold: "hooks_hold self xss" and i: "i < TEST_HOOK_MAX"
  shows "\<exists>self'. unregister_one self i f ud = Inr self' \<and> hooks_hold self' (xss[i := []])"
proof -
  let ?h = "hk_heap self" and ?p = "m_hooks self ! i"
  have len: "i < length (m_hooks self)" and fam: "rings ?h (m_hooks self) xss"
    using hold i by (auto simp: hooks_hold_def)
  obtain as where r: "ring ?h ?p as (xss ! i)" and ok: "heap_ok ?h"
    using ringsE [OF fam] len by metis
  have uniq: "bs = as" if "ring ?h ?p bs (xss ! i)" for bs
    using ring_unique [OF that r] .
  show ?thesis
  proof (cases f)
    case None
    define g where "g = (Some (\<lambda>e s. s @ [e]) :: ('a hook_entry \<Rightarrow> 'a hook_entry list \<Rightarrow> _) option)"
    obtain h' freed where d: "clist_destroy ?h ?p g [] = Some (h', freed)" "heap_ok h'"
        "same_outside ?h h' (set as)"
    proof (cases as)
      case Nil
      then show thesis using r ok by (intro that [of ?h "[]"]) (auto simp: clist_destroy_def)
    next
      case (Cons a as')
      then obtain x xs' where x: "xss ! i = x # xs'"
        using ring_length [OF r] by (cases "xss ! i") auto
      show thesis
        using clist_destroy_ring [of ?h ?p a as' x xs' g "[]"] r ok
        by (intro that [of "?h\<lparr>cells := (cells ?h)(a := None)\<rparr>"])
           (auto simp: Cons x heap_ok_def same_outside_def split: if_splits)
    qed
    have "rings h' ((m_hooks self)[i := NULL]) (xss[i := []])"
      using rings_forget [OF fam len _ d(2)] d(3) uniq by blast
    then show ?thesis using d(1) hold i
      by (simp add: unregister_one_def None hooks_hold_def guard_res_def g_def)
  next
    case (Some k)
    obtain h' freed' where d:
        "unregister_hooks_loop ?h (clist_iter_new ?p) k ud [] = Some (h', freed')"
        "heap_ok h'" "same_outside ?h h' (set as)"
      using unregister_loop_ring [OF r, of k ud "[]"] ok by blast
    have "rings h' ((m_hooks self)[i := NULL]) (xss[i := []])"
      using rings_forget [OF fam len _ d(2)] d(3) uniq by blast
    then show ?thesis using d(1) hold i
      by (simp add: unregister_one_def Some hooks_hold_def guard_res_def)
  qed
qed

lemma unregister_range:
  assumes "hooks_hold self xss" and "n \<le> TEST_HOOK_MAX"
  shows "\<exists>self'. fold_res (\<lambda>i self. unregister_one self i None NULL) [0..<n] self = Inr self' \<and>
           hooks_hold self' (replicate n [] @ drop n xss)"
  using assms(2)
proof (induction n)
  case 0
  then show ?case using assms(1) by simp
next
  case (Suc n)
  obtain s where s: "fold_res (\<lambda>i self. unregister_one self i None NULL) [0..<n] self = Inr s"
      "hooks_hold s (replicate n [] @ drop n xss)"
    using Suc by auto
  have n: "n < length xss" using Suc.prems hooks_hold_length [OF assms(1)] by simp
  obtain s' where s': "unregister_one s n None NULL = Inr s'"
      "hooks_hold s' ((replicate n [] @ drop n xss)[n := []])"
    using unregister_one_hold [OF s(2), of n None NULL] Suc.prems by auto
  have "(replicate n [] @ drop n xss)[n := []] = replicate (Suc n) [] @ drop (Suc n) xss"
    using n by (simp add: list_update_append replicate_append_same flip: Cons_nth_drop_Suc)
  then show ?case using s s' by (simp add: fold_res_append)
qed

text \<open>The identifiers a call of register or unregister is about.\<close>

definition covers :: "nat \<Rightarrow> nat \<Rightarrow> bool" where
  "covers hook_id j \<longleftrightarrow> hook_id = j \<or> hook_id = TEST_HOOK_ALL"

definition hook_id_ok :: "nat \<Rightarrow> bool" where
  "hook_id_ok hook_id \<longleftrightarrow> hook_id < TEST_HOOK_MAX \<or> hook_id = TEST_HOOK_ALL"

lemma register_hold:
  assumes hold: "hooks_hold self xss" and id: "hook_id_ok hook_id"
  shows "\<exists>self' yss. test_register_hook self hook_id f ud = Inr self' \<and> hooks_hold self' yss \<and>
           (\<forall>j < TEST_HOOK_MAX. yss ! j = xss ! j @
              (if covers hook_id j then [\<lparr>he_hook = f, he_user_data = ud\<rparr>] else []))"
proof (cases "hook_id = TEST_HOOK_ALL")
  case True
  obtain s where "fold_res (\<lambda>i self. register_one self i f ud) [0..<TEST_HOOK_MAX] self = Inr s"
      "hooks_hold s (map (\<lambda>xs. xs @ [\<lparr>he_hook = f, he_user_data = ud\<rparr>]) (take TEST_HOOK_MAX xss) @
         drop TEST_HOOK_MAX xss)"
    using register_range [OF hold, of TEST_HOOK_MAX f ud] by blast
  then show ?thesis using True hooks_hold_length [OF hold]
    by (auto simp: test_register_hook_def covers_def simp del: upt_conv_Cons)
next
  case False
  then have "hook_id < TEST_HOOK_MAX" using id by (simp add: hook_id_ok_def)
  from register_one_hold [OF hold this, of f ud] False show ?thesis
    using hooks_hold_length [OF hold]
    by (fastforce simp: test_register_hook_def covers_def nth_list_update)
qed

lemma unregister_hold:
  assumes hold: "hooks_hold self xss" and id: "hook_id_ok hook_id"
  shows "\<exists>self' yss. test_unregister_hook self hook_id f ud = Inr self' \<and> hooks_hold self' yss \<and>
           (\<forall>j < TEST_HOOK_MAX. yss ! j = (if covers hook_id j then [] else xss ! j))"
proof (cases "hook_id = TEST_HOOK_ALL")
  case True
  obtain s where "fold_res (\<lambda>i self. unregister_one self i None NULL) [0..<TEST_HOOK_MAX] self = Inr s"
      "hooks_hold s (replicate TEST_HOOK_MAX [] @ drop TEST_HOOK_MAX xss)"
    using unregister_range [OF hold, of TEST_HOOK_MAX] by blast
  then show ?thesis using True hooks_hold_length [OF hold]
    by (intro exI [of _ s] exI [of _ "replicate TEST_HOOK_MAX []"])
       (simp add: test_unregister_hook_def covers_def)
next
  case False
  then have "hook_id < TEST_HOOK_MAX" using id by (simp add: hook_id_ok_def)
  from unregister_one_hold [OF hold this, of f ud] False show ?thesis
    using hooks_hold_length [OF hold]
    by (fastforce simp: test_unregister_hook_def covers_def nth_list_update)
qed

text \<open>The stores a program can build from an initialised context.\<close>

inductive hook_reach :: "'k hook_store \<Rightarrow> bool" where
  hreach_init: "hook_reach hooks_init"
| hreach_register: "hook_reach self \<Longrightarrow> test_register_hook self hid f ud = Inr self' \<Longrightarrow> hook_reach self'"
| hreach_unregister: "hook_reach self \<Longrightarrow> test_unregister_hook self hid f ud = Inr self' \<Longrightarrow> hook_reach self'"

lemma register_ok_id: "test_register_hook self hid f ud = Inr self' \<Longrightarrow> hook_id_ok hid"
  by (auto simp: test_register_hook_def register_one_def hook_id_ok_def res_simps split: if_splits)

lemma unregister_ok_id: "test_unregister_hook self hid f ud = Inr self' \<Longrightarrow> hook_id_ok hid"
  by (auto simp: test_unregister_hook_def unregister_one_def hook_id_ok_def res_simps split: if_splits)

lemma hook_reach_hold: "hook_reach self \<Longrightarrow> \<exists>xss. hooks_hold self xss"
proof (induction rule: hook_reach.induct)
  case hreach_init
  then show ?case using hooks_hold_init by blast
next
  case (hreach_register self hid f ud self')
  then obtain xss where "hooks_hold self xss" by blast
  from register_hold [OF this register_ok_id [OF hreach_register(2)], of f ud] hreach_register(2)
  show ?case by auto
next
  case (hreach_unregister self hid f ud self')
  then obtain xss where "hooks_hold self xss" by blast
  from unregister_hold [OF this unregister_ok_id [OF hreach_unregister(2)], of f ud] hreach_unregister(2)
  show ?case by auto
qed

section \<open>Properties\<close>

text \<open>A registered hook runs after all hooks registered before it, with its own user
  data, at its identifier only (at every identifier for \<open>TEST_HOOK_ALL\<close>); the other
  lists are untouched, and entries without a function are skipped.\<close>

theorem hooks_run_in_order:
  assumes "hooks_hold self xss" and "hook_id_ok hook_id"
  shows "\<exists>self'. test_register_hook self hook_id f ud = Inr self' \<and>
           (\<forall>call e. \<forall>j < TEST_HOOK_MAX. test_run_hooks call self' j e =
              loop_list (hook_body call)
                (xss ! j @ (if covers hook_id j then [\<lparr>he_hook = f, he_user_data = ud\<rparr>] else [])) e)"
  using register_hold [OF assms, of f ud] run_hooks_hold by metis

text \<open>Unregistering one hook always ends, but it empties the whole list of that
  identifier: hooks of other functions and other users no longer run, not only the one
  named in the call.\<close>

theorem unregister_drops_all:
  assumes "hooks_hold self xss" and "hook_id_ok hook_id"
  shows "\<exists>self'. test_unregister_hook self hook_id f ud = Inr self' \<and>
           (\<forall>call e. \<forall>j < TEST_HOOK_MAX. test_run_hooks call self' j e =
              (if covers hook_id j then Inr e else loop_list (hook_body call) (xss ! j) e))"
proof -
  obtain s yss where s: "test_unregister_hook self hook_id f ud = Inr s" "hooks_hold s yss"
      "\<forall>j < TEST_HOOK_MAX. yss ! j = (if covers hook_id j then [] else xss ! j)"
    using unregister_hold [OF assms, of f ud] by blast
  have "test_run_hooks call s j e =
      (if covers hook_id j then Inr e else loop_list (hook_body call) (xss ! j) e)"
    if "j < TEST_HOOK_MAX" for call :: "'a \<Rightarrow> ptr \<Rightarrow> 'b \<Rightarrow> 'b res" and j e
    using run_hooks_hold [OF s(2) that, of call e] s(3) that by simp
  then show ?thesis using s(1) by blast
qed

text \<open>C20: Whatever hooks a program registers and unregisters, running the hooks of an
  identifier never touches a dangling node and always ends: it is a pass over a fixed list
  of entries, stopped only by a hook that stops the program; an identifier out of range is
  caught by the assertion.\<close>

theorem hooks_never_wild:
  assumes "hook_reach self"
  shows "\<exists>xss. \<forall>call e. \<forall>j. test_run_hooks call self j e =
           (if j < TEST_HOOK_MAX then loop_list (hook_body call) (xss ! j) e else Inl AssertAbort)"
proof -
  obtain xss where "hooks_hold self xss" using hook_reach_hold [OF assms] by blast
  then have "test_run_hooks call self j e =
      (if j < TEST_HOOK_MAX then loop_list (hook_body call) (xss ! j) e else Inl AssertAbort)"
    for call :: "'a \<Rightarrow> ptr \<Rightarrow> 'b \<Rightarrow> 'b res" and j e
    using run_hooks_hold [of self xss j call e] by (simp add: test_run_hooks_def guard_res_def)
  then show ?thesis by blast
qed

text \<open>Witnesses: hooks that record their number.\<close>

definition note_hook :: "nat \<Rightarrow> ptr \<Rightarrow> nat list \<Rightarrow> nat list res" where
  "note_hook k ud e = Inr (e @ [k])"

lemma hooks_run_in_order_witness:
  "\<exists>s. test_register_hook hooks_init TEST_HOOK_ALL (Some 4) NULL = Inr s \<and>
     test_run_hooks note_hook s TEST_HOOK_ASSERT [] = Inr [4]"
proof -
  have "hook_id_ok TEST_HOOK_ALL" by (simp add: hook_id_ok_def)
  from hooks_run_in_order [OF hooks_hold_init this, of "Some (4::nat)" NULL]
  obtain s where s: "test_register_hook hooks_init TEST_HOOK_ALL (Some (4::nat)) NULL = Inr s"
      "\<forall>(call :: nat \<Rightarrow> ptr \<Rightarrow> nat list \<Rightarrow> nat list res) e. \<forall>j < TEST_HOOK_MAX.
         test_run_hooks call s j e = loop_list (hook_body call) (replicate TEST_HOOK_MAX [] ! j @
           (if covers TEST_HOOK_ALL j then [\<lparr>he_hook = Some 4, he_user_data = NULL\<rparr>] else [])) e"
    by metis
  show ?thesis
    using s(1) s(2) [rule_format, of TEST_HOOK_ASSERT note_hook "[]"]
    by (simp add: covers_def hook_body_def note_hook_def)
qed

lemma unregister_drops_all_witness:
  "\<exists>s s'. test_register_hook hooks_init 3 (Some 4) NULL = Inr s \<and>
     test_unregister_hook s 3 (Some (99::nat)) NULL = Inr s' \<and>
     test_run_hooks note_hook s' 3 [] = Inr []"
proof -
  have hid: "hook_id_ok 3" by (simp add: hook_id_ok_def)
  obtain s yss where s: "test_register_hook hooks_init 3 (Some (4::nat)) NULL = Inr s" "hooks_hold s yss"
    using register_hold [OF hooks_hold_init hid, of "Some 4" NULL] by blast
  from unregister_drops_all [OF s(2) hid, of "Some 99" NULL]
  obtain s' where s': "test_unregister_hook s 3 (Some 99) NULL = Inr s'"
      "\<forall>(call :: nat \<Rightarrow> ptr \<Rightarrow> nat list \<Rightarrow> nat list res) e. \<forall>j < TEST_HOOK_MAX.
         test_run_hooks call s' j e =
           (if covers 3 j then Inr e else loop_list (hook_body call) (yss ! j) e)"
    by metis
  show ?thesis
    using s(1) s'(1) s'(2) [rule_format, of 3 note_hook "[]"] by (auto simp: covers_def)
qed

lemma hooks_never_wild_witness:
  "\<exists>xs. test_run_hooks note_hook hooks_init TEST_HOOK_MAX [] = Inl AssertAbort \<and>
     test_run_hooks note_hook hooks_init 2 [] = loop_list (hook_body note_hook) xs []"
proof -
  obtain xss where "\<forall>j. test_run_hooks note_hook hooks_init j [] =
      (if j < TEST_HOOK_MAX then loop_list (hook_body note_hook) (xss ! j) [] else Inl AssertAbort)"
    using hooks_never_wild [OF hreach_init] by meson
  from this [THEN spec, of TEST_HOOK_MAX] this [THEN spec, of 2] show ?thesis by auto
qed

end
