(* ===== verification/TestRun.thy ===== *)
theory TestRun
  imports Leakwatch TestHooks
begin

text \<open>
  The core of \<open>lib/test.c\<close>, \<open>lib/tinu/test.h\<close>: test contexts, registration of tests,
  assertions, signals, and the running of tests, suites and whole contexts. Hooks, logging
  and leak watching are those of their theories. The user's functions are codes \<open>'f\<close>; what
  one does is a list of actions (assertions, log messages, memory events, a fatal signal)
  and a returned pointer. Leaving a test through \<open>setcontext\<close> is the result \<open>None\<close>.
\<close>

section \<open>Results and names\<close>

datatype test_result =
    TEST_NONE | TEST_PASSED | TEST_FAILED | TEST_ABORT | TEST_SEGFAULT | TEST_INTERNAL

fun result_code :: "test_result \<Rightarrow> int" where
  "result_code TEST_NONE = -1"
| "result_code TEST_PASSED = 0"
| "result_code TEST_FAILED = 1"
| "result_code TEST_ABORT = 2"
| "result_code TEST_SEGFAULT = 3"
| "result_code TEST_INTERNAL = 4"

definition TestCaseResult_names :: name_table where
  "TestCaseResult_names =
     [name_entry (-1) ''none'' 4, name_entry 0 ''passed'' 6, name_entry 1 ''failed'' 6,
      name_entry 2 ''abort'' 5, name_entry 3 ''segfault'' 8, name_entry 4 ''internal'' 8,
      terminator]"

definition TestHookID_names :: name_table where
  "TestHookID_names =
     [name_entry 0 ''TEST_HOOK_ASSERT'' 16, name_entry 1 ''TEST_HOOK_SIGNAL_ABORT'' 22,
      name_entry 2 ''TEST_HOOK_SIGNAL_SEGFAULT'' 25, name_entry 3 ''TEST_HOOK_BEFORE_TEST'' 21,
      name_entry 4 ''TEST_HOOK_AFTER_TEST'' 20, name_entry 5 ''TEST_HOOK_BEFORE_SUITE'' 22,
      name_entry 6 ''TEST_HOOK_AFTER_SUITE'' 21, name_entry 8 ''TEST_HOOK_MAX'' 13,
      name_entry 65535 ''TEST_HOOK_ALL'' 13, terminator]"

definition test_result_name :: "test_result \<Rightarrow> name_ptr res" where
  "test_result_name result =
     bindr (guard_res AssertAbort (result_code result > -1 \<and> result_code result \<le> 4)) (\<lambda>_.
     bindr (tinu_lookup_key TestCaseResult_names (result_code result) False) (\<lambda>(name, _). Inr name))"

section \<open>Tests, suites, contexts\<close>

text \<open>
  A test function is one of the user's, or one of the wrappers of \<open>test.c\<close>, which find
  the simplified functions in the test's user data.
\<close>

datatype 'f test_fn = Wrapper | Ext 'f

record 'f simplified =
  sf_setup :: "'f option"
  sf_cleanup :: "'f option"
  sf_function :: "'f option"

datatype 'f user_data = Simplified "'f simplified" | Opaque ptr

record 'f test_case =
  tc_suite :: string                       \<comment> \<open>\<open>m_suite->m_name\<close>\<close>
  tc_name :: string
  tc_setup :: "'f test_fn option"
  tc_cleanup :: "'f test_fn option"
  tc_test :: "'f test_fn option"
  tc_user_data :: "'f user_data"
  tc_user_data_cleanup :: "'f option"

record 'f test_suite =
  su_name :: string
  su_tests :: "'f test_case list"

record ('f, 'k) test_context =
  m_suites :: "'f test_suite list"
  m_sighandle :: bool
  m_leakwatch :: bool
  m_core_dir :: "string option"
  tx_hooks :: "'k hook_store"

text \<open>What a hook is told, besides its identifier and the context.\<close>

datatype 'f hook_event =
    Ev_assert bool string string "32 word"
  | Ev_signal_abort
  | Ev_signal_segfault
  | Ev_before_test "'f test_case"
  | Ev_after_test "'f test_case" test_result
  | Ev_before_suite "'f test_suite"
  | Ev_after_suite "'f test_suite" bool
  | Ev_leakinfo "'f test_case" "64 word"

fun hook_event_id :: "'f hook_event \<Rightarrow> nat" where
  "hook_event_id (Ev_assert _ _ _ _) = TEST_HOOK_ASSERT"
| "hook_event_id Ev_signal_abort = TEST_HOOK_SIGNAL_ABORT"
| "hook_event_id Ev_signal_segfault = TEST_HOOK_SIGNAL_SEGFAULT"
| "hook_event_id (Ev_before_test _) = TEST_HOOK_BEFORE_TEST"
| "hook_event_id (Ev_after_test _ _) = TEST_HOOK_AFTER_TEST"
| "hook_event_id (Ev_before_suite _) = TEST_HOOK_BEFORE_SUITE"
| "hook_event_id (Ev_after_suite _ _) = TEST_HOOK_AFTER_SUITE"
| "hook_event_id (Ev_leakinfo _ _) = TEST_HOOK_LEAKINFO"

section \<open>The running program\<close>

text \<open>One action of a user function.\<close>

datatype user_act =
    UAssert bool string string string string "32 word" "msg_tag list"
      \<comment> \<open>condition, type, text, file, function, line, further tags\<close>
  | ULog int string "msg_tag list"
  | UMem mem_event
  | UAbort
  | USegv

datatype sig_disp = SIG_DFL | SIG_OURS | SIG_OTHER nat

text \<open>
  The surroundings: the logger, the hook functions, the user's functions, what resolves
  frames, what glibc's \<open>backtrace\<close>, \<open>getcontext\<close> and \<open>swapcontext\<close> answer, the text of
  \<open>errno\<close>, and whether core dumps are compiled in.
\<close>

record ('f, 'k, 'e) run_params =
  rp_log :: "'e logger"
  rp_hook :: "'k \<Rightarrow> 'f hook_event \<Rightarrow> ptr \<Rightarrow> 'e \<Rightarrow> 'e res"
  rp_prog :: "'f \<Rightarrow> ptr \<Rightarrow> user_act list \<times> ptr"
  rp_symbols :: symbols
  rp_frames :: "gptr list option"
  rp_getcontext :: bool
  rp_swapcontext :: bool
  rp_errno :: "32 word \<times> string"
  rp_coredumper :: bool

text \<open>
  The state: the environment of hooks and handlers, the globals
  \<open>g_test_case_current_result\<close> and \<open>g_test_case_current\<close>, the installed and the saved
  signal handlers (a \<open>NULL\<close> handler is \<open>SIG_DFL\<close>), leak watching, the stacks allocated
  and not freed, and the core files written.
\<close>

record 'e run_state =
  rs_env :: 'e
  rs_result :: test_result
  rs_case :: "(string \<times> string) option"
  rs_segv :: sig_disp
  rs_abrt :: sig_disp
  rs_saved_segv :: sig_disp
  rs_saved_abrt :: sig_disp
  rs_lw :: lw_state
  rs_tabs :: lw_tables
  rs_traces :: trace_store
  rs_stacks :: nat
  rs_cores :: "string list"

definition run_hooks ::
  "('f, 'k, 'e) run_params \<Rightarrow> ('f, 'k) test_context \<Rightarrow> 'f hook_event \<Rightarrow> 'e run_state
     \<Rightarrow> 'e run_state res" where
  "run_hooks P ctx ev st =
     bindr (test_run_hooks (\<lambda>k. rp_hook P k ev) (tx_hooks ctx) (hook_event_id ev) (rs_env st))
       (\<lambda>e. Inr (st\<lparr>rs_env := e\<rparr>))"

definition log_macro ::
  "('f, 'k, 'e) run_params \<Rightarrow> int \<Rightarrow> string \<Rightarrow> msg_tag res list \<Rightarrow> 'e run_state \<Rightarrow> 'e run_state res" where
  "log_macro P pri txt tags st =
     bindr (lg_macro (rp_log P) pri txt (eval_tags tags) (rs_env st)) (\<lambda>e. Inr (st\<lparr>rs_env := e\<rparr>))"

definition log_plain ::
  "('f, 'k, 'e) run_params \<Rightarrow> int \<Rightarrow> string \<Rightarrow> msg_tag list res \<Rightarrow> 'e run_state \<Rightarrow> 'e run_state res" where
  "log_plain P pri txt tags st =
     bindr tags (\<lambda>tags.
     bindr (lg_format (rp_log P) pri txt tags (rs_env st)) (\<lambda>e. Inr (st\<lparr>rs_env := e\<rparr>)))"

section \<open>Assertions\<close>

definition tinu_test_assert ::
  "('f, 'k, 'e) run_params \<Rightarrow> ('f, 'k) test_context \<Rightarrow> bool \<Rightarrow> string \<Rightarrow> string \<Rightarrow> string \<Rightarrow> string
     \<Rightarrow> 32 word \<Rightarrow> msg_tag list \<Rightarrow> 'e run_state \<Rightarrow> (bool \<times> 'e run_state) res" where
  "tinu_test_assert P ctx condition assert_type condstr file func line vl st =
     bindr (run_hooks P ctx (Ev_assert condition file func line) st) (\<lambda>st.
     let st = (if \<not> condition then st\<lparr>rs_result := TEST_FAILED\<rparr> else st);
         mp = lg_max (rp_log P)
     in bindr
          (if (condition \<and> mp \<ge> LOG_DEBUG) \<or> (\<not> condition \<and> mp \<ge> LOG_ERR) then
             bindr (if condition then msg_create LOG_DEBUG ''Assertion passed'' []
                    else msg_create LOG_ERR ''Assertion failed'' []) (\<lambda>msg.
             bindr (eval_tags [msg_tag_str ''condition'' (Some condstr),
                               msg_tag_str ''type'' (Some assert_type),
                               msg_tag_str ''file'' (Some file),
                               msg_tag_str ''function'' (Some func),
                               msg_tag_int ''line'' line]) (\<lambda>tags.
             bindr (msg_append msg tags) (\<lambda>msg.
             bindr (msg_vappend msg vl) (\<lambda>msg.
             bindr (lg_message (rp_log P) msg (rs_env st)) (\<lambda>e. Inr (st\<lparr>rs_env := e\<rparr>))))))
           else Inr st)
          (\<lambda>st. Inr (condition, st)))"

section \<open>Signals\<close>

text \<open>\<open>core_file_name\<close> (\<open>lib/utils.c\<close>): \<open>snprintf\<close> into 1024 bytes.\<close>

definition core_file_name :: "string option \<Rightarrow> string \<Rightarrow> string \<Rightarrow> string res" where
  "core_file_name dir suite test =
     bindr (vformat ''%s/core.%s.%s'' [PStr dir, pstr suite, pstr test]) (\<lambda>t. Inr (take 1023 t))"

definition signal_handler ::
  "('f, 'k, 'e) run_params \<Rightarrow> ('f, 'k) test_context \<Rightarrow> bool \<Rightarrow> 'e run_state \<Rightarrow> 'e run_state res" where
  "signal_handler P ctx is_abort st =
     (case rs_case st of
        None \<Rightarrow> Inl NullDeref
      | Some (suite, name) \<Rightarrow>
          bindr (if rp_coredumper P
                 then bindr (core_file_name (m_core_dir ctx) suite name) (\<lambda>f.
                        Inr (st\<lparr>rs_cores := rs_cores st @ [f]\<rparr>))
                 else Inr st) (\<lambda>st.
          bindr (backtrace_create (rp_log P) (rp_frames P) 3 (rs_env st)) (\<lambda>(trace, e).
          bindr (log_macro P LOG_ERR ''Signal received while running a test''
                   [msg_tag_int ''signal'' (if is_abort then 6 else 11),
                    msg_tag_str ''suite'' (Some suite), msg_tag_str ''test'' (Some name)]
                   (st\<lparr>rs_env := e\<rparr>)) (\<lambda>st.
          bindr (case trace of
                   None \<Rightarrow> Inl NullDeref
                 | Some b \<Rightarrow>
                     backtrace_dump_log (rp_symbols P) (rp_log P) b ''    '' LOG_ERR (rs_env st)) (\<lambda>e.
          bindr (run_hooks P ctx (if is_abort then Ev_signal_abort else Ev_signal_segfault)
                   (st\<lparr>rs_env := e\<rparr>)) (\<lambda>st.
            Inr (st\<lparr>rs_result := (if is_abort then TEST_ABORT else TEST_SEGFAULT)\<rparr>)))))))"

definition signal_on :: "'e run_state \<Rightarrow> 'e run_state" where
  "signal_on st =
     st\<lparr>rs_saved_segv := rs_segv st, rs_segv := SIG_OURS,
        rs_saved_abrt := rs_abrt st, rs_abrt := SIG_OURS\<rparr>"

definition signal_off :: "'e run_state \<Rightarrow> 'e run_state" where
  "signal_off st = st\<lparr>rs_segv := rs_saved_segv st, rs_abrt := rs_saved_abrt st\<rparr>"

text \<open>
  A fatal signal: our handler leaves the test through \<open>setcontext\<close>; with any other
  disposition the process ends (a handler of the user's own is not followed further).
\<close>

definition raise_signal ::
  "('f, 'k, 'e) run_params \<Rightarrow> ('f, 'k) test_context \<Rightarrow> bool \<Rightarrow> 'e run_state
     \<Rightarrow> ('e run_state \<times> unit option) res" where
  "raise_signal P ctx is_abort st =
     (if (if is_abort then rs_abrt st else rs_segv st) = SIG_OURS
      then bindr (signal_handler P ctx is_abort st) (\<lambda>st. Inr (st, None))
      else Inl (KilledBy (if is_abort then 6 else 11)))"

section \<open>The user's functions\<close>

text \<open>
  A memory event: the hook makes its backtrace with \<open>backtrace_create (4)\<close> when it is
  installed.
\<close>

definition run_mem ::
  "('f, 'k, 'e) run_params \<Rightarrow> mem_event \<Rightarrow> 'e run_state \<Rightarrow> 'e run_state res" where
  "run_mem P ev st =
     (if libc_hooks (rs_lw st) = all_hooks HOwn then
        bindr (backtrace_create (rp_log P) (rp_frames P) 4 (rs_env st)) (\<lambda>(trace, e).
        bindr (mem_step ev trace (rs_lw st, rs_tabs st, rs_traces st)) (\<lambda>(lw, tabs, traces).
          Inr (st\<lparr>rs_env := e, rs_lw := lw, rs_tabs := tabs, rs_traces := traces\<rparr>)))
      else Inr st)"

fun run_acts ::
  "('f, 'k, 'e) run_params \<Rightarrow> ('f, 'k) test_context \<Rightarrow> user_act list \<Rightarrow> 'e run_state
     \<Rightarrow> ('e run_state \<times> unit option) res" where
  "run_acts P ctx [] st = Inr (st, Some ())"
| "run_acts P ctx (a # as) st =
     (case a of
        UAssert c ty txt file func line tags \<Rightarrow>
          bindr (tinu_test_assert P ctx c ty txt file func line tags st) (\<lambda>(_, st).
            run_acts P ctx as st)
      | ULog pri txt tags \<Rightarrow> bindr (log_plain P pri txt (Inr tags) st) (run_acts P ctx as)
      | UMem ev \<Rightarrow> bindr (run_mem P ev st) (run_acts P ctx as)
      | UAbort \<Rightarrow> raise_signal P ctx True st
      | USegv \<Rightarrow> raise_signal P ctx False st)"

text \<open>
  Calling a user function, directly or from the wrapper (\<open>_test_setup_wrapper\<close>,
  \<open>_test_cleanup_wrapper\<close>, \<open>_test_func_wrapper\<close>), which takes it from the user data with
  \<open>sel\<close>; a wrapper on other user data reads function pointers from unrelated memory.
\<close>

definition call_user ::
  "('f, 'k, 'e) run_params \<Rightarrow> ('f, 'k) test_context \<Rightarrow> 'f \<Rightarrow> ptr \<Rightarrow> 'e run_state
     \<Rightarrow> ('e run_state \<times> ptr option) res" where
  "call_user P ctx f arg st =
     (case rp_prog P f arg of
        (acts, r) \<Rightarrow>
          bindr (run_acts P ctx acts st) (\<lambda>(st, fin). Inr (st, map_option (\<lambda>_. r) fin)))"

definition call_test_fn ::
  "('f, 'k, 'e) run_params \<Rightarrow> ('f, 'k) test_context \<Rightarrow> ('f simplified \<Rightarrow> 'f option) \<Rightarrow> 'f test_case
     \<Rightarrow> 'f test_fn \<Rightarrow> ptr \<Rightarrow> 'e run_state \<Rightarrow> ('e run_state \<times> ptr option) res" where
  "call_test_fn P ctx sel test fn arg st =
     (case fn of
        Ext f \<Rightarrow> call_user P ctx f arg st
      | Wrapper \<Rightarrow>
          (case tc_user_data test of
             Opaque _ \<Rightarrow> Inl WildPtr
           | Simplified fs \<Rightarrow>
               (case sel fs of
                  None \<Rightarrow> Inr (st, Some NULL)
                | Some f \<Rightarrow> call_user P ctx f arg st)))"

text \<open>A call through a pointer that may be \<open>NULL\<close>; the result is then \<open>NULL\<close>.\<close>

definition call_opt ::
  "('f, 'k, 'e) run_params \<Rightarrow> ('f, 'k) test_context \<Rightarrow> ('f simplified \<Rightarrow> 'f option) \<Rightarrow> 'f test_case
     \<Rightarrow> 'f test_fn option \<Rightarrow> ptr \<Rightarrow> 'e run_state \<Rightarrow> ('e run_state \<times> ptr option) res" where
  "call_opt P ctx sel test fn arg st =
     (case fn of None \<Rightarrow> Inr (st, Some NULL) | Some f \<Rightarrow> call_test_fn P ctx sel test f arg st)"

section \<open>Running one test\<close>

definition test_case_run_intern ::
  "('f, 'k, 'e) run_params \<Rightarrow> ('f, 'k) test_context \<Rightarrow> 'f test_case \<Rightarrow> 'e run_state
     \<Rightarrow> ('e run_state \<times> unit option) res" where
  "test_case_run_intern P self test st =
     (let st = st\<lparr>rs_case := Some (tc_suite test, tc_name test)\<rparr> in
      bindr (run_hooks P self (Ev_before_test test) st) (\<lambda>st.
      bindr (call_opt P self sf_setup test (tc_setup test) NULL st) (\<lambda>(st, r).
        case r of
          None \<Rightarrow> Inr (st, None)
        | Some ctx \<Rightarrow>
            bindr (call_opt P self sf_function test (tc_test test) ctx st) (\<lambda>(st, r).
              case r of
                None \<Rightarrow> Inr (st, None)
              | Some _ \<Rightarrow>
                  bindr (call_opt P self sf_cleanup test (tc_cleanup test) ctx st) (\<lambda>(st, r).
                    case r of
                      None \<Rightarrow> Inr (st, None)
                    | Some _ \<Rightarrow>
                        Inr (if rs_result st = TEST_NONE then st\<lparr>rs_result := TEST_PASSED\<rparr> else st,
                             Some ()))))))"

definition errno_tags :: "('f, 'k, 'e) run_params \<Rightarrow> msg_tag res list" where
  "errno_tags P = [msg_tag_errno (fst (rp_errno P)) (snd (rp_errno P))]"

text \<open>
  The body of \<open>_test_case_run_single_test\<close> up to the label \<open>test_case_run_done\<close>. After
  \<open>swapcontext\<close> it does not matter whether the test returned or left through
  \<open>setcontext\<close>. Without signal handling a jump would go to a stale context.
\<close>

definition run_in_context ::
  "('f, 'k, 'e) run_params \<Rightarrow> ('f, 'k) test_context \<Rightarrow> 'f test_case \<Rightarrow> 'e run_state
     \<Rightarrow> 'e run_state res" where
  "run_in_context P self test st =
     (let st = st\<lparr>rs_stacks := Suc (rs_stacks st), rs_result := TEST_NONE\<rparr> in
      if m_sighandle self then
        (let st = signal_on st in
         if \<not> rp_getcontext P then
           bindr (log_macro P LOG_ERR ''Cannot get main context'' (errno_tags P) st) (\<lambda>st.
             Inr (st\<lparr>rs_result := TEST_INTERNAL\<rparr>))
         else if \<not> rp_swapcontext P then
           bindr (log_macro P LOG_ERR ''Cannot change context'' (errno_tags P) st) (\<lambda>st.
             Inr (st\<lparr>rs_result := TEST_INTERNAL\<rparr>))
         else
           bindr (test_case_run_intern P self test st) (\<lambda>(st, _).
             Inr (signal_off (st\<lparr>rs_stacks := rs_stacks st - 1\<rparr>))))
      else
        bindr (test_case_run_intern P self test st) (\<lambda>(st, r).
          case r of None \<Rightarrow> Inl WildPtr | Some _ \<Rightarrow> Inr st))"

definition log_result ::
  "('f, 'k, 'e) run_params \<Rightarrow> 'f test_case \<Rightarrow> 'e run_state \<Rightarrow> 'e run_state res" where
  "log_result P test st =
     (let tags = [msg_tag_str ''case'' (Some (tc_name test)), msg_tag_str ''suite'' (Some (tc_suite test))] in
      case rs_result st of
        TEST_PASSED \<Rightarrow> log_macro P LOG_NOTICE ''Test case run successfull'' tags st
      | TEST_FAILED \<Rightarrow> log_macro P LOG_WARNING ''Test case run failed'' tags st
      | TEST_ABORT \<Rightarrow> log_macro P LOG_ERR ''Test case run failed abruptly'' tags st
      | TEST_SEGFAULT \<Rightarrow> log_macro P LOG_ERR ''Test case run produced a segmentation fault'' tags st
      | TEST_INTERNAL \<Rightarrow> log_macro P LOG_CRIT ''Test case run failed due to an internal error'' tags st
      | TEST_NONE \<Rightarrow> Inl AssertAbort)"

text \<open>\<open>tinu_leakwatch_simple\<close>: a new empty table and a watch on it.\<close>

definition tinu_leakwatch_simple :: "'e run_state \<Rightarrow> 'e run_state \<times> ptr \<times> ptr" where
  "tinu_leakwatch_simple st =
     (let tab = lw_brk (rs_lw st);
          (lw, handle) = tinu_register_watch ((rs_lw st)\<lparr>lw_brk := Suc tab\<rparr>) tab
      in (st\<lparr>rs_tabs := (rs_tabs st)(tab := []), rs_lw := lw\<rparr>, tab, handle))"

text \<open>The block \<open>if (leak_handler)\<close>.\<close>

definition finish_leaks ::
  "('f, 'k, 'e) run_params \<Rightarrow> ('f, 'k) test_context \<Rightarrow> 'f test_case \<Rightarrow> ptr \<Rightarrow> ptr \<Rightarrow> 'e run_state
     \<Rightarrow> 'e run_state res" where
  "finish_leaks P self test tab handle st =
     bindr (tinu_unregister_watch (rp_log P) (rs_lw st) handle (rs_env st)) (\<lambda>(_, lw, e).
     let st = st\<lparr>rs_lw := lw, rs_env := e\<rparr>;
         leaked_bytes = tinu_leakwatch_summary (rs_tabs st tab)
     in bindr (run_hooks P self (Ev_leakinfo test leaked_bytes) st) (\<lambda>st.
        bindr (if rs_result st = TEST_PASSED
               then bindr (tinu_leakwatch_simple_dump (rp_symbols P) (rp_log P) (rs_traces st)
                             (rs_tabs st tab) LOG_WARNING (rs_env st))
                      (\<lambda>e. Inr (st\<lparr>rs_env := e\<rparr>))
               else Inr st) (\<lambda>st.
        bindr (table_destroy (rs_tabs st tab) (rs_traces st)) (\<lambda>traces.
          Inr (st\<lparr>rs_traces := traces, rs_tabs := (rs_tabs st)(tab := [])\<rparr>)))))"

definition test_case_run_single_test ::
  "('f, 'k, 'e) run_params \<Rightarrow> ('f, 'k) test_context \<Rightarrow> 'f test_case \<Rightarrow> 'e run_state
     \<Rightarrow> (test_result \<times> 'e run_state) res" where
  "test_case_run_single_test P self test st =
     (let (st, tab, handle) =
            (if m_leakwatch self then tinu_leakwatch_simple st else (st, NULL, NULL))
      in bindr (run_in_context P self test st) (\<lambda>st.
         bindr (log_result P test st) (\<lambda>st.
         bindr (if handle \<noteq> NULL then finish_leaks P self test tab handle st else Inr st) (\<lambda>st.
         bindr (run_hooks P self (Ev_after_test test (rs_result st)) st) (\<lambda>st.
           Inr (rs_result st, st))))))"

section \<open>Suites and contexts\<close>

definition suite_step ::
  "('f, 'k, 'e) run_params \<Rightarrow> ('f, 'k) test_context \<Rightarrow> 'f test_case \<Rightarrow> bool \<times> 'e run_state
     \<Rightarrow> (bool \<times> 'e run_state) res" where
  "suite_step P self test = (\<lambda>(res, st).
     bindr (test_case_run_single_test P self test st) (\<lambda>(r, st).
       Inr (res \<and> TEST_PASSED = r, st)))"

definition test_suite_run ::
  "('f, 'k, 'e) run_params \<Rightarrow> ('f, 'k) test_context \<Rightarrow> 'f test_suite \<Rightarrow> 'f test_case option
     \<Rightarrow> 'e run_state \<Rightarrow> (bool \<times> 'e run_state) res" where
  "test_suite_run P self suite test st =
     bindr (run_hooks P self (Ev_before_suite suite) st) (\<lambda>st.
     bindr (case test of
              Some t \<Rightarrow>
                bindr (test_case_run_single_test P self t st) (\<lambda>(r, st). Inr (TEST_PASSED = r, st))
            | None \<Rightarrow> fold_res (suite_step P self) (su_tests suite) (True, st)) (\<lambda>(res, st).
     bindr (log_plain P (if res then LOG_DEBUG else LOG_WARNING) ''Test suite run complete''
              (eval_tags [msg_tag_str ''suite'' (Some (su_name suite)), msg_tag_bool ''result'' res]) st) (\<lambda>st.
     bindr (run_hooks P self (Ev_after_suite suite res) st) (\<lambda>st. Inr (res, st)))))"

definition tinu_test_all_run ::
  "('f, 'k, 'e) run_params \<Rightarrow> ('f, 'k) test_context \<Rightarrow> 'e run_state \<Rightarrow> (bool \<times> 'e run_state) res" where
  "tinu_test_all_run P self st =
     fold_res (\<lambda>suite (res, st).
         bindr (test_suite_run P self suite None st) (\<lambda>(suite_res, st). Inr (res \<and> suite_res, st)))
       (m_suites self) (True, st)"

text \<open>
  The loop of \<open>_test_suite_lookup\<close>: the index found, or with \<open>res\<close> the last value of the
  variable of that name; a pointer to a suite is its index.
\<close>

fun suite_scan :: "'f test_suite list \<Rightarrow> string \<Rightarrow> nat \<Rightarrow> nat option \<Rightarrow> bool \<times> nat option" where
  "suite_scan [] suite i res = (False, res)"
| "suite_scan (s # ss) suite i res =
     (if su_name s = suite then (True, Some i) else suite_scan ss suite (Suc i) (Some i))"

definition test_suite_lookup ::
  "('f, 'k) test_context \<Rightarrow> string \<Rightarrow> bool \<Rightarrow> ('f, 'k) test_context \<times> nat option" where
  "test_suite_lookup self suite new =
     (case suite_scan (m_suites self) suite 0 None of
        (True, res) \<Rightarrow> (self, res)
      | (False, res) \<Rightarrow>
          if \<not> new then (self, res)
          else (self\<lparr>m_suites := m_suites self @ [\<lparr>su_name = suite, su_tests = []\<rparr>]\<rparr>,
                Some (length (m_suites self))))"

fun case_scan :: "'f test_case list \<Rightarrow> string \<Rightarrow> nat \<Rightarrow> nat option" where
  "case_scan [] test i = None"
| "case_scan (t # ts) test i = (if tc_name t = test then Some i else case_scan ts test (Suc i))"

definition test_lookup_case :: "'f test_suite \<Rightarrow> string \<Rightarrow> nat option" where
  "test_lookup_case suite test = case_scan (su_tests suite) test 0"

definition tinu_test_suite_run ::
  "('f, 'k, 'e) run_params \<Rightarrow> ('f, 'k) test_context \<Rightarrow> string \<Rightarrow> 'e run_state
     \<Rightarrow> (bool \<times> 'e run_state) res" where
  "tinu_test_suite_run P self suite_name st =
     (case snd (test_suite_lookup self suite_name False) of
        None \<Rightarrow>
          bindr (log_macro P LOG_ERR ''Suite does not exist'' [msg_tag_str ''suite'' (Some suite_name)] st)
            (\<lambda>st. Inr (False, st))
      | Some i \<Rightarrow> test_suite_run P self (m_suites self ! i) None st)"

definition tinu_test_case_run ::
  "('f, 'k, 'e) run_params \<Rightarrow> ('f, 'k) test_context \<Rightarrow> string \<Rightarrow> string \<Rightarrow> 'e run_state
     \<Rightarrow> (bool \<times> 'e run_state) res" where
  "tinu_test_case_run P self suite_name test_name st =
     (case snd (test_suite_lookup self suite_name False) of
        None \<Rightarrow>
          bindr (log_macro P LOG_ERR ''Suite does not exist'' [msg_tag_str ''suite'' (Some suite_name)] st)
            (\<lambda>st. Inr (False, st))
      | Some i \<Rightarrow>
          (case test_lookup_case (m_suites self ! i) test_name of
             None \<Rightarrow>
               bindr (log_macro P LOG_ERR ''Test does not exist in suite''
                        [msg_tag_str ''suite'' (Some suite_name), msg_tag_str ''case'' (Some test_name)] st)
                 (\<lambda>st. Inr (False, st))
           | Some j \<Rightarrow>
               test_suite_run P self (m_suites self ! i) (Some (su_tests (m_suites self ! i) ! j)) st))"

section \<open>Registration\<close>

fun test_validate_name :: "string \<Rightarrow> bool" where
  "test_validate_name [] = True"
| "test_validate_name (c # cs) =
     (if c = CHR ''.'' \<or> c = CHR ''='' then False else test_validate_name cs)"

definition check_name ::
  "'e logger \<Rightarrow> string \<Rightarrow> string \<Rightarrow> 'e \<Rightarrow> 'e res" where
  "check_name lg txt name e =
     (if \<not> test_validate_name name
      then bindr (lg_macro lg LOG_CRIT txt (eval_tags [msg_tag_str ''name'' (Some name)]) e)
             (\<lambda>_. Inl AssertAbort)
      else Inr e)"

definition test_add_extended ::
  "'e logger \<Rightarrow> ('f, 'k) test_context \<Rightarrow> string \<Rightarrow> string \<Rightarrow> 'f test_fn option \<Rightarrow> 'f test_fn option
     \<Rightarrow> 'f test_fn option \<Rightarrow> 'f user_data \<Rightarrow> 'f option \<Rightarrow> 'e \<Rightarrow> (('f, 'k) test_context \<times> 'e) res" where
  "test_add_extended lg self suite_name test_name setup cleanup func user_data ud_cleanup e =
     bindr (check_name lg
       ''Invalid suite name (names cannot contain '.' and '=' characters)'' suite_name e) (\<lambda>e.
     bindr (check_name lg
       ''Invalid test case name (names cannot contain '.' and '=' characters)'' test_name e) (\<lambda>e.
     case test_suite_lookup self suite_name True of
       (self, None) \<Rightarrow> Inl NullDeref
     | (self, Some i) \<Rightarrow>
         (let suite = m_suites self ! i;
              put = (\<lambda>tests. self\<lparr>m_suites := (m_suites self)[i := suite\<lparr>su_tests := tests\<rparr>]\<rparr>)
          in case test_lookup_case suite test_name of
               Some j \<Rightarrow>
                 bindr (lg_macro lg LOG_WARNING ''Test case already exists''
                          (eval_tags [msg_tag_str ''suite'' (Some suite_name),
                                      msg_tag_str ''test'' (Some test_name)]) e) (\<lambda>e.
                   Inr (put ((su_tests suite)[j :=
                          (su_tests suite ! j)\<lparr>tc_setup := setup, tc_cleanup := cleanup, tc_test := func\<rparr>]), e))
             | None \<Rightarrow>
                 bindr (lg_macro lg LOG_DEBUG ''Test case added''
                          (eval_tags [msg_tag_str ''suite'' (Some suite_name),
                                      msg_tag_str ''case'' (Some test_name)]) e) (\<lambda>e.
                   Inr (put (su_tests suite @
                          [\<lparr>tc_suite = suite_name, tc_name = test_name, tc_setup = setup,
                            tc_cleanup = cleanup, tc_test = func, tc_user_data = user_data,
                            tc_user_data_cleanup = ud_cleanup\<rparr>]), e)))))"

text \<open>\<open>g_free\<close> as the cleanup function of the user data is the code \<open>free_fn\<close>.\<close>

definition test_add ::
  "'e logger \<Rightarrow> 'f \<Rightarrow> ('f, 'k) test_context \<Rightarrow> string \<Rightarrow> string \<Rightarrow> 'f option \<Rightarrow> 'f option
     \<Rightarrow> 'f option \<Rightarrow> 'e \<Rightarrow> (('f, 'k) test_context \<times> 'e) res" where
  "test_add lg free_fn self suite_name test_name setup cleanup func e =
     test_add_extended lg self suite_name test_name (Some Wrapper) (Some Wrapper) (Some Wrapper)
       (Simplified \<lparr>sf_setup = setup, sf_cleanup = cleanup, sf_function = func\<rparr>) (Some free_fn) e"

definition test_context_init :: "bool \<Rightarrow> bool \<Rightarrow> string option \<Rightarrow> ('f, 'k) test_context" where
  "test_context_init sighandle leakwatch core_dir =
     \<lparr>m_suites = [], m_sighandle = sighandle, m_leakwatch = leakwatch, m_core_dir = core_dir,
      tx_hooks = hooks_init\<rparr>"

text \<open>
  \<open>test_context_destroy\<close>: the calls of the user data's cleanup functions, in order, and
  the hooks that remain.
\<close>

definition test_context_destroy ::
  "('f, 'k) test_context \<Rightarrow> (('f \<times> 'f user_data) list \<times> 'k hook_store) res" where
  "test_context_destroy self =
     (let calls = concat (map (\<lambda>suite. concat (map (\<lambda>t.
            case tc_user_data_cleanup t of None \<Rightarrow> [] | Some f \<Rightarrow> [(f, tc_user_data t)])
            (su_tests suite))) (m_suites self))
      in bindr (test_unregister_hook (tx_hooks self) TEST_HOOK_ALL None NULL) (\<lambda>hs.
           Inr (calls, hs)))"

end
