(* ===== verification/Logger.thy ===== *)
theory Logger
  imports Log
begin

text \<open>
  The interface between the logger and the components that log while they work: a logger
  that never stops the program on ordinary messages and leaves alone what the component
  observes (\<open>obs\<close>) of the environment. The interpretation shows that the logger of
  \<open>log.c\<close> with its stderr handlers, the set-up of \<open>tinu_main\<close>, is one.
\<close>

section \<open>The interface\<close>

definition priority_ok :: "int \<Rightarrow> bool" where
  "priority_ok pri \<longleftrightarrow> LOG_EMERG \<le> pri \<and> pri \<le> LOG_DEBUG"

locale total_logger =
  fixes lg :: "'e logger" and obs :: "'e \<Rightarrow> 'o"
  assumes format_total: "priority_ok pri \<Longrightarrow> length tags \<le> 29 \<Longrightarrow>
      \<exists>e'. lg_format lg pri txt tags e = Inr e' \<and> obs e' = obs e"
    and macro_total: "priority_ok pri \<Longrightarrow> length tags \<le> 29 \<Longrightarrow>
      \<exists>e'. lg_macro lg pri txt (Inr tags) e = Inr e' \<and> obs e' = obs e"
    and message_total: "priority_ok (msg_priority msg) \<Longrightarrow> msg_holds msg ts \<Longrightarrow>
      \<exists>e'. lg_message lg msg e = Inr e' \<and> obs e' = obs e"
begin

lemma macro_tags:
  assumes "priority_ok pri" and "eval_tags ts = Inr tags" and "length tags \<le> 29"
  shows "\<exists>e'. lg_macro lg pri txt (eval_tags ts) e = Inr e' \<and> obs e' = obs e"
  using macro_total [OF assms(1,3)] assms(2) by simp

lemma format_many:
  assumes "\<forall>(pri, txt, tags) \<in> set ms. priority_ok pri \<and> length tags \<le> 29"
  shows "\<exists>e'. fold_res (\<lambda>(pri, txt, tags). lg_format lg pri txt tags) ms e = Inr e' \<and> obs e' = obs e"
  using assms
proof (induction ms arbitrary: e)
  case (Cons m ms)
  obtain pri tx tags where m: "m = (pri, tx, tags)" by (cases m) auto
  obtain e1 where e1: "lg_format lg pri tx tags e = Inr e1" "obs e1 = obs e"
    using format_total [of pri tags tx e] Cons.prems by (auto simp: m)
  from Cons.IH [of e1] Cons.prems e1 show ?case by (auto simp: m)
qed simp

end

section \<open>Handlers that leave the observation alone\<close>

definition handler_quiet :: "('h, 'e) handler_call \<Rightarrow> ('e \<Rightarrow> 'o) \<Rightarrow> 'h \<Rightarrow> bool" where
  "handler_quiet call obs h \<longleftrightarrow>
     (\<forall>msg u e. priority_ok (msg_priority msg) \<longrightarrow> (\<exists>ts. msg_holds msg ts) \<longrightarrow>
        (\<exists>go e'. call h msg u e = Inr (go, e') \<and> obs e' = obs e))"

lemma deliver_quiet:
  assumes "\<forall>h \<in> set hs. handler_quiet call obs (lh_handler h)"
    and "priority_ok (msg_priority msg)" and "msg_holds msg ts"
  shows "\<exists>e'. deliver call msg hs e = Inr e' \<and> obs e' = obs e"
  using assms(1)
proof (induction hs arbitrary: e)
  case (Cons h hs)
  have "handler_quiet call obs (lh_handler h)" using Cons.prems by simp
  then obtain go e1 where e1: "call (lh_handler h) msg (lh_user_data h) e = Inr (go, e1)" "obs e1 = obs e"
    using assms(2,3) unfolding handler_quiet_def by blast
  obtain e2 where "deliver call msg hs e1 = Inr e2" "obs e2 = obs e1"
    using Cons.IH [of e1] Cons.prems by auto
  then show ?case using e1 by (cases go) simp_all
qed simp

text \<open>A logger built from such handlers is a total logger.\<close>

lemma the_logger_quiet:
  fixes call :: "('h, 'e) handler_call"
  assumes "log_inv st" and "g_divert_handler st = None"
    and quiet: "\<forall>(p, h) \<in> set (g_log_list st). handler_quiet call obs (lh_handler h)"
  shows "total_logger (the_logger call st) obs"
proof -
  have acc: "\<forall>h \<in> set (accepting st pri). handler_quiet call obs (lh_handler h)" for pri
    using quiet by (auto simp: accepting_def)
  have msg: "\<exists>e'. log_message call st m True e = Inr (e', ts) \<and> obs e' = obs e"
    if ok: "priority_ok (msg_priority m)" "msg_holds m ts" for m ts e
  proof -
    have d: "msg_destroy m = Inr ts" using msg_destroy_holds [OF ok(2)] .
    obtain e' where e': "deliver call m (accepting st (msg_priority m)) e = Inr e'" "obs e' = obs e"
      using deliver_quiet [OF acc [of "msg_priority m"] ok, of e] by blast
    then show ?thesis
      using accepting_dropped [OF assms(1), of "msg_priority m"] d
      by (auto simp: log_message_def assms(2) log_alert_handlers_deliver)
  qed
  have fmt: "\<exists>e'. log_vformat call st pri tx tags e = Inr (e', tags) \<and> obs e' = obs e"
    if ok: "priority_ok pri" "length tags \<le> 29" for pri tx tags e
  proof -
    let ?m = "\<lparr>msg_priority = pri, msg_message = tx, msg_tag_count = length tags, msg_tags = map Some tags\<rparr>"
    have h: "msg_holds ?m tags" by (simp add: msg_holds_def)
    have d: "msg_destroy ?m = Inr tags" using msg_destroy_holds [OF h] .
    have v: "msg_vcreate pri tx tags = Inr ?m" using msg_vcreate_small [OF ok(2)] .
    obtain e' where e': "deliver call ?m (accepting st pri) e = Inr e'" "obs e' = obs e"
      using deliver_quiet [OF acc [of pri] _ h, of e] ok(1) by auto
    then show ?thesis
      using accepting_dropped [OF assms(1), of pri] d v
      by (auto simp: log_vformat_def assms(2) log_alert_handlers_deliver)
  qed
  show ?thesis
  proof
    fix pri :: int and tags :: "msg_tag list" and tx and e :: 'e
    assume ok: "priority_ok pri" "length tags \<le> 29"
    show "\<exists>e'. lg_format (the_logger call st) pri tx tags e = Inr e' \<and> obs e' = obs e"
      using fmt [OF ok, of tx e] by (auto simp: the_logger_def log_format_def)
    show "\<exists>e'. lg_macro (the_logger call st) pri tx (Inr tags) e = Inr e' \<and> obs e' = obs e"
      using fmt [OF ok, of tx e] by (auto simp: the_logger_def log_wrap_def log_format_def)
  next
    fix m :: message and ts and e :: 'e
    assume ok: "priority_ok (msg_priority m)" "msg_holds m ts"
    show "\<exists>e'. lg_message (the_logger call st) m e = Inr e' \<and> obs e' = obs e"
      using msg [OF ok, of e] by (auto simp: the_logger_def)
  qed
qed

text \<open>
  The environment of a whole run is a pair: what hooks work on, and what the handlers
  write to.
\<close>

definition beside :: "('h, 'i) handler_call \<Rightarrow> ('h, 'x \<times> 'i) handler_call" where
  "beside call h msg u = (\<lambda>(x, i). bindr (call h msg u i) (\<lambda>(go, i). Inr (go, x, i)))"

definition handler_total :: "('h, 'i) handler_call \<Rightarrow> 'h \<Rightarrow> bool" where
  "handler_total call h \<longleftrightarrow>
     (\<forall>msg u i. priority_ok (msg_priority msg) \<longrightarrow> (\<exists>ts. msg_holds msg ts) \<longrightarrow>
        (\<exists>r. call h msg u i = Inr r))"

lemma handler_total_beside:
  assumes "handler_total call h"
  shows "handler_quiet (beside call) fst h"
  unfolding handler_quiet_def
proof (intro allI impI)
  fix msg u and e :: "'c \<times> 'b"
  assume "priority_ok (msg_priority msg)" and "\<exists>ts. msg_holds msg ts"
  then obtain r where "call h msg u (snd e) = Inr r"
    using assms [unfolded handler_total_def, rule_format, of msg u "snd e"] by blast
  then show "\<exists>go e'. beside call h msg u e = Inr (go, e') \<and> fst e' = fst e"
    by (cases e; cases r) (simp add: beside_def)
qed

section \<open>The built-in handlers are total\<close>

lemma format_priority_total: "priority_ok p \<Longrightarrow> \<exists>nm. msg_format_priority p = Inr (NamePtr nm)"
proof -
  assume "priority_ok p"
  then have "p \<in> {0, 1, 2, 3, 4, 5, 6, 7}" by (auto simp: priority_ok_def)
  then show ?thesis
    by (elim insertE emptyE)
       (simp_all add: msg_format_priority_def tinu_lookup_key_def MessagePriority_names_def name_entry_def)
qed

lemma vformat_two: "\<exists>t. vformat (''[%s] %s'' @ [CHR 0x0A]) [pstr a, pstr b] = Inr t"
  by (simp add: vformat_simps is_digit_def pad_def fspec0_def)

lemma file_line_total:
  assumes "priority_ok (msg_priority msg)" and "msg_holds msg ts"
  shows "\<exists>line. file_line msg = Inr line"
proof -
  obtain nm where "msg_format_priority (msg_priority msg) = Inr (NamePtr nm)"
    using format_priority_total [OF assms(1)] by blast
  then show ?thesis
    using msg_format_simple_holds [OF assms(2)] vformat_two [of nm]
    by (auto simp: file_line_def name_arg_def)
qed

lemma vformat_fancy: "\<exists>t. vformat fancy_fmt [pstr a, pstr b, pstr c] = Inr t"
  by (simp add: fancy_fmt_def esc_def vformat_simps is_digit_def pad_def fspec0_def)

lemma vformat_fancy_tag: "\<exists>t. vformat fancy_tag_fmt [pstr a, pstr b] = Inr t"
  by (simp add: fancy_tag_fmt_def esc_def vformat_simps is_digit_def pad_def fspec0_def)

lemma fancy_total:
  assumes "priority_ok (msg_priority msg)" and "msg_holds msg ts"
  shows "\<exists>r. msg_stderr_fancy_handler msg u io = Inr r"
proof -
  obtain nm where nm: "msg_format_priority (msg_priority msg) = Inr (NamePtr nm)"
    using format_priority_total [OF assms(1)] by blast
  obtain head where hd: "vformat fancy_fmt [pstr (priority_color (msg_priority msg)), pstr nm,
      pstr (msg_message msg)] = Inr head"
    using vformat_fancy by blast
  obtain g where g: "\<And>a b. vformat fancy_tag_fmt [pstr a, pstr b] = Inr (g a b)"
    using vformat_fancy_tag by metis
  let ?f = "\<lambda>i out. bindr (block_get (msg_tags msg) i) (\<lambda>t.
              bindr (vformat fancy_tag_fmt [pstr (mt_tag t), pstr (mt_value t)]) (\<lambda>txt.
                Inr (out @ txt)))"
  have "fold_res ?f [0..<length ts] s = Inr (fold (\<lambda>t out. out @ g (mt_tag t) (mt_value t)) ts s)" for s
    using assms(2) by (intro fold_res_upto) (simp add: msg_holds_def block_get_full g)
  then show ?thesis
    using assms(2) nm hd by (simp add: msg_stderr_fancy_handler_def msg_holds_def name_arg_def)
qed

lemma printing_handlers_total:
  "handler_total (call_handler user) Syslog_handler"
  "handler_total (call_handler user) Stderr_handler"
  "handler_total (call_handler user) File_handler"
  "handler_total (call_handler user) Stderr_fancy_handler"
  using file_line_total fancy_total msg_format_simple_holds
  by (fastforce simp: handler_total_def msg_syslog_handler_def msg_stderr_handler_def
      msg_file_handler_def)+

text \<open>The logger as \<open>tinu_main\<close> sets it up: one stderr handler for all priorities.\<close>

definition stderr_log :: "bool \<Rightarrow> int \<Rightarrow> 'u handler_fn log_state" where
  "stderr_log fancy priority =
     fst (log_register_message_handler log_start
       (if fancy then Stderr_fancy_handler else Stderr_handler) priority 1)"

definition main_logger :: "('u, io) handler_call \<Rightarrow> bool \<Rightarrow> int \<Rightarrow> ('x \<times> io) logger" where
  "main_logger user fancy priority =
     the_logger (beside (call_handler user)) (stderr_log fancy priority)"

interpretation main_log: total_logger "main_logger user fancy priority" fst
  unfolding main_logger_def
proof (rule the_logger_quiet)
  show "log_inv (stderr_log fancy priority)"
    unfolding stderr_log_def by (rule log_inv_register [OF log_inv_start])
  show "g_divert_handler (stderr_log fancy priority) = None"
    by (simp add: stderr_log_def log_register_message_handler_def log_start_def Let_def)
  show "\<forall>(p, h) \<in> set (g_log_list (stderr_log fancy priority)).
      handler_quiet (beside (call_handler user)) fst (lh_handler h)"
    by (simp add: printing_handlers_total [THEN handler_total_beside] stderr_log_def log_register_message_handler_def log_start_def Let_def)
qed

end
