(* ===== verification/TestOutcome.thy ===== *)
theory TestOutcome
  imports TestRun Logger
begin

text \<open>
  What running tests amounts to: the outcome of a test as a function of what the user's
  functions do, and the events the hooks see. \<open>test_observer\<close> is the interface between the
  runner and the hooks: running the hooks of an event succeeds and updates an observation of
  the environment by \<open>seen\<close>, logging leaves it alone. The runner's lemmas are proved in it
  once; \<open>Statistics\<close> interprets it with the statistics hooks.
\<close>

section \<open>The specification\<close>

text \<open>The result after a list of actions, and whether its end was reached.\<close>

fun acts_outcome :: "user_act list \<Rightarrow> test_result \<Rightarrow> test_result \<times> bool" where
  "acts_outcome [] r = (r, True)"
| "acts_outcome (UAssert c _ _ _ _ _ _ # as) r = acts_outcome as (if c then r else TEST_FAILED)"
| "acts_outcome (ULog _ _ _ # as) r = acts_outcome as r"
| "acts_outcome (UMem _ # as) r = acts_outcome as r"
| "acts_outcome (UAbort # as) r = (TEST_ABORT, False)"
| "acts_outcome (USegv # as) r = (TEST_SEGFAULT, False)"

fun acts_events :: "user_act list \<Rightarrow> 'f hook_event list" where
  "acts_events [] = []"
| "acts_events (UAssert c _ _ file func line _ # as) = Ev_assert c file func line # acts_events as"
| "acts_events (ULog _ _ _ # as) = acts_events as"
| "acts_events (UMem _ # as) = acts_events as"
| "acts_events (UAbort # as) = [Ev_signal_abort]"
| "acts_events (USegv # as) = [Ev_signal_segfault]"

text \<open>What one of a test's three functions does.\<close>

definition fn_prog ::
  "('f, 'k, 'e) run_params \<Rightarrow> ('f simplified \<Rightarrow> 'f option) \<Rightarrow> 'f test_case \<Rightarrow> 'f test_fn option \<Rightarrow> ptr
     \<Rightarrow> user_act list \<times> ptr" where
  "fn_prog P sel test fn arg =
     (case fn of
        None \<Rightarrow> ([], NULL)
      | Some (Ext f) \<Rightarrow> rp_prog P f arg
      | Some Wrapper \<Rightarrow>
          (case tc_user_data test of
             Simplified fs \<Rightarrow> (case sel fs of None \<Rightarrow> ([], NULL) | Some f \<Rightarrow> rp_prog P f arg)
           | Opaque _ \<Rightarrow> ([], NULL)))"

text \<open>The whole test: setup, function with the pointer setup returned, cleanup with it.\<close>

definition test_acts :: "('f, 'k, 'e) run_params \<Rightarrow> 'f test_case \<Rightarrow> user_act list" where
  "test_acts P test =
     (let (setup, ctx) = fn_prog P sf_setup test (tc_setup test) NULL
      in setup @ fst (fn_prog P sf_function test (tc_test test) ctx) @
         fst (fn_prog P sf_cleanup test (tc_cleanup test) ctx))"

definition expected_result :: "('f, 'k, 'e) run_params \<Rightarrow> 'f test_case \<Rightarrow> test_result" where
  "expected_result P test =
     (let r = fst (acts_outcome (test_acts P test) TEST_NONE)
      in if r = TEST_NONE then TEST_PASSED else r)"

definition expected_events :: "('f, 'k, 'e) run_params \<Rightarrow> 'f test_case \<Rightarrow> 'f hook_event list" where
  "expected_events P test =
     Ev_before_test test # acts_events (test_acts P test) @
       [Ev_after_test test (expected_result P test)]"

definition suite_passed :: "('f, 'k, 'e) run_params \<Rightarrow> 'f test_suite \<Rightarrow> bool" where
  "suite_passed P suite \<longleftrightarrow> list_all (\<lambda>t. expected_result P t = TEST_PASSED) (su_tests suite)"

definition suite_events :: "('f, 'k, 'e) run_params \<Rightarrow> 'f test_suite \<Rightarrow> 'f hook_event list" where
  "suite_events P suite =
     Ev_before_suite suite # concat (map (expected_events P) (su_tests suite)) @
       [Ev_after_suite suite (suite_passed P suite)]"

section \<open>Ordinary tests\<close>

text \<open>
  Actions within the limits of the message functions: priorities with a name, at most 28
  further tags in an assertion, at most 29 in a message.
\<close>

fun act_ok :: "user_act \<Rightarrow> bool" where
  "act_ok (UAssert _ _ _ _ _ _ tags) \<longleftrightarrow> length tags \<le> 28"
| "act_ok (ULog pri _ tags) \<longleftrightarrow> priority_ok pri \<and> length tags \<le> 29"
| "act_ok _ \<longleftrightarrow> True"

definition is_fatal :: "user_act \<Rightarrow> bool" where
  "is_fatal a \<longleftrightarrow> a = UAbort \<or> a = USegv"

text \<open>
  A test whose wrappers find simplified functions, whose actions are in the limits and, for
  runs without signal handling, not fatal.
\<close>

definition test_ok :: "('f, 'k, 'e) run_params \<Rightarrow> ('f, 'k) test_context \<Rightarrow> 'f test_case \<Rightarrow> bool" where
  "test_ok P ctx test \<longleftrightarrow>
     (\<forall>p. tc_user_data test = Opaque p \<longrightarrow>
        Wrapper \<notin> set_option (tc_setup test) \<union> set_option (tc_test test) \<union> set_option (tc_cleanup test)) \<and>
     list_all act_ok (test_acts P test) \<and>
     (\<not> m_sighandle ctx \<longrightarrow> \<not> list_ex is_fatal (test_acts P test))"

section \<open>The interface\<close>

text \<open>
  Hooks need not be ready for every event at any time (\<open>fits\<close>); a sequence of events is
  accepted when each one fits what the ones before it have left.
\<close>

fun accepts :: "('v \<Rightarrow> 'o \<Rightarrow> bool) \<Rightarrow> ('v \<Rightarrow> 'o \<Rightarrow> 'o) \<Rightarrow> 'v list \<Rightarrow> 'o \<Rightarrow> bool" where
  "accepts fits seen [] v \<longleftrightarrow> True"
| "accepts fits seen (ev # evs) v \<longleftrightarrow> fits ev v \<and> accepts fits seen evs (seen ev v)"

lemma accepts_append [simp]:
  "accepts fits seen (xs @ ys) v \<longleftrightarrow> accepts fits seen xs v \<and> accepts fits seen ys (fold seen xs v)"
  by (induction xs arbitrary: v) simp_all

lemma accepts_always [simp]: "accepts (\<lambda>_ _. True) seen evs v"
  by (induction evs arbitrary: v) simp_all

locale test_observer =
  total_logger "rp_log P" obs
  for P :: "('f, 'k, 'e) run_params" and obs :: "'e \<Rightarrow> 'o" +
  fixes ctx :: "('f, 'k) test_context" and seen :: "'f hook_event \<Rightarrow> 'o \<Rightarrow> 'o"
    and fits :: "'f hook_event \<Rightarrow> 'o \<Rightarrow> bool"
  assumes hooks_note: "fits ev (obs e) \<Longrightarrow>
      \<exists>e'. test_run_hooks (\<lambda>k. rp_hook P k ev) (tx_hooks ctx) (hook_event_id ev) e = Inr e' \<and>
      obs e' = seen ev (obs e)"
    and frames_known: "\<exists>fs. rp_frames P = Some fs \<and> list_all (resolves (rp_symbols P)) fs"
    and lines_known: "\<exists>found. backtrace_resolv_lines (rp_symbols P) entry = Inr found"
    and no_leakwatch: "\<not> m_leakwatch ctx"
    and contexts_work: "rp_getcontext P \<and> rp_swapcontext P"
begin

lemma run_hooks_note:
  assumes "fits ev (obs (rs_env st))"
  shows "\<exists>e'. run_hooks P ctx ev st = Inr (st\<lparr>rs_env := e'\<rparr>) \<and> obs e' = seen ev (obs (rs_env st))"
proof -
  obtain e' where "test_run_hooks (\<lambda>k. rp_hook P k ev) (tx_hooks ctx) (hook_event_id ev) (rs_env st) = Inr e'"
      "obs e' = seen ev (obs (rs_env st))"
    using hooks_note [OF assms] by blast
  then show ?thesis by (intro exI [of _ e']) (simp add: run_hooks_def)
qed

lemma log_macro_quiet:
  assumes "priority_ok pri" and "eval_tags ts = Inr tags" and "length tags \<le> 29"
  shows "\<exists>e'. log_macro P pri tx ts st = Inr (st\<lparr>rs_env := e'\<rparr>) \<and> obs e' = obs (rs_env st)"
proof -
  obtain e' where "lg_macro (rp_log P) pri tx (eval_tags ts) (rs_env st) = Inr e'"
      "obs e' = obs (rs_env st)"
    using macro_tags [OF assms, of tx "rs_env st"] by blast
  then show ?thesis by (intro exI [of _ e']) (simp add: log_macro_def)
qed

lemma log_plain_quiet:
  assumes "priority_ok pri" and "ts = Inr tags" and "length tags \<le> 29"
  shows "\<exists>e'. log_plain P pri tx ts st = Inr (st\<lparr>rs_env := e'\<rparr>) \<and> obs e' = obs (rs_env st)"
proof -
  obtain e' where "lg_format (rp_log P) pri tx tags (rs_env st) = Inr e'" "obs e' = obs (rs_env st)"
    using format_total [OF assms(1,3), of tx "rs_env st"] by blast
  then show ?thesis using assms(2) by (intro exI [of _ e']) (simp add: log_plain_def)
qed

end

text \<open>The tag constructors always succeed.\<close>

lemma tag_str_total: "\<exists>t. msg_tag_str n (Some s) = Inr t"
  by (simp add: msg_tag_str_def msg_generate_tag_def vformat_simps is_digit_def pad_def fspec0_def)

lemma tag_int_total: "\<exists>t. msg_tag_int n v = Inr t"
  by (simp add: msg_tag_int_def msg_generate_tag_def vformat_simps is_digit_def pad_def fspec0_def)

lemma tag_hex_total: "\<exists>t. msg_tag_hex n v = Inr t"
  by (simp add: msg_tag_hex_def msg_generate_tag_def vformat_simps is_digit_def pad_def fspec0_def)

lemma tag_ptr_total: "\<exists>t. msg_tag_ptr n v = Inr t"
  by (simp add: msg_tag_ptr_def msg_generate_tag_def vformat_simps is_digit_def pad_def fspec0_def)

lemma tag_bool_total: "\<exists>t. msg_tag_bool n v = Inr t"
  by (simp add: msg_tag_bool_def msg_generate_tag_def vformat_simps is_digit_def pad_def fspec0_def)

lemma tag_location_total: "\<exists>t. msg_tag_printf n ''%s:%d'' [PStr s, PInt v] = Inr t"
  by (simp add: msg_tag_printf_def msg_generate_tag_def vformat_simps is_digit_def pad_def fspec0_def)

lemmas tags_total = tag_str_total tag_int_total tag_hex_total tag_ptr_total tag_bool_total
  tag_location_total

lemma eval_tags_total:
  "list_all (\<lambda>t. \<exists>x. t = Inr x) ts \<Longrightarrow> \<exists>tags. eval_tags ts = Inr tags \<and> length tags = length ts"
  by (induction ts) auto

lemma core_file_name_total: "\<exists>f. core_file_name dir suite test = Inr f"
  by (cases dir) (simp_all add: core_file_name_def vformat_simps is_digit_def pad_def fspec0_def)

section \<open>Assertions and signals\<close>

lemma append_small:
  assumes "msg_holds m ts" and "length ts \<le> 5" and "length vl \<le> 28"
  shows "\<exists>m'. msg_vappend m vl = Inr m' \<and> msg_holds m' (ts @ vl) \<and> msg_priority m' = msg_priority m"
proof -
  have "cap_after (length ts) (length vl) < 2 ^ 31"
  proof (cases "ts = []")
    case True
    have "(2::nat) ^ (length vl + 1) \<le> 2 ^ 29" using assms(3) by (intro power_increasing) auto
    then show ?thesis using True by (simp add: cap_after_zero)
  next
    case False
    have "(2::nat) ^ length vl \<le> 2 ^ 28" using assms(3) by (intro power_increasing) auto
    then have "length ts * 2 ^ length vl \<le> 5 * 2 ^ 28" using assms(2) by (intro mult_mono) auto
    then show ?thesis using False by (simp add: cap_after_pos)
  qed
  then show ?thesis
    using append_then_trim [of m ts vl] assms(1)
    by (auto simp: msg_vappend_def msg_holds_def)
qed

lemma bindr_case: "bindr m f = (case m of Inl e \<Rightarrow> Inl e | Inr x \<Rightarrow> f x)"
  by (cases m) simp_all

lemma run_acts_append:
  "run_acts P ctx (as @ bs) st =
     bindr (run_acts P ctx as st) (\<lambda>(st, r).
       case r of None \<Rightarrow> Inr (st, None) | Some _ \<Rightarrow> run_acts P ctx bs st)"
proof (induction as arbitrary: st)
  case (Cons a as)
  then show ?case
    by (cases a) (auto simp: bindr_nested raise_signal_def intro!: bindr_cong)
qed simp

lemma acts_outcome_append:
  "acts_outcome (as @ bs) r =
     (case acts_outcome as r of (r', fin) \<Rightarrow> if fin then acts_outcome bs r' else (r', False))"
  by (induction as r rule: acts_outcome.induct) auto

lemma call_opt_acts:
  assumes "\<forall>p. tc_user_data test = Opaque p \<longrightarrow> fn \<noteq> Some Wrapper"
  shows "call_opt P ctx sel test fn arg st =
     bindr (run_acts P ctx (fst (fn_prog P sel test fn arg)) st) (\<lambda>(st, fin).
       Inr (st, map_option (\<lambda>_. snd (fn_prog P sel test fn arg)) fin))"
  using assms
  by (auto simp: call_opt_def call_test_fn_def fn_prog_def call_user_def
      split: option.splits test_fn.splits user_data.splits prod.splits)

lemma run_intern_acts:
  assumes "\<forall>p. tc_user_data test = Opaque p \<longrightarrow>
      Wrapper \<notin> set_option (tc_setup test) \<union> set_option (tc_test test) \<union> set_option (tc_cleanup test)"
  shows "test_case_run_intern P ctx test st =
     bindr (run_hooks P ctx (Ev_before_test test) (st\<lparr>rs_case := Some (tc_suite test, tc_name test)\<rparr>)) (\<lambda>st.
     bindr (run_acts P ctx (test_acts P test) st) (\<lambda>(st, r).
       Inr (case r of
              None \<Rightarrow> (st, None)
            | Some _ \<Rightarrow> (if rs_result st = TEST_NONE then st\<lparr>rs_result := TEST_PASSED\<rparr> else st, Some ()))))"
proof -
  have ok: "\<forall>p. tc_user_data test = Opaque p \<longrightarrow> fn \<noteq> Some Wrapper"
    if "fn \<in> {tc_setup test, tc_test test, tc_cleanup test}" for fn
    using assms that by auto
  obtain a1 p1 where 1: "fn_prog P sf_setup test (tc_setup test) NULL = (a1, p1)" by (cases "fn_prog P sf_setup test (tc_setup test) NULL")
  define a2 a3 where "a2 = fst (fn_prog P sf_function test (tc_test test) p1)"
    and "a3 = fst (fn_prog P sf_cleanup test (tc_cleanup test) p1)"
  have acts: "test_acts P test = a1 @ a2 @ a3" by (simp add: test_acts_def 1 a2_def a3_def)
  show ?thesis
    unfolding test_case_run_intern_def Let_def acts
    by (intro bindr_cong [OF refl])
       (simp add: call_opt_acts [OF ok] 1 run_acts_append bindr_case a2_def [symmetric] a3_def [symmetric]
         split: sum.splits option.splits prod.splits)
qed

section \<open>Running under observation\<close>

context test_observer
begin

lemma assert_seen:
  assumes "length vl \<le> 28" and fit: "fits (Ev_assert c file func line) (obs (rs_env st))"
  shows "\<exists>e'. tinu_test_assert P ctx c ty cs file func line vl st =
             Inr (c, st\<lparr>rs_result := (if c then rs_result st else TEST_FAILED), rs_env := e'\<rparr>) \<and>
           obs e' = seen (Ev_assert c file func line) (obs (rs_env st))"
proof -
  obtain e1 where e1: "run_hooks P ctx (Ev_assert c file func line) st = Inr (st\<lparr>rs_env := e1\<rparr>)"
      "obs e1 = seen (Ev_assert c file func line) (obs (rs_env st))"
    using run_hooks_note [OF fit] by blast
  let ?ts = "[msg_tag_str ''condition'' (Some cs), msg_tag_str ''type'' (Some ty),
      msg_tag_str ''file'' (Some file), msg_tag_str ''function'' (Some func), msg_tag_int ''line'' line]"
  obtain tags where tags: "eval_tags ?ts = Inr tags" "length tags = 5"
    using eval_tags_total [of ?ts] tags_total by auto
  have made: "\<exists>m. bindr (msg_create p tx []) (\<lambda>msg. bindr (msg_append msg tags) (\<lambda>msg. msg_vappend msg vl)) =
      Inr m \<and> msg_holds m (tags @ vl) \<and> msg_priority m = p" for p tx
  proof -
    obtain m0 where m0: "msg_create p tx [] = Inr m0" "msg_holds m0 []" "msg_priority m0 = p"
      using msg_vcreate_small [of "[]" p tx] by (auto simp: msg_create_def msg_holds_def)
    obtain m1 where m1: "msg_vappend m0 tags = Inr m1" "msg_holds m1 tags" "msg_priority m1 = p"
      using append_small [OF m0(2), of tags] tags(2) m0(3) by auto
    obtain m2 where "msg_vappend m1 vl = Inr m2" "msg_holds m2 (tags @ vl)" "msg_priority m2 = p"
      using append_small [OF m1(2), of vl] tags(2) m1(3) assms by auto
    then show ?thesis using m0 m1 by (simp add: msg_append_def)
  qed
  have send: "\<exists>e'. bindr (msg_create p tx []) (\<lambda>msg. bindr (eval_tags ?ts) (\<lambda>tags.
        bindr (msg_append msg tags) (\<lambda>msg. bindr (msg_vappend msg vl) (\<lambda>msg.
        bindr (lg_message (rp_log P) msg e1) (\<lambda>e. Inr (s\<lparr>rs_env := e\<rparr>)))))) =
      Inr (s\<lparr>rs_env := e'\<rparr>) \<and> obs e' = obs e1" if ok: "priority_ok p" for p tx s
  proof -
    obtain m where m: "bindr (msg_create p tx []) (\<lambda>msg. bindr (msg_append msg tags) (\<lambda>msg. msg_vappend msg vl)) =
        Inr m" "msg_holds m (tags @ vl)" "msg_priority m = p"
      using made by blast
    obtain e2 where "lg_message (rp_log P) m e1 = Inr e2" "obs e2 = obs e1"
      using message_total [OF _ m(2), of e1] m(3) ok by auto
    then show ?thesis using m(1) tags(1)
      by (intro exI [of _ e2]) (auto simp: res_simps)
  qed
  have lvl: "priority_ok LOG_DEBUG" "priority_ok LOG_ERR" by (simp_all add: priority_ok_def)
  show ?thesis
  proof (cases "(c \<and> lg_max (rp_log P) \<ge> LOG_DEBUG) \<or> (\<not> c \<and> lg_max (rp_log P) \<ge> LOG_ERR)")
    case False
    then show ?thesis using e1
      by (intro exI [of _ e1]) (auto simp: tinu_test_assert_def Let_def)
  next
    case True
    show ?thesis
    proof (cases c)
      case c: True
      obtain e2 where "bindr (msg_create LOG_DEBUG ''Assertion passed'' []) (\<lambda>msg. bindr (eval_tags ?ts) (\<lambda>tags.
        bindr (msg_append msg tags) (\<lambda>msg. bindr (msg_vappend msg vl) (\<lambda>msg.
        bindr (lg_message (rp_log P) msg e1) (\<lambda>e. Inr ((st\<lparr>rs_env := e1\<rparr>)\<lparr>rs_env := e\<rparr>)))))) =
          Inr ((st\<lparr>rs_env := e1\<rparr>)\<lparr>rs_env := e2\<rparr>)" "obs e2 = obs e1"
        using send [OF lvl(1), of "''Assertion passed''" "st\<lparr>rs_env := e1\<rparr>"] by blast
      then show ?thesis using e1 True c
        by (intro exI [of _ e2]) (simp add: tinu_test_assert_def Let_def)
    next
      case c: False
      let ?s = "st\<lparr>rs_env := e1, rs_result := TEST_FAILED\<rparr>"
      obtain e2 where "bindr (msg_create LOG_ERR ''Assertion failed'' []) (\<lambda>msg. bindr (eval_tags ?ts) (\<lambda>tags.
        bindr (msg_append msg tags) (\<lambda>msg. bindr (msg_vappend msg vl) (\<lambda>msg.
        bindr (lg_message (rp_log P) msg e1) (\<lambda>e. Inr (?s\<lparr>rs_env := e\<rparr>)))))) =
          Inr (?s\<lparr>rs_env := e2\<rparr>)" "obs e2 = obs e1"
        using send [OF lvl(2), of "''Assertion failed''" ?s] by blast
      then show ?thesis using e1 True c
        by (intro exI [of _ e2]) (simp add: tinu_test_assert_def Let_def)
    qed
  qed
qed

lemma backtrace_quiet:
  "\<exists>b e'. backtrace_create (rp_log P) (rp_frames P) skip e = Inr (Some b, e') \<and> obs e' = obs e \<and>
     list_all (resolves (rp_symbols P)) (bt_symbols b)"
proof -
  obtain fs where fs: "rp_frames P = Some fs" "list_all (resolves (rp_symbols P)) fs"
    using frames_known by blast
  have depth: "\<not> MAX_DEPTH < unat (of_nat MAX_DEPTH :: 32 word)" by simp
  obtain tags where tags: "depth_tags (of_nat MAX_DEPTH) skip = Inr tags" "length tags = 2"
    using eval_tags_total [of "[msg_tag_int ''depth'' (of_nat MAX_DEPTH), msg_tag_int ''skip'' skip]"]
      tag_int_total by (auto simp: depth_tags_def)
  have w: "priority_ok LOG_WARNING" by (simp add: priority_ok_def)
  obtain e' where e': "lg_macro (rp_log P) LOG_WARNING ''Backtrace empty'' (Inr tags) e = Inr e'" "obs e' = obs e"
    using macro_total [OF w, of tags "''Backtrace empty''" e] tags(2) by auto
  show ?thesis
  proof (cases "length fs \<le> unat skip")
    case True
    then show ?thesis using fs tags(1) e' depth
      by (simp add: backtrace_create_def backtrace_create_depth_def)
  next
    case False
    then show ?thesis using fs depth
      by (auto simp: backtrace_create_def backtrace_create_depth_def list_all_iff dest: in_set_dropD)
  qed
qed

lemma dump_quiet:
  assumes "list_all (resolves (rp_symbols P)) (bt_symbols b)" and "priority_ok pri"
  shows "\<exists>e'. backtrace_dump_log (rp_symbols P) (rp_log P) b prefix pri e = Inr e' \<and> obs e' = obs e"
proof -
  have one: "\<exists>e'. dump_log_callback (rp_symbols P) (rp_log P) pri prefix en e = Inr e' \<and> obs e' = obs e"
    for en e
  proof (cases en)
    case None
    obtain tags where "eval_tags [msg_tag_str ''error'' (Some ''invalid frame'')] = Inr tags" "length tags = 1"
      using eval_tags_total [of "[msg_tag_str ''error'' (Some ''invalid frame'')]"] tag_str_total by auto
    then show ?thesis
      using format_total [OF assms(2), of tags prefix e] None by (simp add: dump_log_callback_def del: eval_tags.simps)
  next
    case (Some entry)
    obtain found where f: "backtrace_resolv_lines (rp_symbols P) entry = Inr found"
      using lines_known by blast
    let ?ts = "[msg_tag_str ''function'' (Some (be_function entry)), msg_tag_str ''file'' (Some (be_file entry)),
        msg_tag_hex ''offset'' (ucast (be_offset entry)), msg_tag_ptr ''ptr'' (be_ptr entry),
        msg_tag_printf ''location'' ''%s:%d''
          [PStr (map_option fst found), PInt (case found of None \<Rightarrow> 0 | Some (_, n) \<Rightarrow> n)]]"
    have "list_all (\<lambda>t. \<exists>x. t = Inr x) ?ts" using tags_total by simp
    then obtain tags where "eval_tags ?ts = Inr tags" "length tags = 5"
      using eval_tags_total [of ?ts] by auto
    then show ?thesis
      using format_total [OF assms(2), of tags prefix e] Some f
      by (simp add: dump_log_callback_def del: eval_tags.simps)
  qed
  have "\<exists>e'. fold_res (dump_log_callback (rp_symbols P) (rp_log P) pri prefix) ens e = Inr e' \<and> obs e' = obs e"
    for ens
  proof (induction ens arbitrary: e)
    case (Cons en ens)
    obtain e1 where e1: "dump_log_callback (rp_symbols P) (rp_log P) pri prefix en e = Inr e1" "obs e1 = obs e"
      using one by blast
    from Cons.IH [of e1] e1 show ?case by auto
  qed simp
  then show ?thesis by (simp add: backtrace_dump_log_def backtrace_dump_frames [OF assms(1)])
qed

end

context test_observer
begin

lemma signal_seen:
  assumes case_: "rs_case st = Some (sn, tn)"
    and fit: "fits (if ab then Ev_signal_abort else Ev_signal_segfault) (obs (rs_env st))"
  shows "\<exists>e' cs. signal_handler P ctx ab st =
             Inr (st\<lparr>rs_env := e', rs_cores := cs, rs_result := (if ab then TEST_ABORT else TEST_SEGFAULT)\<rparr>) \<and>
           obs e' = seen (if ab then Ev_signal_abort else Ev_signal_segfault) (obs (rs_env st))"
proof -
  obtain cs where cs: "(if rp_coredumper P
        then bindr (core_file_name (m_core_dir ctx) sn tn) (\<lambda>f. Inr (st\<lparr>rs_cores := rs_cores st @ [f]\<rparr>))
        else Inr st) = Inr (st\<lparr>rs_cores := cs\<rparr>)"
  proof (cases "rp_coredumper P")
    case True
    obtain f where "core_file_name (m_core_dir ctx) sn tn = Inr f" using core_file_name_total by blast
    then show thesis using True by (intro that [of "rs_cores st @ [f]"]) simp
  next
    case False
    then show thesis by (intro that [of "rs_cores st"]) simp
  qed
  obtain b e1 where b: "backtrace_create (rp_log P) (rp_frames P) 3 (rs_env st) = Inr (Some b, e1)"
      "obs e1 = obs (rs_env st)" "list_all (resolves (rp_symbols P)) (bt_symbols b)"
    using backtrace_quiet by blast
  let ?ts = "[msg_tag_int ''signal'' (if ab then 6 else 11),
      msg_tag_str ''suite'' (Some sn), msg_tag_str ''test'' (Some tn)]"
  have lvl: "priority_ok LOG_ERR" by (simp add: priority_ok_def)
  have "list_all (\<lambda>t. \<exists>x. t = Inr x) ?ts" using tags_total by simp
  then obtain tags where tags: "eval_tags ?ts = Inr tags" "length tags \<le> 29"
    using eval_tags_total [of ?ts] by auto
  obtain e2 where e2: "log_macro P LOG_ERR ''Signal received while running a test'' ?ts
      (st\<lparr>rs_cores := cs, rs_env := e1\<rparr>) = Inr (st\<lparr>rs_cores := cs, rs_env := e2\<rparr>)" "obs e2 = obs e1"
    using log_macro_quiet [OF lvl tags, of "''Signal received while running a test''"
        "st\<lparr>rs_cores := cs, rs_env := e1\<rparr>"] by auto
  obtain e3 where e3: "backtrace_dump_log (rp_symbols P) (rp_log P) b ''    '' LOG_ERR e2 = Inr e3" "obs e3 = obs e2"
    using dump_quiet [OF b(3) lvl] by blast
  obtain e4 where e4: "run_hooks P ctx (if ab then Ev_signal_abort else Ev_signal_segfault)
      (st\<lparr>rs_cores := cs, rs_env := e3\<rparr>) = Inr (st\<lparr>rs_cores := cs, rs_env := e4\<rparr>)"
      "obs e4 = seen (if ab then Ev_signal_abort else Ev_signal_segfault) (obs e3)"
    using run_hooks_note [of "if ab then Ev_signal_abort else Ev_signal_segfault"
        "st\<lparr>rs_cores := cs, rs_env := e3\<rparr>"] fit b(2) e2(2) e3(2) by auto
  have "signal_handler P ctx ab st =
      Inr (st\<lparr>rs_env := e4, rs_cores := cs, rs_result := (if ab then TEST_ABORT else TEST_SEGFAULT)\<rparr>)"
    unfolding signal_handler_def case_ option.case prod.case cs
    using b(1) e2(1) e3(1) e4(1) by simp
  then show ?thesis using b(2) e2(2) e3(2) e4(2) by (intro exI [of _ e4] exI [of _ cs]) simp
qed

text \<open>The state between two actions: only the environment, the result and the cores differ.\<close>

lemma run_acts_seen:
  assumes "rs_case st \<noteq> None" and "libc_hooks (rs_lw st) \<noteq> all_hooks HOwn" and "list_all act_ok as"
    and "list_ex is_fatal as \<Longrightarrow> rs_segv st = SIG_OURS \<and> rs_abrt st = SIG_OURS"
    and "accepts fits seen (acts_events as) (obs (rs_env st))"
  shows "\<exists>e' cs. run_acts P ctx as st =
             Inr (st\<lparr>rs_env := e', rs_cores := cs, rs_result := fst (acts_outcome as (rs_result st))\<rparr>,
                  if snd (acts_outcome as (rs_result st)) then Some () else None) \<and>
           obs e' = fold seen (acts_events as) (obs (rs_env st))"
  using assms
proof (induction as arbitrary: st)
  case Nil
  show ?case by (intro exI [of _ "rs_env st"] exI [of _ "rs_cores st"]) simp
next
  case (Cons a as)
  have fatal: "list_ex is_fatal as \<Longrightarrow> rs_segv st = SIG_OURS \<and> rs_abrt st = SIG_OURS"
    using Cons.prems(4) by simp
  show ?case
  proof (cases a)
    case (UAssert c ty ct fl func line tags)
    obtain e1 where e1: "tinu_test_assert P ctx c ty ct fl func line tags st =
        Inr (c, st\<lparr>rs_result := (if c then rs_result st else TEST_FAILED), rs_env := e1\<rparr>)"
        "obs e1 = seen (Ev_assert c fl func line) (obs (rs_env st))"
      using assert_seen [of tags c fl func line st ty ct] Cons.prems(3,5) UAssert by auto
    define s where "s = st\<lparr>rs_result := (if c then rs_result st else TEST_FAILED), rs_env := e1\<rparr>"
    obtain e2 cs2 where "run_acts P ctx as s =
          Inr (s\<lparr>rs_env := e2, rs_cores := cs2, rs_result := fst (acts_outcome as (rs_result s))\<rparr>,
               if snd (acts_outcome as (rs_result s)) then Some () else None)"
        "obs e2 = fold seen (acts_events as) (obs (rs_env s))"
      using Cons.IH [of s] Cons.prems fatal e1(2) UAssert by (auto simp: s_def)
    then show ?thesis using e1 UAssert
      by (intro exI [of _ e2] exI [of _ cs2]) (simp add: s_def)
  next
    case (ULog pri tx tags)
    obtain e1 where e1: "log_plain P pri tx (Inr tags) st = Inr (st\<lparr>rs_env := e1\<rparr>)" "obs e1 = obs (rs_env st)"
      using log_plain_quiet [of pri "Inr tags" tags tx st] Cons.prems(3) ULog by auto
    define s where "s = st\<lparr>rs_env := e1\<rparr>"
    obtain e2 cs2 where "run_acts P ctx as s =
          Inr (s\<lparr>rs_env := e2, rs_cores := cs2, rs_result := fst (acts_outcome as (rs_result s))\<rparr>,
               if snd (acts_outcome as (rs_result s)) then Some () else None)"
        "obs e2 = fold seen (acts_events as) (obs (rs_env s))"
      using Cons.IH [of s] Cons.prems fatal e1(2) ULog by (auto simp: s_def)
    then show ?thesis using e1 ULog
      by (intro exI [of _ e2] exI [of _ cs2]) (simp add: s_def)
  next
    case (UMem ev)
    then show ?thesis using Cons.IH [of st] Cons.prems fatal by (simp add: run_mem_def)
  next
    case UAbort
    obtain sn tn where "rs_case st = Some (sn, tn)" using Cons.prems(1) by auto
    from signal_seen [OF this, of True] Cons.prems(5) UAbort obtain e' cs where
        "signal_handler P ctx True st = Inr (st\<lparr>rs_env := e', rs_cores := cs, rs_result := TEST_ABORT\<rparr>)"
        "obs e' = seen Ev_signal_abort (obs (rs_env st))" by auto
    then show ?thesis using Cons.prems(4) UAbort
      by (intro exI [of _ e'] exI [of _ cs]) (simp add: raise_signal_def is_fatal_def)
  next
    case USegv
    obtain sn tn where "rs_case st = Some (sn, tn)" using Cons.prems(1) by auto
    from signal_seen [OF this, of False] Cons.prems(5) USegv obtain e' cs where
        "signal_handler P ctx False st = Inr (st\<lparr>rs_env := e', rs_cores := cs, rs_result := TEST_SEGFAULT\<rparr>)"
        "obs e' = seen Ev_signal_segfault (obs (rs_env st))" by auto
    then show ?thesis using Cons.prems(4) USegv
      by (intro exI [of _ e'] exI [of _ cs]) (simp add: raise_signal_def is_fatal_def)
  qed
qed

end

lemma outcome_unfinished: "\<not> snd (acts_outcome as r) \<Longrightarrow> fst (acts_outcome as r) \<in> {TEST_ABORT, TEST_SEGFAULT}"
  by (induction as r rule: acts_outcome.induct) auto

lemma expected_result_not_none: "expected_result P test \<noteq> TEST_NONE"
  by (simp add: expected_result_def Let_def)

lemma not_fatal_finishes: "\<not> list_ex is_fatal as \<Longrightarrow> snd (acts_outcome as r)"
  by (induction as r rule: acts_outcome.induct) (auto simp: is_fatal_def)

text \<open>What a run leaves unchanged, up to the stack a run without signal handling loses.\<close>

definition same_rest :: "nat \<Rightarrow> 'e run_state \<Rightarrow> 'e run_state \<Rightarrow> bool" where
  "same_rest n st st' \<longleftrightarrow> rs_lw st' = rs_lw st \<and> rs_segv st' = rs_segv st \<and>
     rs_abrt st' = rs_abrt st \<and> rs_stacks st' = rs_stacks st + n"

context test_observer
begin

lemma run_intern_seen:
  assumes ok: "test_ok P ctx test" and lw: "libc_hooks (rs_lw st) \<noteq> all_hooks HOwn"
    and sig: "m_sighandle ctx \<Longrightarrow> rs_segv st = SIG_OURS \<and> rs_abrt st = SIG_OURS"
    and none: "rs_result st = TEST_NONE"
    and acc: "accepts fits seen (Ev_before_test test # acts_events (test_acts P test)) (obs (rs_env st))"
  shows "\<exists>e' cs. test_case_run_intern P ctx test st =
             Inr (st\<lparr>rs_case := Some (tc_suite test, tc_name test), rs_env := e', rs_cores := cs,
                    rs_result := expected_result P test\<rparr>,
                  if snd (acts_outcome (test_acts P test) TEST_NONE) then Some () else None) \<and>
           obs e' = fold seen (acts_events (test_acts P test)) (seen (Ev_before_test test) (obs (rs_env st)))"
proof -
  let ?as = "test_acts P test"
  define s0 where "s0 = st\<lparr>rs_case := Some (tc_suite test, tc_name test)\<rparr>"
  obtain e1 where e1: "run_hooks P ctx (Ev_before_test test) s0 = Inr (s0\<lparr>rs_env := e1\<rparr>)"
      "obs e1 = seen (Ev_before_test test) (obs (rs_env s0))"
    using run_hooks_note [of "Ev_before_test test" s0] acc by (auto simp: s0_def)
  define s1 where "s1 = s0\<lparr>rs_env := e1\<rparr>"
  have "list_all act_ok ?as" using ok by (simp add: test_ok_def)
  moreover have "list_ex is_fatal ?as \<Longrightarrow> rs_segv s1 = SIG_OURS \<and> rs_abrt s1 = SIG_OURS"
    using ok sig by (auto simp: test_ok_def s1_def s0_def)
  ultimately obtain e2 cs where e2: "run_acts P ctx ?as s1 =
        Inr (s1\<lparr>rs_env := e2, rs_cores := cs, rs_result := fst (acts_outcome ?as TEST_NONE)\<rparr>,
             if snd (acts_outcome ?as TEST_NONE) then Some () else None)"
      "obs e2 = fold seen (acts_events ?as) (obs e1)"
    using run_acts_seen [of s1 ?as] lw none acc e1(2) by (auto simp: s1_def s0_def)
  have wrap: "\<forall>p. tc_user_data test = Opaque p \<longrightarrow>
      Wrapper \<notin> set_option (tc_setup test) \<union> set_option (tc_test test) \<union> set_option (tc_cleanup test)"
    using ok by (simp add: test_ok_def)
  have "test_case_run_intern P ctx test st =
      Inr (st\<lparr>rs_case := Some (tc_suite test, tc_name test), rs_env := e2, rs_cores := cs,
              rs_result := expected_result P test\<rparr>,
           if snd (acts_outcome ?as TEST_NONE) then Some () else None)"
    unfolding run_intern_acts [OF wrap] s0_def [symmetric]
    using e1(1) e2(1) outcome_unfinished [of ?as TEST_NONE]
    by (cases "snd (acts_outcome ?as TEST_NONE)")
       (auto simp: s1_def [symmetric] expected_result_def Let_def, auto simp: s1_def s0_def)
  then show ?thesis using e1(2) e2(2)
    by (intro exI [of _ e2] exI [of _ cs]) (simp add: s0_def)
qed

lemma run_in_context_seen:
  assumes ok: "test_ok P ctx test" and lw: "libc_hooks (rs_lw st) \<noteq> all_hooks HOwn"
    and acc: "accepts fits seen (Ev_before_test test # acts_events (test_acts P test)) (obs (rs_env st))"
  shows "\<exists>st'. run_in_context P ctx test st = Inr st' \<and>
           rs_result st' = expected_result P test \<and>
           same_rest (if m_sighandle ctx then 0 else 1) st st' \<and>
           obs (rs_env st') = fold seen (acts_events (test_acts P test)) (seen (Ev_before_test test) (obs (rs_env st)))"
proof -
  define s where "s = st\<lparr>rs_stacks := Suc (rs_stacks st), rs_result := TEST_NONE\<rparr>"
  show ?thesis
  proof (cases "m_sighandle ctx")
    case True
    obtain e' cs where "test_case_run_intern P ctx test (signal_on s) =
        Inr ((signal_on s)\<lparr>rs_case := Some (tc_suite test, tc_name test), rs_env := e', rs_cores := cs,
              rs_result := expected_result P test\<rparr>,
             if snd (acts_outcome (test_acts P test) TEST_NONE) then Some () else None)"
        "obs e' = fold seen (acts_events (test_acts P test)) (seen (Ev_before_test test) (obs (rs_env st)))"
      using run_intern_seen [OF ok, of "signal_on s"] lw acc by (auto simp: signal_on_def s_def)
    then show ?thesis using True contexts_work
      by (simp add: run_in_context_def Let_def s_def signal_off_def signal_on_def same_rest_def)
  next
    case False
    obtain e' cs where "test_case_run_intern P ctx test s =
        Inr (s\<lparr>rs_case := Some (tc_suite test, tc_name test), rs_env := e', rs_cores := cs,
              rs_result := expected_result P test\<rparr>,
             if snd (acts_outcome (test_acts P test) TEST_NONE) then Some () else None)"
        "obs e' = fold seen (acts_events (test_acts P test)) (seen (Ev_before_test test) (obs (rs_env st)))"
      using run_intern_seen [OF ok, of s] lw False acc by (auto simp: s_def)
    moreover have "snd (acts_outcome (test_acts P test) TEST_NONE)"
      using ok False not_fatal_finishes by (auto simp: test_ok_def)
    ultimately show ?thesis using False
      by (simp add: run_in_context_def Let_def s_def same_rest_def)
  qed
qed

lemma log_result_quiet:
  assumes "rs_result st \<noteq> TEST_NONE"
  shows "\<exists>e'. log_result P test st = Inr (st\<lparr>rs_env := e'\<rparr>) \<and> obs e' = obs (rs_env st)"
proof -
  let ?ts = "[msg_tag_str ''case'' (Some (tc_name test)), msg_tag_str ''suite'' (Some (tc_suite test))]"
  have "list_all (\<lambda>t. \<exists>x. t = Inr x) ?ts" using tags_total by simp
  then obtain tags where tags: "eval_tags ?ts = Inr tags" "length tags \<le> 29"
    using eval_tags_total [of ?ts] by auto
  have q: "\<exists>e'. log_macro P pri tx ?ts st = Inr (st\<lparr>rs_env := e'\<rparr>) \<and> obs e' = obs (rs_env st)"
    if "priority_ok pri" for pri tx using log_macro_quiet [OF that tags] .
  show ?thesis using assms q
    by (cases "rs_result st") (simp_all add: log_result_def Let_def priority_ok_def)
qed

lemma run_single_seen:
  assumes ok: "test_ok P ctx test" and lw: "libc_hooks (rs_lw st) \<noteq> all_hooks HOwn"
    and acc: "accepts fits seen (expected_events P test) (obs (rs_env st))"
  shows "\<exists>st'. test_case_run_single_test P ctx test st = Inr (expected_result P test, st') \<and>
           same_rest (if m_sighandle ctx then 0 else 1) st st' \<and>
           obs (rs_env st') = fold seen (expected_events P test) (obs (rs_env st))"
proof -
  let ?ev = "acts_events (test_acts P test)"
  obtain s1 where s1: "run_in_context P ctx test st = Inr s1" "rs_result s1 = expected_result P test"
      "same_rest (if m_sighandle ctx then 0 else 1) st s1"
      "obs (rs_env s1) = fold seen ?ev (seen (Ev_before_test test) (obs (rs_env st)))"
    using run_in_context_seen [OF ok lw] acc by (auto simp: expected_events_def)
  obtain e2 where e2: "log_result P test s1 = Inr (s1\<lparr>rs_env := e2\<rparr>)" "obs e2 = obs (rs_env s1)"
    using log_result_quiet [of s1 test] s1(2) expected_result_not_none [of P test] by auto
  obtain e3 where e3: "run_hooks P ctx (Ev_after_test test (expected_result P test)) (s1\<lparr>rs_env := e2\<rparr>) =
      Inr (s1\<lparr>rs_env := e3\<rparr>)" "obs e3 = seen (Ev_after_test test (expected_result P test)) (obs e2)"
    using run_hooks_note [of "Ev_after_test test (expected_result P test)" "s1\<lparr>rs_env := e2\<rparr>"]
      acc s1(4) e2(2) by (auto simp: expected_events_def)
  have "test_case_run_single_test P ctx test st = Inr (expected_result P test, s1\<lparr>rs_env := e3\<rparr>)"
    using s1(1,2) e2(1) e3(1) no_leakwatch by (simp add: test_case_run_single_test_def)
  moreover have "same_rest (if m_sighandle ctx then 0 else 1) st (s1\<lparr>rs_env := e3\<rparr>)"
    using s1(3) by (simp add: same_rest_def)
  moreover have "obs e3 = fold seen (expected_events P test) (obs (rs_env st))"
    using s1(4) e2(2) e3(2) by (simp add: expected_events_def)
  ultimately show ?thesis by (intro exI [of _ "s1\<lparr>rs_env := e3\<rparr>"]) simp
qed

lemma run_tests_seen:
  assumes "list_all (test_ok P ctx) tests" and lw: "libc_hooks (rs_lw st) \<noteq> all_hooks HOwn"
    and "accepts fits seen (concat (map (expected_events P) tests)) (obs (rs_env st))"
  shows "\<exists>st'. fold_res (suite_step P ctx) tests (res, st) =
             Inr (res \<and> list_all (\<lambda>t. expected_result P t = TEST_PASSED) tests, st') \<and>
           same_rest (if m_sighandle ctx then 0 else length tests) st st' \<and>
           obs (rs_env st') = fold seen (concat (map (expected_events P) tests)) (obs (rs_env st))"
  using assms
proof (induction tests arbitrary: res st)
  case Nil
  show ?case by (simp add: same_rest_def)
next
  case (Cons t tests)
  obtain s1 where s1: "test_case_run_single_test P ctx t st = Inr (expected_result P t, s1)"
      "same_rest (if m_sighandle ctx then 0 else 1) st s1"
      "obs (rs_env s1) = fold seen (expected_events P t) (obs (rs_env st))"
    using run_single_seen [of t st] Cons.prems by auto
  have "libc_hooks (rs_lw s1) \<noteq> all_hooks HOwn" using s1(2) Cons.prems(2) by (simp add: same_rest_def)
  from Cons.IH [OF _ this, of "res \<and> TEST_PASSED = expected_result P t"] Cons.prems(1,3) s1(3)
  obtain st' where st': "fold_res (suite_step P ctx) tests (res \<and> TEST_PASSED = expected_result P t, s1) =
        Inr ((res \<and> TEST_PASSED = expected_result P t) \<and> list_all (\<lambda>t. expected_result P t = TEST_PASSED) tests, st')"
      "same_rest (if m_sighandle ctx then 0 else length tests) s1 st'"
      "obs (rs_env st') = fold seen (concat (map (expected_events P) tests)) (obs (rs_env s1))"
    by auto
  moreover have "suite_step P ctx t (res, st) = Inr (res \<and> TEST_PASSED = expected_result P t, s1)"
    using s1(1) by (simp add: suite_step_def)
  ultimately show ?case using s1 by (intro exI [of _ st']) (auto simp: same_rest_def)
qed

lemma run_suite_seen:
  assumes "list_all (test_ok P ctx) (su_tests suite)" and lw: "libc_hooks (rs_lw st) \<noteq> all_hooks HOwn"
    and acc: "accepts fits seen (suite_events P suite) (obs (rs_env st))"
  shows "\<exists>st'. test_suite_run P ctx suite None st = Inr (suite_passed P suite, st') \<and>
           same_rest (if m_sighandle ctx then 0 else length (su_tests suite)) st st' \<and>
           obs (rs_env st') = fold seen (suite_events P suite) (obs (rs_env st))"
proof -
  obtain e1 where e1: "run_hooks P ctx (Ev_before_suite suite) st = Inr (st\<lparr>rs_env := e1\<rparr>)"
      "obs e1 = seen (Ev_before_suite suite) (obs (rs_env st))"
    using run_hooks_note [of "Ev_before_suite suite" st] acc by (auto simp: suite_events_def)
  obtain s2 where s2: "fold_res (suite_step P ctx) (su_tests suite) (True, st\<lparr>rs_env := e1\<rparr>) =
        Inr (suite_passed P suite, s2)"
      "same_rest (if m_sighandle ctx then 0 else length (su_tests suite)) st s2"
      "obs (rs_env s2) = fold seen (concat (map (expected_events P) (su_tests suite))) (obs e1)"
    using run_tests_seen [OF assms(1), of "st\<lparr>rs_env := e1\<rparr>" True] lw acc e1(2)
    by (auto simp: suite_passed_def same_rest_def suite_events_def)
  let ?p = "suite_passed P suite"
  let ?ts = "[msg_tag_str ''suite'' (Some (su_name suite)), msg_tag_bool ''result'' ?p]"
  have "list_all (\<lambda>t. \<exists>x. t = Inr x) ?ts" using tags_total by simp
  then obtain tags where tags: "eval_tags ?ts = Inr tags" "length tags \<le> 29"
    using eval_tags_total [of ?ts] by auto
  have lvl: "priority_ok (if ?p then LOG_DEBUG else LOG_WARNING)" by (simp add: priority_ok_def)
  obtain e3 where e3: "log_plain P (if ?p then LOG_DEBUG else LOG_WARNING) ''Test suite run complete''
      (eval_tags ?ts) s2 = Inr (s2\<lparr>rs_env := e3\<rparr>)" "obs e3 = obs (rs_env s2)"
    using log_plain_quiet [OF lvl tags, of "''Test suite run complete''" s2] by blast
  obtain e4 where e4: "run_hooks P ctx (Ev_after_suite suite ?p) (s2\<lparr>rs_env := e3\<rparr>) = Inr (s2\<lparr>rs_env := e4\<rparr>)"
      "obs e4 = seen (Ev_after_suite suite ?p) (obs e3)"
    using run_hooks_note [of "Ev_after_suite suite ?p" "s2\<lparr>rs_env := e3\<rparr>"] acc e1(2) s2(3) e3(2)
    by (auto simp: suite_events_def)
  have "test_suite_run P ctx suite None st = Inr (?p, s2\<lparr>rs_env := e4\<rparr>)"
    unfolding test_suite_run_def using e1(1) s2(1) e3(1) e4(1) by simp
  then show ?thesis using e1(2) s2 e3(2) e4(2)
    by (intro exI [of _ "s2\<lparr>rs_env := e4\<rparr>"]) (simp add: same_rest_def suite_events_def)
qed

lemma run_all_seen:
  assumes "list_all (\<lambda>s. list_all (test_ok P ctx) (su_tests s)) suites"
    and lw: "libc_hooks (rs_lw st) \<noteq> all_hooks HOwn"
    and "accepts fits seen (concat (map (suite_events P) suites)) (obs (rs_env st))"
  shows "\<exists>st'. fold_res (\<lambda>suite (res, st).
             bindr (test_suite_run P ctx suite None st) (\<lambda>(suite_res, st). Inr (res \<and> suite_res, st)))
           suites (res, st) = Inr (res \<and> list_all (suite_passed P) suites, st') \<and>
           same_rest (if m_sighandle ctx then 0 else sum_list (map (\<lambda>s. length (su_tests s)) suites)) st st' \<and>
           obs (rs_env st') = fold seen (concat (map (suite_events P) suites)) (obs (rs_env st))"
  using assms
proof (induction suites arbitrary: res st)
  case Nil
  show ?case by (simp add: same_rest_def)
next
  case (Cons s suites)
  obtain s1 where s1: "test_suite_run P ctx s None st = Inr (suite_passed P s, s1)"
      "same_rest (if m_sighandle ctx then 0 else length (su_tests s)) st s1"
      "obs (rs_env s1) = fold seen (suite_events P s) (obs (rs_env st))"
    using run_suite_seen [of s st] Cons.prems by auto
  have "libc_hooks (rs_lw s1) \<noteq> all_hooks HOwn" using s1(2) Cons.prems(2) by (simp add: same_rest_def)
  moreover have "accepts fits seen (concat (map (suite_events P) suites)) (obs (rs_env s1))"
    using Cons.prems(3) s1(3) by simp
  ultimately obtain st' where "fold_res (\<lambda>suite (res, st).
           bindr (test_suite_run P ctx suite None st) (\<lambda>(suite_res, st). Inr (res \<and> suite_res, st)))
         suites (res \<and> suite_passed P s, s1) =
        Inr ((res \<and> suite_passed P s) \<and> list_all (suite_passed P) suites, st')"
      "same_rest (if m_sighandle ctx then 0 else sum_list (map (\<lambda>s. length (su_tests s)) suites)) s1 st'"
      "obs (rs_env st') = fold seen (concat (map (suite_events P) suites)) (obs (rs_env s1))"
    using Cons.IH [of s1 "res \<and> suite_passed P s"] Cons.prems(1) by auto
  then show ?case using s1 by (intro exI [of _ st']) (auto simp: same_rest_def)
qed

end

section \<open>Hooks that record their events\<close>

text \<open>
  One recording hook registered for \<open>TEST_HOOK_ALL\<close>, the logger of \<open>tinu_main\<close>, no
  frames: an instance of the interface for every program of user functions.
\<close>

definition record_hook :: "unit \<Rightarrow> 'f hook_event \<Rightarrow> ptr \<Rightarrow> 'f hook_event list \<times> io \<Rightarrow> ('f hook_event list \<times> io) res" where
  "record_hook k ev ud = (\<lambda>(evs, io). Inr (evs @ [ev], io))"

definition record_store :: "unit hook_store" where
  "record_store =
     (case test_register_hook hooks_init TEST_HOOK_ALL (Some ()) NULL of
        Inl _ \<Rightarrow> hooks_init | Inr hs \<Rightarrow> hs)"

definition record_context :: "bool \<Rightarrow> 'f test_suite list \<Rightarrow> ('f, unit) test_context" where
  "record_context sighandle suites =
     (test_context_init sighandle False None)\<lparr>m_suites := suites, tx_hooks := record_store\<rparr>"

definition record_params ::
  "('f \<Rightarrow> ptr \<Rightarrow> user_act list \<times> ptr) \<Rightarrow> int \<Rightarrow> ('f, unit, 'f hook_event list \<times> io) run_params" where
  "record_params prog priority =
     \<lparr>rp_log = main_logger (\<lambda>(_ :: unit) _ _ _. Inl WildPtr) False priority, rp_hook = record_hook,
      rp_prog = prog, rp_symbols = one_symbol, rp_frames = Some [], rp_getcontext = True,
      rp_swapcontext = True, rp_errno = (0, ''Success''), rp_coredumper = False\<rparr>"

lemma record_store_runs:
  assumes "j < TEST_HOOK_MAX"
  shows "test_run_hooks call record_store j e = call () NULL e"
proof -
  have "hook_id_ok TEST_HOOK_ALL" by (simp add: hook_id_ok_def)
  from register_hold [OF hooks_hold_init this, of "Some ()" NULL]
  obtain hs yss where hs: "test_register_hook hooks_init TEST_HOOK_ALL (Some ()) NULL = Inr hs"
      "hooks_hold hs yss" "\<forall>j < TEST_HOOK_MAX. yss ! j = replicate TEST_HOOK_MAX [] ! j @
         (if covers TEST_HOOK_ALL j then [\<lparr>he_hook = Some (), he_user_data = NULL\<rparr>] else [])"
    by blast
  have "yss ! j = [\<lparr>he_hook = Some (), he_user_data = NULL\<rparr>]"
    using hs(3) [rule_format, OF assms] assms by (simp add: covers_def nth_replicate)
  then have "test_run_hooks call hs j e = (case call () NULL e of Inl r \<Rightarrow> Inl r | Inr s \<Rightarrow> Inr s)"
    using run_hooks_hold [OF hs(2) assms, of call e] by (simp add: hook_body_def split: sum.splits)
  then show ?thesis using hs(1) by (simp add: record_store_def split: sum.splits)
qed

lemma hook_event_id_less: "hook_event_id ev < TEST_HOOK_MAX"
  by (cases ev) simp_all

interpretation recorder: test_observer "record_params prog priority" fst "record_context sighandle suites"
  "\<lambda>ev evs. evs @ [ev]" "\<lambda>_ _. True"
proof -
  have lg: "rp_log (record_params prog priority) = main_logger (\<lambda>(_ :: unit) _ _ _. Inl WildPtr) False priority"
    by (simp add: record_params_def)
  show "test_observer (record_params prog priority) fst (record_context sighandle suites) (\<lambda>ev evs. evs @ [ev])
      (\<lambda>_ _. True)"
    unfolding test_observer_def
  proof
    show "total_logger (rp_log (record_params prog priority)) fst"
      unfolding lg by (rule main_log.total_logger_axioms)
    show "test_observer_axioms (record_params prog priority) fst (record_context sighandle suites) (\<lambda>ev evs. evs @ [ev])
        (\<lambda>_ _. True)"
    proof
      show "\<exists>e'. test_run_hooks (\<lambda>k. rp_hook (record_params prog priority) k ev)
              (tx_hooks (record_context sighandle suites)) (hook_event_id ev) e = Inr e' \<and>
            fst e' = fst e @ [ev]" for ev :: "'a hook_event" and e
        by (cases e) (simp add: record_context_def record_params_def record_hook_def
            record_store_runs [OF hook_event_id_less])
      show "\<exists>found. backtrace_resolv_lines (rp_symbols (record_params prog priority)) entry = Inr found" for entry
        by (simp add: record_params_def one_symbol_def backtrace_resolv_lines_def)
    qed (simp_all add: record_params_def record_context_def test_context_init_def)
  qed
qed

section \<open>Properties\<close>


definition sample_prog :: "nat \<Rightarrow> ptr \<Rightarrow> user_act list \<times> ptr" where
  "sample_prog f arg =
     (if f = 0 then ([], 77)
      else if f = 1 then ([UAssert True ''positive'' ''1'' ''a.c'' ''f'' 3 []], NULL)
      else if f = 2 then ([UAssert False ''positive'' ''0'' ''a.c'' ''g'' 4 []], NULL)
      else ([UAssert False ''positive'' ''0'' ''a.c'' ''h'' 5 [], USegv, UAbort], NULL))"

definition sample_test :: "string \<Rightarrow> nat \<Rightarrow> nat test_case" where
  "sample_test name f =
     \<lparr>tc_suite = ''s'', tc_name = name, tc_setup = Some (Ext 0), tc_cleanup = None,
      tc_test = Some (Ext f), tc_user_data = Opaque NULL, tc_user_data_cleanup = None\<rparr>"

definition start_state :: "'e \<Rightarrow> 'e run_state" where
  "start_state e =
     \<lparr>rs_env = e, rs_result = TEST_NONE, rs_case = None, rs_segv = SIG_DFL, rs_abrt = SIG_DFL,
      rs_saved_segv = SIG_DFL, rs_saved_abrt = SIG_DFL, rs_lw = lw_start (all_hooks HNull),
      rs_tabs = (\<lambda>_. []), rs_traces = no_traces, rs_stacks = 0, rs_cores = []\<rparr>"

definition no_io :: io where
  "no_io = \<lparr>io_syslog = [], io_stderr = [], io_files = []\<rparr>"

lemma sample_acts:
  "test_acts (record_params sample_prog priority) (sample_test name f) = fst (sample_prog f 77)"
  by (simp add: test_acts_def fn_prog_def sample_test_def record_params_def sample_prog_def)

lemma sample_ok: "test_ok (record_params sample_prog priority) (record_context True suites) (sample_test name f)"
  unfolding test_ok_def sample_acts
  by (simp add: sample_prog_def sample_test_def record_context_def test_context_init_def)

lemma sample_results:
  "expected_result (record_params sample_prog priority) (sample_test name f) =
     (if f \<le> 1 then TEST_PASSED else if f = 2 then TEST_FAILED else TEST_SEGFAULT)"
  unfolding expected_result_def sample_acts by (simp add: sample_prog_def)

lemma start_hooks: "libc_hooks (rs_lw (start_state e)) \<noteq> all_hooks HOwn"
  by (simp add: start_state_def lw_start_def all_hooks_def)


text \<open>C9: A whole run executes every suite and every test of it, in the order of
  registration and without stopping early, and succeeds exactly when every test passes; the
  hooks see each suite bracketed by its own events, the last of which carries the suite's
  result. Again the hooks have to accept the whole sequence of events.\<close>

theorem all_run_conjunction:
  assumes "test_observer P obs ctx seen fits"
    and "list_all (\<lambda>s. list_all (test_ok P ctx) (su_tests s)) (m_suites ctx)"
    and "libc_hooks (rs_lw st) \<noteq> all_hooks HOwn"
    and "accepts fits seen (concat (map (suite_events P) (m_suites ctx))) (obs (rs_env st))"
  shows "\<exists>st'. tinu_test_all_run P ctx st = Inr (list_all (suite_passed P) (m_suites ctx), st') \<and>
           obs (rs_env st') = fold seen (concat (map (suite_events P) (m_suites ctx))) (obs (rs_env st))"
  using test_observer.run_all_seen [OF assms, of True] by (auto simp: tinu_test_all_run_def)

definition sample_suites :: "nat test_suite list" where
  "sample_suites =
     [\<lparr>su_name = ''s'', su_tests = [sample_test ''x'' 2, sample_test ''y'' 1]\<rparr>,
      \<lparr>su_name = ''e'', su_tests = []\<rparr>]"

lemma all_run_conjunction_witness:
  "\<exists>st'. tinu_test_all_run (record_params sample_prog 7) (record_context True sample_suites)
       (start_state ([], no_io)) = Inr (False, st') \<and>
     length (fst (rs_env st')) = 10"
proof -
  let ?P = "record_params sample_prog 7" and ?ctx = "record_context True sample_suites"
  have s: "m_suites ?ctx = sample_suites" by (simp add: record_context_def test_context_init_def)
  have ok: "list_all (\<lambda>s. list_all (test_ok ?P ?ctx) (su_tests s)) (m_suites ?ctx)"
    unfolding s by (simp add: sample_suites_def sample_ok)
  have len: "length (expected_events ?P (sample_test n f)) = length (acts_events (fst (sample_prog f 77)) :: nat hook_event list) + 2" for n f
    unfolding expected_events_def sample_acts by simp
  have app: "fold (\<lambda>ev evs. evs @ [ev]) xs ys = ys @ xs" for xs ys :: "nat hook_event list"
    by (induction xs arbitrary: ys) simp_all
  obtain st' where st': "tinu_test_all_run ?P ?ctx (start_state ([], no_io)) =
        Inr (list_all (suite_passed ?P) sample_suites, st')"
      "fst (rs_env st') = concat (map (suite_events ?P) sample_suites)"
    using all_run_conjunction [OF recorder.test_observer_axioms ok start_hooks accepts_always, of "([], no_io)"]
    unfolding s app by (auto simp: start_state_def)
  show ?thesis
    using st' by (simp add: sample_suites_def suite_passed_def sample_results suite_events_def len)
      (simp add: sample_prog_def)
qed

end
