(* ===== verification/Statistics.thy ===== *)
theory Statistics
  imports TestOutcome
begin

text \<open>
  The statistics of a run (\<open>lib/statistics.c\<close>, \<open>lib/tinu/statistics.h\<close>): a message handler
  and a set of hooks that count. The pointers to the current suite and test are \<open>NULL\<close> or
  point at the entry appended last, so they are indices here; a test or suite is compared by
  its value instead of its address. \<open>clock n\<close> is what the \<open>n\<close>-th call of \<open>times\<close> answers.
  The theorem at the end shows that the counts of a whole run are those of its outcome.
\<close>

section \<open>Data\<close>

record 'f stat_test_info =
  st_test :: "'f test_case"
  st_result :: test_result
  st_start :: "64 word"
  st_end :: "64 word"
  st_assertions :: "32 word"
  st_assertions_passed :: "32 word"
  st_leaked_bytes :: "64 word"

record 'f stat_suite_info =
  ss_suite :: "'f test_suite"
  ss_result :: bool
  ss_start :: "64 word"
  ss_end :: "64 word"
  ss_assertions :: "32 word"
  ss_assertions_passed :: "32 word"
  ss_test_info_list :: "'f stat_test_info list"

record 'f test_statistics =
  m_log_handle :: ptr
  m_test_current :: "(nat \<times> nat) option"    \<comment> \<open>suite and test entry\<close>
  m_suite_current :: "nat option"
  m_messages :: "32 word list"
  m_sigsegv :: "32 word"
  m_passed :: "32 word"
  m_failed :: "32 word"
  m_suite_info_list :: "'f stat_suite_info list"
  stat_ticks :: nat                           \<comment> \<open>calls of \<open>times\<close> so far\<close>

definition stat_new :: "'f test_statistics" where
  "stat_new =
     \<lparr>m_log_handle = NULL, m_test_current = None, m_suite_current = None,
      m_messages = replicate 8 0, m_sigsegv = 0, m_passed = 0, m_failed = 0,
      m_suite_info_list = [], stat_ticks = 0\<rparr>"

section \<open>Access through the current pointers\<close>

definition suite_at :: "'f test_statistics \<Rightarrow> nat \<Rightarrow> 'f stat_suite_info" where
  "suite_at self i = m_suite_info_list self ! i"

definition test_at :: "'f test_statistics \<Rightarrow> nat \<times> nat \<Rightarrow> 'f stat_test_info" where
  "test_at self = (\<lambda>(i, j). ss_test_info_list (suite_at self i) ! j)"

definition upd_suite ::
  "nat \<Rightarrow> ('f stat_suite_info \<Rightarrow> 'f stat_suite_info) \<Rightarrow> 'f test_statistics \<Rightarrow> 'f test_statistics" where
  "upd_suite i f self =
     self\<lparr>m_suite_info_list := (m_suite_info_list self)[i := f (m_suite_info_list self ! i)]\<rparr>"

definition upd_test ::
  "nat \<times> nat \<Rightarrow> ('f stat_test_info \<Rightarrow> 'f stat_test_info) \<Rightarrow> 'f test_statistics \<Rightarrow> 'f test_statistics" where
  "upd_test = (\<lambda>(i, j) f.
     upd_suite i (\<lambda>s. s\<lparr>ss_test_info_list := (ss_test_info_list s)[j := f (ss_test_info_list s ! j)]\<rparr>))"

definition current_suite :: "'f test_statistics \<Rightarrow> nat res" where
  "current_suite self = lift_opt NullDeref (m_suite_current self)"

definition current_test :: "'f test_statistics \<Rightarrow> (nat \<times> nat) res" where
  "current_test self = lift_opt NullDeref (m_test_current self)"

section \<open>Hooks\<close>

definition stat_time :: "(nat \<Rightarrow> 64 word) \<Rightarrow> 'f test_statistics \<Rightarrow> 64 word \<times> 'f test_statistics" where
  "stat_time clock self = (clock (stat_ticks self), self\<lparr>stat_ticks := Suc (stat_ticks self)\<rparr>)"

definition stat_message_counter :: "message \<Rightarrow> 'f test_statistics \<Rightarrow> (bool \<times> 'f test_statistics) res" where
  "stat_message_counter msg self =
     (let p = msg_priority msg in
      if 0 \<le> p \<and> p \<le> LOG_DEBUG
      then Inr (True, self\<lparr>m_messages := (m_messages self)[nat p := m_messages self ! nat p + 1]\<rparr>)
      else Inl OutOfRange)"

definition stat_hook_assert :: "bool \<Rightarrow> 'f test_statistics \<Rightarrow> 'f test_statistics res" where
  "stat_hook_assert passed self =
     bindr (current_suite self) (\<lambda>i.
     bindr (current_test self) (\<lambda>j.
       Inr (let self = (if passed
                  then upd_test j (\<lambda>t. t\<lparr>st_assertions_passed := st_assertions_passed t + 1\<rparr>)
                         (upd_suite i (\<lambda>s. s\<lparr>ss_assertions_passed := ss_assertions_passed s + 1\<rparr>) self)
                  else self)
            in upd_test j (\<lambda>t. t\<lparr>st_assertions := st_assertions t + 1\<rparr>)
                 (upd_suite i (\<lambda>s. s\<lparr>ss_assertions := ss_assertions s + 1\<rparr>) self))))"

definition stat_hook_case_begin ::
  "(nat \<Rightarrow> 64 word) \<Rightarrow> 'f test_case \<Rightarrow> 'f test_statistics \<Rightarrow> 'f test_statistics res" where
  "stat_hook_case_begin clock test self =
     (let (now, self) = stat_time clock self;
          test_info = \<lparr>st_test = test, st_result = TEST_PASSED, st_start = now, st_end = 0,
                       st_assertions = 0, st_assertions_passed = 0, st_leaked_bytes = 0\<rparr>
      in bindr (current_suite self) (\<lambda>i.
         let self = upd_suite i (\<lambda>s. s\<lparr>ss_test_info_list := ss_test_info_list s @ [test_info]\<rparr>) self
         in Inr (self\<lparr>m_test_current := Some (i, length (ss_test_info_list (suite_at self i)) - 1)\<rparr>)))"

text \<open>The tags of the messages about a wrong test or suite.\<close>

definition stat_suite_tag :: "'f test_statistics \<Rightarrow> msg_tag res" where
  "stat_suite_tag self =
     bindr (current_suite self) (\<lambda>i. msg_tag_str ''suite'' (Some (su_name (ss_suite (suite_at self i)))))"

definition stat_case_tag :: "'f test_statistics \<Rightarrow> msg_tag res" where
  "stat_case_tag self =
     bindr (current_test self) (\<lambda>j. msg_tag_str ''testcase'' (Some (tc_name (st_test (test_at self j)))))"

definition stat_hook_case_end ::
  "('f test_statistics \<times> 'x) logger \<Rightarrow> (nat \<Rightarrow> 64 word) \<Rightarrow> 'f test_case \<Rightarrow> test_result
     \<Rightarrow> 'f test_statistics \<times> 'x \<Rightarrow> ('f test_statistics \<times> 'x) res" where
  "stat_hook_case_end lg clock test result = (\<lambda>(self, x).
     bindr (current_test self) (\<lambda>j.
     if st_test (test_at self j) \<noteq> test then
       lg_macro lg LOG_ERR ''Duplicate test case in test statistics''
         (eval_tags [stat_suite_tag self, stat_case_tag self]) (self, x)
     else
       (let (now, self) = stat_time clock self;
            self = upd_test j (\<lambda>t. t\<lparr>st_end := now, st_result := result\<rparr>) self
        in bindr
             (case result of
                TEST_PASSED \<Rightarrow> Inr (self\<lparr>m_passed := m_passed self + 1\<rparr>)
              | TEST_ABORT \<Rightarrow> Inr (self\<lparr>m_failed := m_failed self + 1\<rparr>)
              | TEST_INTERNAL \<Rightarrow> Inr (self\<lparr>m_failed := m_failed self + 1\<rparr>)
              | TEST_FAILED \<Rightarrow> Inr (self\<lparr>m_failed := m_failed self + 1\<rparr>)
              | TEST_SEGFAULT \<Rightarrow>
                  Inr (self\<lparr>m_sigsegv := m_sigsegv self + 1, m_failed := m_failed self + 1\<rparr>)
              | TEST_NONE \<Rightarrow> Inl AssertAbort)
             (\<lambda>self. Inr (self\<lparr>m_test_current := None\<rparr>, x)))))"

definition stat_hook_suite_begin ::
  "(nat \<Rightarrow> 64 word) \<Rightarrow> 'f test_suite \<Rightarrow> 'f test_statistics \<Rightarrow> 'f test_statistics" where
  "stat_hook_suite_begin clock suite self =
     (let (now, self) = stat_time clock self;
          suite_info = \<lparr>ss_suite = suite, ss_result = False, ss_start = now, ss_end = 0,
                        ss_assertions = 0, ss_assertions_passed = 0, ss_test_info_list = []\<rparr>;
          self = self\<lparr>m_suite_info_list := m_suite_info_list self @ [suite_info]\<rparr>
      in self\<lparr>m_suite_current := Some (length (m_suite_info_list self) - 1)\<rparr>)"

definition stat_hook_suite_end ::
  "('f test_statistics \<times> 'x) logger \<Rightarrow> (nat \<Rightarrow> 64 word) \<Rightarrow> 'f test_suite \<Rightarrow> bool
     \<Rightarrow> 'f test_statistics \<times> 'x \<Rightarrow> ('f test_statistics \<times> 'x) res" where
  "stat_hook_suite_end lg clock suite result = (\<lambda>(self, x).
     bindr (current_suite self) (\<lambda>i.
     if ss_suite (suite_at self i) \<noteq> suite then
       lg_macro lg LOG_ERR ''Duplicate suite in test statistics''
         (eval_tags [stat_suite_tag self]) (self, x)
     else
       (let (now, self) = stat_time clock self;
            self = upd_suite i (\<lambda>s. s\<lparr>ss_end := now, ss_result := result\<rparr>) self
        in Inr (self\<lparr>m_suite_current := None\<rparr>, x))))"

definition stat_hook_leakwatch ::
  "('f test_statistics \<times> 'x) logger \<Rightarrow> 'f test_case \<Rightarrow> 64 word
     \<Rightarrow> 'f test_statistics \<times> 'x \<Rightarrow> ('f test_statistics \<times> 'x) res" where
  "stat_hook_leakwatch lg test leaked = (\<lambda>(self, x).
     bindr (current_test self) (\<lambda>j.
     if st_test (test_at self j) \<noteq> test then
       lg_macro lg LOG_ERR ''Duplicate test case in test statistics''
         (eval_tags [stat_suite_tag self, stat_case_tag self]) (self, x)
     else Inr (upd_test j (\<lambda>t. t\<lparr>st_leaked_bytes := leaked\<rparr>) self, x)))"

datatype stat_hook =
    Stat_assert | Stat_case_begin | Stat_case_end | Stat_suite_begin | Stat_suite_end | Stat_leakwatch

definition g_stat_hooks :: "stat_hook option list" where
  "g_stat_hooks =
     [Some Stat_assert, None, None, Some Stat_case_begin, Some Stat_case_end,
      Some Stat_suite_begin, Some Stat_suite_end, Some Stat_leakwatch]"

text \<open>
  Calling a hook with the arguments of an event; with arguments of another event
  \<open>va_arg\<close> would read them at a wrong type.
\<close>

fun stat_hook_call ::
  "('f test_statistics \<times> 'x) logger \<Rightarrow> (nat \<Rightarrow> 64 word) \<Rightarrow> stat_hook \<Rightarrow> 'f hook_event
     \<Rightarrow> 'f test_statistics \<times> 'x \<Rightarrow> ('f test_statistics \<times> 'x) res" where
  "stat_hook_call lg clock Stat_assert (Ev_assert passed file func line) (self, x) =
     bindr (stat_hook_assert passed self) (\<lambda>self. Inr (self, x))"
| "stat_hook_call lg clock Stat_case_begin (Ev_before_test test) (self, x) =
     bindr (stat_hook_case_begin clock test self) (\<lambda>self. Inr (self, x))"
| "stat_hook_call lg clock Stat_case_end (Ev_after_test test result) e =
     stat_hook_case_end lg clock test result e"
| "stat_hook_call lg clock Stat_suite_begin (Ev_before_suite suite) (self, x) =
     Inr (stat_hook_suite_begin clock suite self, x)"
| "stat_hook_call lg clock Stat_suite_end (Ev_after_suite suite result) e =
     stat_hook_suite_end lg clock suite result e"
| "stat_hook_call lg clock Stat_leakwatch (Ev_leakinfo test leaked) e =
     stat_hook_leakwatch lg test leaked e"
| "stat_hook_call lg clock _ _ e = Inl BadFormat"

section \<open>Starting and stopping\<close>

text \<open>The message handlers of a run: those of \<open>log.c\<close> and the counter.\<close>

definition stat_handler_call :: "(unit handler_fn, 'f test_statistics \<times> io) handler_call" where
  "stat_handler_call h msg ud =
     (case h of
        User_handler _ \<Rightarrow> (\<lambda>(self, x).
          bindr (stat_message_counter msg self) (\<lambda>(go, self). Inr (go, self, x)))
      | _ \<Rightarrow> beside (call_handler (\<lambda>_ _ _ _. Inl WildPtr)) h msg ud)"

text \<open>\<open>ptr\<close> is the address of the statistics.\<close>

definition stat_start ::
  "ptr \<Rightarrow> unit handler_fn log_state \<Rightarrow> stat_hook hook_store \<Rightarrow> 'f test_statistics
     \<Rightarrow> (unit handler_fn log_state \<times> stat_hook hook_store \<times> 'f test_statistics) res" where
  "stat_start ptr log hooks self =
     (let (log, handle) = log_register_message_handler log (User_handler ()) LOG_DEBUG ptr;
          self = self\<lparr>m_log_handle := handle\<rparr>
      in bindr (test_register_multiple_hooks hooks g_stat_hooks ptr) (\<lambda>hooks.
           Inr (log, hooks, self)))"

definition stat_stop ::
  "ptr \<Rightarrow> unit handler_fn log_state \<Rightarrow> stat_hook hook_store \<Rightarrow> 'f test_statistics
     \<Rightarrow> (unit handler_fn log_state \<times> stat_hook hook_store \<times> 'f test_statistics) res" where
  "stat_stop ptr log hooks self =
     bindr (test_unregister_multiple_hooks hooks g_stat_hooks ptr) (\<lambda>hooks.
       Inr (if m_log_handle self \<noteq> NULL
            then (log_unregister_message_handler log (m_log_handle self), hooks, self\<lparr>m_log_handle := NULL\<rparr>)
            else (log, hooks, self)))"

text \<open>\<open>stat_destroy\<close>: stops the counting and frees every list; what is left are the others.\<close>

definition stat_destroy ::
  "ptr \<Rightarrow> unit handler_fn log_state \<Rightarrow> stat_hook hook_store \<Rightarrow> 'f test_statistics
     \<Rightarrow> (unit handler_fn log_state \<times> stat_hook hook_store) res" where
  "stat_destroy ptr log hooks self =
     bindr (stat_stop ptr log hooks self) (\<lambda>(log, hooks, _). Inr (log, hooks))"

section \<open>The hooks in the store\<close>

definition multiple_entries :: "'k option list \<Rightarrow> ptr \<Rightarrow> nat \<Rightarrow> 'k hook_entry list" where
  "multiple_entries hooks ud j =
     (case hooks ! j of None \<Rightarrow> [] | Some f \<Rightarrow> [\<lparr>he_hook = Some f, he_user_data = ud\<rparr>])"

lemma register_multiple_hold:
  assumes "hooks_hold self xss" and "n \<le> TEST_HOOK_MAX"
  shows "\<exists>self' yss. fold_res (\<lambda>id self.
             if hooks ! id \<noteq> None then test_register_hook self id (hooks ! id) ud else Inr self)
           [0..<n] self = Inr self' \<and> hooks_hold self' yss \<and>
         (\<forall>j < TEST_HOOK_MAX. yss ! j = xss ! j @ (if j < n then multiple_entries hooks ud j else []))"
  using assms(2)
proof (induction n)
  case 0
  then show ?case using assms(1) by auto
next
  case (Suc n)
  obtain s yss where s: "fold_res (\<lambda>id self.
        if hooks ! id \<noteq> None then test_register_hook self id (hooks ! id) ud else Inr self)
      [0..<n] self = Inr s" "hooks_hold s yss"
      "\<forall>j < TEST_HOOK_MAX. yss ! j = xss ! j @ (if j < n then multiple_entries hooks ud j else [])"
    using Suc by auto
  show ?case
  proof (cases "hooks ! n")
    case None
    then have "multiple_entries hooks ud n = []" by (simp add: multiple_entries_def)
    then show ?thesis using s None
      by (intro exI [of _ s] exI [of _ yss]) (auto simp: fold_res_append less_Suc_eq)
  next
    case (Some f)
    have n: "n < TEST_HOOK_MAX" using Suc.prems by simp
    then have id: "hook_id_ok n" by (simp add: hook_id_ok_def)
    obtain s' zss where s': "test_register_hook s n (Some f) ud = Inr s'" "hooks_hold s' zss"
        "\<forall>j < TEST_HOOK_MAX. zss ! j = yss ! j @
           (if covers n j then [\<lparr>he_hook = Some f, he_user_data = ud\<rparr>] else [])"
      using register_hold [OF s(2) id, of "Some f" ud] by blast
    have cov: "covers n j \<longleftrightarrow> j = n" for j using n by (auto simp: covers_def)
    have "zss ! j = xss ! j @ (if j < Suc n then multiple_entries hooks ud j else [])"
      if "j < TEST_HOOK_MAX" for j
      using s'(3) s(3) that Some by (auto simp: cov multiple_entries_def)
    then show ?thesis using s(1) s'(1,2) Some
      by (intro exI [of _ s'] exI [of _ zss]) (simp add: fold_res_append)
  qed
qed

text \<open>A store in which a list of hooks is registered, each at its own identifier.\<close>

definition hooks_are :: "'k hook_store \<Rightarrow> 'k option list \<Rightarrow> ptr \<Rightarrow> bool" where
  "hooks_are self hooks ud \<longleftrightarrow>
     (\<exists>xss. hooks_hold self xss \<and> (\<forall>j < TEST_HOOK_MAX. xss ! j = multiple_entries hooks ud j))"

lemma register_multiple_init:
  "\<exists>self. test_register_multiple_hooks hooks_init hooks ud = Inr self \<and> hooks_are self hooks ud"
proof -
  obtain self yss where "test_register_multiple_hooks hooks_init hooks ud = Inr self" "hooks_hold self yss"
      "\<forall>j < TEST_HOOK_MAX. yss ! j = replicate TEST_HOOK_MAX [] ! j @
         (if j < TEST_HOOK_MAX then multiple_entries hooks ud j else [])"
    using register_multiple_hold [OF hooks_hold_init order_refl, of hooks ud]
    unfolding test_register_multiple_hooks_def by blast
  then show ?thesis
    unfolding hooks_are_def by (intro exI [of _ self] conjI exI [of _ yss]) simp_all
qed

lemma run_hooks_are:
  assumes "hooks_are self hooks ud" and "j < TEST_HOOK_MAX"
  shows "test_run_hooks call self j e =
     (case hooks ! j of None \<Rightarrow> Inr e | Some f \<Rightarrow> call f ud e)"
proof -
  obtain xss where x: "hooks_hold self xss" "xss ! j = multiple_entries hooks ud j"
    using assms by (auto simp: hooks_are_def)
  show ?thesis
    using run_hooks_hold [OF x(1) assms(2), of call e] x(2)
    by (auto simp: multiple_entries_def hook_body_def split: option.splits sum.splits)
qed

section \<open>What the hooks do to the counts\<close>

text \<open>
  The observation leaves out the message counts, which logging changes. A test's end
  without the error paths:
\<close>

definition stat_obs :: "'f test_statistics \<times> 'x \<Rightarrow> 'f test_statistics" where
  "stat_obs e = (fst e)\<lparr>m_messages := []\<rparr>"

definition count_result :: "test_result \<Rightarrow> 'f test_statistics \<Rightarrow> 'f test_statistics" where
  "count_result result self =
     self\<lparr>m_passed := (if result = TEST_PASSED then m_passed self + 1 else m_passed self),
          m_failed := (if result = TEST_PASSED then m_failed self else m_failed self + 1),
          m_sigsegv := (if result = TEST_SEGFAULT then m_sigsegv self + 1 else m_sigsegv self)\<rparr>"

fun stat_seen :: "(nat \<Rightarrow> 64 word) \<Rightarrow> 'f hook_event \<Rightarrow> 'f test_statistics \<Rightarrow> 'f test_statistics" where
  "stat_seen clock (Ev_assert passed file func line) self =
     (case stat_hook_assert passed self of Inl _ \<Rightarrow> self | Inr self \<Rightarrow> self)"
| "stat_seen clock (Ev_before_test test) self =
     (case stat_hook_case_begin clock test self of Inl _ \<Rightarrow> self | Inr self \<Rightarrow> self)"
| "stat_seen clock (Ev_after_test test result) self =
     (case m_test_current self of
        None \<Rightarrow> self
      | Some j \<Rightarrow>
          (count_result result (upd_test j (\<lambda>t. t\<lparr>st_end := clock (stat_ticks self), st_result := result\<rparr>)
             (self\<lparr>stat_ticks := Suc (stat_ticks self)\<rparr>)))\<lparr>m_test_current := None\<rparr>)"
| "stat_seen clock (Ev_before_suite suite) self = stat_hook_suite_begin clock suite self"
| "stat_seen clock (Ev_after_suite suite result) self =
     (case m_suite_current self of
        None \<Rightarrow> self
      | Some i \<Rightarrow>
          (upd_suite i (\<lambda>s. s\<lparr>ss_end := clock (stat_ticks self), ss_result := result\<rparr>)
             (self\<lparr>stat_ticks := Suc (stat_ticks self)\<rparr>))\<lparr>m_suite_current := None\<rparr>)"
| "stat_seen clock (Ev_leakinfo test leaked) self =
     (case m_test_current self of
        None \<Rightarrow> self
      | Some j \<Rightarrow> upd_test j (\<lambda>t. t\<lparr>st_leaked_bytes := leaked\<rparr>) self)"
| "stat_seen clock _ self = self"

fun stat_fits :: "'f hook_event \<Rightarrow> 'f test_statistics \<Rightarrow> bool" where
  "stat_fits (Ev_assert _ _ _ _) self \<longleftrightarrow> m_suite_current self \<noteq> None \<and> m_test_current self \<noteq> None"
| "stat_fits (Ev_before_test _) self \<longleftrightarrow> m_suite_current self \<noteq> None"
| "stat_fits (Ev_after_test test result) self \<longleftrightarrow>
     (\<exists>j. m_test_current self = Some j \<and> st_test (test_at self j) = test) \<and> result \<noteq> TEST_NONE"
| "stat_fits (Ev_after_suite suite _) self \<longleftrightarrow>
     (\<exists>i. m_suite_current self = Some i \<and> ss_suite (suite_at self i) = suite)"
| "stat_fits (Ev_leakinfo test _) self \<longleftrightarrow>
     (\<exists>j. m_test_current self = Some j \<and> st_test (test_at self j) = test)"
| "stat_fits _ self \<longleftrightarrow> True"

lemmas stat_defs = stat_time_def current_suite_def current_test_def upd_suite_def upd_test_def
  suite_at_def test_at_def Let_def

lemma stat_hook_call_seen:
  assumes "stat_fits ev (stat_obs (self, x))" and "g_stat_hooks ! hook_event_id ev = Some h"
  shows "\<exists>self'. stat_hook_call lg clock h ev (self, x) = Inr (self', x) \<and>
           stat_obs (self', x) = stat_seen clock ev (stat_obs (self, x))"
proof (cases ev)
  case (Ev_assert p f g l)
  then show ?thesis using assms
    by (auto simp: g_stat_hooks_def stat_obs_def stat_hook_assert_def stat_defs)
next
  case (Ev_before_test t)
  then show ?thesis using assms
    by (auto simp: g_stat_hooks_def stat_obs_def stat_hook_case_begin_def stat_defs)
next
  case (Ev_after_test t r)
  then show ?thesis using assms
    by (cases r)
      (auto simp: g_stat_hooks_def stat_obs_def stat_hook_case_end_def stat_defs count_result_def)
next
  case (Ev_before_suite s)
  then show ?thesis using assms
    by (auto simp: g_stat_hooks_def stat_obs_def stat_hook_suite_begin_def stat_defs)
next
  case (Ev_after_suite s r)
  then show ?thesis using assms
    by (auto simp: g_stat_hooks_def stat_obs_def stat_hook_suite_end_def stat_defs)
next
  case (Ev_leakinfo t b)
  then show ?thesis using assms
    by (auto simp: g_stat_hooks_def stat_obs_def stat_hook_leakwatch_def stat_defs)
qed (use assms in \<open>simp_all add: g_stat_hooks_def\<close>)

section \<open>The counts of a run\<close>

text \<open>What the statistics should record of a test, a suite and a run that starts at tick \<open>k\<close>.\<close>

definition count_asserts :: "(bool \<Rightarrow> bool) \<Rightarrow> user_act list \<Rightarrow> nat" where
  "count_asserts good as =
     length (filter (\<lambda>ev. case ev of Ev_assert c _ _ _ \<Rightarrow> good c | _ \<Rightarrow> False)
       (acts_events as :: unit hook_event list))"

definition test_record ::
  "('f, 'k, 'e) run_params \<Rightarrow> (nat \<Rightarrow> 64 word) \<Rightarrow> nat \<Rightarrow> 'f test_case \<Rightarrow> 'f stat_test_info" where
  "test_record P clock k test =
     \<lparr>st_test = test, st_result = expected_result P test, st_start = clock k, st_end = clock (Suc k),
      st_assertions = of_nat (count_asserts (\<lambda>_. True) (test_acts P test)),
      st_assertions_passed = of_nat (count_asserts (\<lambda>c. c) (test_acts P test)), st_leaked_bytes = 0\<rparr>"

fun test_records ::
  "('f, 'k, 'e) run_params \<Rightarrow> (nat \<Rightarrow> 64 word) \<Rightarrow> nat \<Rightarrow> 'f test_case list \<Rightarrow> 'f stat_test_info list" where
  "test_records P clock k [] = []"
| "test_records P clock k (t # ts) = test_record P clock k t # test_records P clock (k + 2) ts"

definition suite_record ::
  "('f, 'k, 'e) run_params \<Rightarrow> (nat \<Rightarrow> 64 word) \<Rightarrow> nat \<Rightarrow> 'f test_suite \<Rightarrow> 'f stat_suite_info" where
  "suite_record P clock k suite =
     (let acts = concat (map (test_acts P) (su_tests suite));
          total = (\<lambda>good. sum_list (map (\<lambda>t. count_asserts good (test_acts P t)) (su_tests suite)))
      in \<lparr>ss_suite = suite, ss_result = suite_passed P suite, ss_start = clock k,
          ss_end = clock (k + 1 + 2 * length (su_tests suite)),
          ss_assertions = of_nat (total (\<lambda>_. True)), ss_assertions_passed = of_nat (total (\<lambda>c. c)),
          ss_test_info_list = test_records P clock (Suc k) (su_tests suite)\<rparr>)"

fun suite_records ::
  "('f, 'k, 'e) run_params \<Rightarrow> (nat \<Rightarrow> 64 word) \<Rightarrow> nat \<Rightarrow> 'f test_suite list \<Rightarrow> 'f stat_suite_info list" where
  "suite_records P clock k [] = []"
| "suite_records P clock k (s # ss) =
     suite_record P clock k s # suite_records P clock (k + 2 + 2 * length (su_tests s)) ss"

definition count_tests :: "('f, 'k, 'e) run_params \<Rightarrow> (test_result \<Rightarrow> bool) \<Rightarrow> 'f test_case list \<Rightarrow> nat" where
  "count_tests P good ts = length (filter (\<lambda>t. good (expected_result P t)) ts)"

text \<open>The statistics inside a test, the last one of the last suite, and between two tests.\<close>

definition in_suite ::
  "'f stat_suite_info list \<Rightarrow> 'f stat_suite_info \<Rightarrow> 'f test_statistics \<Rightarrow> 'f test_statistics" where
  "in_suite xs ss s =
     s\<lparr>m_suite_info_list := xs @ [ss], m_suite_current := Some (length xs), m_test_current := None\<rparr>"

definition in_test ::
  "'f stat_suite_info list \<Rightarrow> 'f stat_suite_info \<Rightarrow> 'f stat_test_info \<Rightarrow> 'f test_statistics
     \<Rightarrow> 'f test_statistics" where
  "in_test xs ss t s =
     s\<lparr>m_suite_info_list := xs @ [ss\<lparr>ss_test_info_list := ss_test_info_list ss @ [t]\<rparr>],
       m_suite_current := Some (length xs),
       m_test_current := Some (length xs, length (ss_test_info_list ss))\<rparr>"

definition more_suite_asserts :: "nat \<Rightarrow> nat \<Rightarrow> 'f stat_suite_info \<Rightarrow> 'f stat_suite_info" where
  "more_suite_asserts n p ss =
     ss\<lparr>ss_assertions := ss_assertions ss + of_nat n,
        ss_assertions_passed := ss_assertions_passed ss + of_nat p\<rparr>"

definition more_test_asserts :: "nat \<Rightarrow> nat \<Rightarrow> 'f stat_test_info \<Rightarrow> 'f stat_test_info" where
  "more_test_asserts n p t =
     t\<lparr>st_assertions := st_assertions t + of_nat n,
       st_assertions_passed := st_assertions_passed t + of_nat p\<rparr>"

lemma seen_assert:
  "stat_seen clock (Ev_assert c f g l) (in_test xs ss t s) =
     in_test xs (more_suite_asserts 1 (if c then 1 else 0) ss) (more_test_asserts 1 (if c then 1 else 0) t) s"
  by (simp add: in_test_def stat_hook_assert_def stat_defs more_suite_asserts_def more_test_asserts_def)

lemma fits_assert: "stat_fits (Ev_assert c f g l) (in_test xs ss t s)"
  by (simp add: in_test_def)

lemma more_asserts_more [simp]:
  "more_suite_asserts n p (more_suite_asserts n' p' ss) = more_suite_asserts (n' + n) (p' + p) ss"
  "more_test_asserts n p (more_test_asserts n' p' t) = more_test_asserts (n' + n) (p' + p) t"
  "more_suite_asserts 0 0 ss = ss" "more_test_asserts 0 0 t = t"
  by (simp_all add: more_suite_asserts_def more_test_asserts_def add_ac)

lemma more_suite_asserts_tests [simp]:
  "ss_test_info_list (more_suite_asserts n p ss) = ss_test_info_list ss"
  "st_test (more_test_asserts n p t) = st_test t"
  by (simp_all add: more_suite_asserts_def more_test_asserts_def)

lemma acts_counted:
  "fold (stat_seen clock) (acts_events as) (in_test xs ss t s) =
     in_test xs (more_suite_asserts (count_asserts (\<lambda>_. True) as) (count_asserts (\<lambda>c. c) as) ss)
       (more_test_asserts (count_asserts (\<lambda>_. True) as) (count_asserts (\<lambda>c. c) as) t) s \<and>
   accepts stat_fits (stat_seen clock) (acts_events as) (in_test xs ss t s)"
proof (induction as arbitrary: ss t)
  case (Cons a as)
  then show ?case
    by (cases a) (simp_all add: seen_assert fits_assert count_asserts_def del: stat_seen.simps(1) stat_fits.simps(1))
qed (simp add: count_asserts_def)

lemma test_counted:
  assumes "stat_ticks s = k"
  shows "fold (stat_seen clock) (expected_events P test) (in_suite xs ss s) =
     in_suite xs
       ((more_suite_asserts (count_asserts (\<lambda>_. True) (test_acts P test))
           (count_asserts (\<lambda>c. c) (test_acts P test)) ss)
        \<lparr>ss_test_info_list := ss_test_info_list ss @ [test_record P clock k test]\<rparr>)
       (count_result (expected_result P test) (s\<lparr>stat_ticks := k + 2\<rparr>)) \<and>
   accepts stat_fits (stat_seen clock) (expected_events P test) (in_suite xs ss s)"
proof -
  let ?t = "\<lparr>st_test = test, st_result = TEST_PASSED, st_start = clock k, st_end = 0,
              st_assertions = 0, st_assertions_passed = 0, st_leaked_bytes = 0\<rparr>"
  let ?s = "s\<lparr>stat_ticks := Suc k\<rparr>"
  let ?n = "count_asserts (\<lambda>_. True) (test_acts P test)" and ?p = "count_asserts (\<lambda>c. c) (test_acts P test)"
  have b: "stat_seen clock (Ev_before_test test) (in_suite xs ss s) = in_test xs ss ?t ?s"
    using assms by (simp add: in_suite_def in_test_def stat_hook_case_begin_def stat_defs)
  have f: "stat_fits (Ev_before_test test) (in_suite xs ss s)" by (simp add: in_suite_def)
  let ?mid = "in_test xs (more_suite_asserts ?n ?p ss) (more_test_asserts ?n ?p ?t) ?s"
  have m: "fold (stat_seen clock) (acts_events (test_acts P test)) (in_test xs ss ?t ?s) = ?mid"
    "accepts stat_fits (stat_seen clock) (acts_events (test_acts P test)) (in_test xs ss ?t ?s)"
    using acts_counted by blast+
  have e: "stat_seen clock (Ev_after_test test r) ?mid =
      in_suite xs ((more_suite_asserts ?n ?p ss)\<lparr>ss_test_info_list := ss_test_info_list ss @
        [(more_test_asserts ?n ?p ?t)\<lparr>st_end := clock (Suc k), st_result := r\<rparr>]\<rparr>)
        (count_result r (s\<lparr>stat_ticks := k + 2\<rparr>))" for r
    by (simp add: in_suite_def in_test_def stat_defs count_result_def)
  have g: "stat_fits (Ev_after_test test r) ?mid" if "r \<noteq> TEST_NONE" for r
    using that by (simp add: in_test_def stat_defs)
  show ?thesis
    unfolding expected_events_def
    by (simp add: b e m f g [OF expected_result_not_none] del: stat_seen.simps stat_fits.simps)
       (simp add: test_record_def more_test_asserts_def)
qed

definition count_results :: "test_result list \<Rightarrow> 'f test_statistics \<Rightarrow> 'f test_statistics" where
  "count_results rs s = fold count_result rs s"

lemma count_result_ticks [simp]:
  "stat_ticks (count_result r s) = stat_ticks s"
  "(count_result r s)\<lparr>stat_ticks := n\<rparr> = count_result r (s\<lparr>stat_ticks := n\<rparr>)"
  by (simp_all add: count_result_def)

lemma count_results_ticks [simp]:
  "stat_ticks (count_results rs s) = stat_ticks s"
  "(count_results rs s)\<lparr>stat_ticks := n\<rparr> = count_results rs (s\<lparr>stat_ticks := n\<rparr>)"
  by (induction rs arbitrary: s) (simp_all add: count_results_def)

lemma tests_counted:
  assumes "stat_ticks s = k"
  shows "fold (stat_seen clock) (concat (map (expected_events P) ts)) (in_suite xs ss s) =
     in_suite xs
       ((more_suite_asserts (sum_list (map (\<lambda>t. count_asserts (\<lambda>_. True) (test_acts P t)) ts))
           (sum_list (map (\<lambda>t. count_asserts (\<lambda>c. c) (test_acts P t)) ts)) ss)
        \<lparr>ss_test_info_list := ss_test_info_list ss @ test_records P clock k ts\<rparr>)
       (count_results (map (expected_result P) ts) (s\<lparr>stat_ticks := k + 2 * length ts\<rparr>)) \<and>
   accepts stat_fits (stat_seen clock) (concat (map (expected_events P) ts)) (in_suite xs ss s)"
  using assms
proof (induction ts arbitrary: ss s k)
  case Nil
  then show ?case by (cases s) (simp add: count_results_def)
next
  case (Cons t ts)
  let ?ss = "(more_suite_asserts (count_asserts (\<lambda>_. True) (test_acts P t))
           (count_asserts (\<lambda>c. c) (test_acts P t)) ss)
        \<lparr>ss_test_info_list := ss_test_info_list ss @ [test_record P clock k t]\<rparr>"
  let ?s = "count_result (expected_result P t) (s\<lparr>stat_ticks := k + 2\<rparr>)"
  have one: "fold (stat_seen clock) (expected_events P t) (in_suite xs ss s) = in_suite xs ?ss ?s"
    "accepts stat_fits (stat_seen clock) (expected_events P t) (in_suite xs ss s)"
    using test_counted [OF Cons.prems, of clock P t xs ss] by blast+
  have "stat_ticks ?s = k + 2" by simp
  note rest = Cons.IH [OF this, of ?ss]
  show ?case using rest one(2)
    by (simp add: one(1) count_results_def more_suite_asserts_def add_ac)
qed

text \<open>Between two suites.\<close>

definition idle :: "'f stat_suite_info list \<Rightarrow> 'f test_statistics \<Rightarrow> 'f test_statistics" where
  "idle xs s = s\<lparr>m_suite_info_list := xs, m_suite_current := None, m_test_current := None\<rparr>"

lemma suite_counted:
  assumes "stat_ticks s = k"
  shows "fold (stat_seen clock) (suite_events P suite) (idle xs s) =
     idle (xs @ [suite_record P clock k suite])
       (count_results (map (expected_result P) (su_tests suite))
          (s\<lparr>stat_ticks := k + 2 + 2 * length (su_tests suite)\<rparr>)) \<and>
   accepts stat_fits (stat_seen clock) (suite_events P suite) (idle xs s)"
proof -
  let ?ss = "\<lparr>ss_suite = suite, ss_result = False, ss_start = clock k, ss_end = 0,
               ss_assertions = 0, ss_assertions_passed = 0, ss_test_info_list = []\<rparr>"
  let ?s = "s\<lparr>stat_ticks := Suc k\<rparr>"
  have b: "stat_seen clock (Ev_before_suite suite) (idle xs s) = in_suite xs ?ss ?s"
    using assms by (simp add: idle_def in_suite_def stat_hook_suite_begin_def stat_defs)
  have "stat_ticks ?s = Suc k" by simp
  note mid = tests_counted [OF this, of clock P "su_tests suite" xs ?ss]
  have e: "stat_seen clock (Ev_after_suite suite r) (in_suite xs ss s') =
      idle (xs @ [ss\<lparr>ss_end := clock (stat_ticks s'), ss_result := r\<rparr>]) (s'\<lparr>stat_ticks := Suc (stat_ticks s')\<rparr>)"
    for ss r s' by (simp add: idle_def in_suite_def stat_defs)
  have g: "stat_fits (Ev_after_suite suite r) (in_suite xs ss s') \<longleftrightarrow> ss_suite ss = suite" for ss r s'
    by (simp add: in_suite_def stat_defs)
  show ?thesis
    unfolding suite_events_def
    by (simp add: b mid e g del: stat_seen.simps stat_fits.simps)
       (simp add: suite_record_def more_suite_asserts_def)
qed

lemma suites_counted:
  assumes "stat_ticks s = k"
  shows "fold (stat_seen clock) (concat (map (suite_events P) suites)) (idle xs s) =
     idle (xs @ suite_records P clock k suites)
       (count_results (map (expected_result P) (concat (map su_tests suites)))
          (s\<lparr>stat_ticks := k + sum_list (map (\<lambda>s. 2 + 2 * length (su_tests s)) suites)\<rparr>)) \<and>
   accepts stat_fits (stat_seen clock) (concat (map (suite_events P) suites)) (idle xs s)"
  using assms
proof (induction suites arbitrary: xs s k)
  case Nil
  then show ?case by (cases s) (simp add: count_results_def)
next
  case (Cons u us)
  have comp: "count_results rs (count_results rs' s') = count_results (rs' @ rs) s'" for rs rs' and s' :: "'a test_statistics"
    by (simp add: count_results_def)
  let ?k = "k + 2 + 2 * length (su_tests u)"
  note one = suite_counted [OF Cons.prems, of clock P u xs]
  have "stat_ticks (count_results (map (expected_result P) (su_tests u)) (s\<lparr>stat_ticks := ?k\<rparr>)) = ?k"
    by simp
  note rest = Cons.IH [OF this, of "xs @ [suite_record P clock k u]"]
  show ?case using one rest by (simp add: comp add_ac)
qed

lemma count_results_numbers:
  "m_passed (count_results rs s) = m_passed s + of_nat (length (filter (\<lambda>r. r = TEST_PASSED) rs))"
  "m_failed (count_results rs s) = m_failed s + of_nat (length (filter (\<lambda>r. r \<noteq> TEST_PASSED) rs))"
  "m_sigsegv (count_results rs s) = m_sigsegv s + of_nat (length (filter (\<lambda>r. r = TEST_SEGFAULT) rs))"
  "m_suite_info_list (count_results rs s) = m_suite_info_list s"
  "m_suite_current (count_results rs s) = m_suite_current s"
  "m_test_current (count_results rs s) = m_test_current s"
  by (induction rs arbitrary: s) (simp_all add: count_results_def count_result_def add_ac)

section \<open>The statistics observe a run\<close>

lemma stat_printing_quiet:
  assumes total: "handler_total (call_handler (\<lambda>(_ :: unit) _ _ _. Inl WildPtr)) h"
    and printing: "\<forall>u. h \<noteq> User_handler u"
  shows "handler_quiet stat_handler_call stat_obs h"
  unfolding handler_quiet_def
proof (intro allI impI)
  fix msg u and e :: "'a test_statistics \<times> io"
  assume ok: "priority_ok (msg_priority msg)" "\<exists>ts. msg_holds msg ts"
  have c: "stat_handler_call h msg u = beside (call_handler (\<lambda>_ _ _ _. Inl WildPtr)) h msg u"
    using printing by (cases h) (simp_all add: stat_handler_call_def)
  obtain go e' where "beside (call_handler (\<lambda>(_ :: unit) _ _ _. Inl WildPtr)) h msg u e = Inr (go, e')" "fst e' = fst e"
    using handler_total_beside [OF total, unfolded handler_quiet_def, rule_format, OF ok] by blast
  then show "\<exists>go e'. stat_handler_call h msg u e = Inr (go, e') \<and> stat_obs e' = stat_obs e"
    by (simp add: c stat_obs_def)
qed

lemma stat_handlers_quiet:
  assumes "h \<noteq> Fail_handler"
  shows "handler_quiet stat_handler_call stat_obs h"
proof (cases h)
  case (User_handler u)
  then show ?thesis
    by (auto simp: handler_quiet_def stat_handler_call_def stat_message_counter_def priority_ok_def
        stat_obs_def Let_def)
qed (use assms in \<open>simp_all add: stat_printing_quiet printing_handlers_total\<close>)

text \<open>The handlers \<open>tinu_main\<close> and \<open>stat_start\<close> register.\<close>

definition quiet_handlers :: "unit handler_fn log_state \<Rightarrow> bool" where
  "quiet_handlers log \<longleftrightarrow> log_inv log \<and> g_divert_handler log = None \<and>
     (\<forall>(p, h) \<in> set (g_log_list log). lh_handler h \<noteq> Fail_handler)"

lemma quiet_handlers_total:
  assumes "quiet_handlers log"
  shows "total_logger (the_logger stat_handler_call log) stat_obs"
proof (rule the_logger_quiet)
  show "\<forall>(p, h) \<in> set (g_log_list log). handler_quiet stat_handler_call stat_obs (lh_handler h)"
    using assms by (auto simp: quiet_handlers_def stat_handlers_quiet)
qed (use assms in \<open>simp_all add: quiet_handlers_def\<close>)

lemma quiet_handlers_register:
  assumes "quiet_handlers log" and "h \<noteq> Fail_handler"
  shows "quiet_handlers (fst (log_register_message_handler log h mp ud))"
  using assms log_inv_register [of log h mp ud]
  by (auto simp: quiet_handlers_def log_register_message_handler_def Let_def)

lemma quiet_handlers_start: "quiet_handlers log_start"
  using log_inv_start by (auto simp: quiet_handlers_def log_start_def)

interpretation counting_log: total_logger
  "the_logger stat_handler_call (fst (log_register_message_handler log_start (User_handler ()) priority ptr))" stat_obs
  by (rule quiet_handlers_total, rule quiet_handlers_register, rule quiet_handlers_start) simp

text \<open>The parameters of a run whose hooks are the statistics hooks.\<close>

definition stat_params ::
  "unit handler_fn log_state \<Rightarrow> (nat \<Rightarrow> 64 word) \<Rightarrow> ('f, 'k, 'e) run_params
     \<Rightarrow> ('f, stat_hook, 'f test_statistics \<times> io) run_params" where
  "stat_params log clock P =
     (let lg = the_logger stat_handler_call log in
      \<lparr>rp_log = lg, rp_hook = (\<lambda>h ev ud. stat_hook_call lg clock h ev), rp_prog = rp_prog P,
       rp_symbols = rp_symbols P, rp_frames = rp_frames P, rp_getcontext = rp_getcontext P,
       rp_swapcontext = rp_swapcontext P, rp_errno = rp_errno P, rp_coredumper = rp_coredumper P\<rparr>)"

text \<open>What a run needs of its surroundings for its hooks to matter only through the events.\<close>

definition surroundings_ok :: "('f, 'k, 'e) run_params \<Rightarrow> bool" where
  "surroundings_ok P \<longleftrightarrow>
     (\<exists>fs. rp_frames P = Some fs \<and> list_all (resolves (rp_symbols P)) fs) \<and>
     (\<forall>entry. \<exists>found. backtrace_resolv_lines (rp_symbols P) entry = Inr found) \<and>
     rp_getcontext P \<and> rp_swapcontext P"

lemma stat_observer:
  assumes "quiet_handlers log" and "hooks_are (tx_hooks ctx) g_stat_hooks ud"
    and "surroundings_ok P" and "\<not> m_leakwatch ctx"
  shows "test_observer (stat_params log clock P) stat_obs ctx (stat_seen clock) stat_fits"
  unfolding test_observer_def
proof
  let ?P = "stat_params log clock P" and ?lg = "the_logger stat_handler_call log"
  show "total_logger (rp_log ?P) stat_obs"
    using quiet_handlers_total [OF assms(1)] by (simp add: stat_params_def Let_def)
  show "test_observer_axioms ?P stat_obs ctx (stat_seen clock) stat_fits"
  proof
    fix ev :: "'a hook_event" and e :: "'a test_statistics \<times> io"
    assume fit: "stat_fits ev (stat_obs e)"
    obtain self x where e: "e = (self, x)" by (cases e)
    show "\<exists>e'. test_run_hooks (\<lambda>k. rp_hook ?P k ev) (tx_hooks ctx) (hook_event_id ev) e = Inr e' \<and>
        stat_obs e' = stat_seen clock ev (stat_obs e)"
    proof (cases "g_stat_hooks ! hook_event_id ev")
      case None
      then have "stat_seen clock ev v = v" for v by (cases ev) (simp_all add: g_stat_hooks_def)
      then show ?thesis
        using None run_hooks_are [OF assms(2) hook_event_id_less [of ev], of "\<lambda>k. rp_hook ?P k ev" e]
        by simp
    next
      case (Some h)
      obtain self' where "stat_hook_call ?lg clock h ev (self, x) = Inr (self', x)"
          "stat_obs (self', x) = stat_seen clock ev (stat_obs (self, x))"
        using stat_hook_call_seen [OF _ Some, of self x ?lg clock] fit e by auto
      then show ?thesis
        using Some run_hooks_are [OF assms(2) hook_event_id_less [of ev], of "\<lambda>k. rp_hook ?P k ev" e] e
        by (simp add: stat_params_def Let_def)
    qed
  qed (use assms(3,4) in \<open>auto simp: stat_params_def surroundings_ok_def Let_def\<close>)
qed

lemma params_expected [simp]:
  "expected_result (stat_params log clock P) = expected_result P"
  "expected_events (stat_params log clock P) = expected_events P"
  "suite_passed (stat_params log clock P) = suite_passed P"
  "suite_events (stat_params log clock P) = suite_events P"
  "test_acts (stat_params log clock P) = test_acts P"
  "suite_records (stat_params log clock P) = suite_records P"
proof -
  have prog: "rp_prog (stat_params log clock P) = rp_prog P" by (simp add: stat_params_def Let_def)
  show acts: "test_acts (stat_params log clock P) = test_acts P"
    by (rule ext) (unfold test_acts_def fn_prog_def prog, rule refl)
  show r: "expected_result (stat_params log clock P) = expected_result P"
    by (rule ext) (simp add: expected_result_def acts)
  show e: "expected_events (stat_params log clock P) = expected_events P"
    by (rule ext) (simp add: expected_events_def acts r)
  show p: "suite_passed (stat_params log clock P) = suite_passed P"
    by (rule ext) (simp add: suite_passed_def r)
  show "suite_events (stat_params log clock P) = suite_events P"
    by (rule ext) (simp add: suite_events_def e p)
  have ts: "test_records (stat_params log clock P) c k t = test_records P c k t" for c k t
    by (induction t arbitrary: k) (simp_all add: test_record_def r acts)
  have "suite_records (stat_params log clock P) c k s = suite_records P c k s" for c k s
    by (induction s arbitrary: k) (simp_all add: suite_record_def ts p acts)
  then show "suite_records (stat_params log clock P) = suite_records P" by (intro ext)
qed

section \<open>Valid pointers\<close>

definition stat_wf :: "'f test_statistics \<Rightarrow> bool" where
  "stat_wf self \<longleftrightarrow>
     (\<forall>i. m_suite_current self = Some i \<longrightarrow> Suc i = length (m_suite_info_list self)) \<and>
     (\<forall>i j. m_test_current self = Some (i, j) \<longrightarrow>
        i < length (m_suite_info_list self) \<and> Suc j = length (ss_test_info_list (suite_at self i)))"

lemma stat_wf_obs: "stat_obs e' = stat_obs e \<Longrightarrow> stat_wf (fst e') = stat_wf (fst e)"
proof -
  assume "stat_obs e' = stat_obs e"
  then have "m_suite_info_list (stat_obs e') = m_suite_info_list (stat_obs e)"
      "m_suite_current (stat_obs e') = m_suite_current (stat_obs e)"
      "m_test_current (stat_obs e') = m_test_current (stat_obs e)" by simp_all
  then show ?thesis by (simp add: stat_obs_def stat_wf_def suite_at_def)
qed

lemma quiet_macro:
  assumes "quiet_handlers log" and "priority_ok pri" and "\<And>ts. tags = Inr ts \<Longrightarrow> length ts \<le> 29"
    and "lg_macro (the_logger stat_handler_call log) pri tx tags e = Inr e'"
  shows "stat_obs e' = stat_obs e"
proof (cases tags)
  case (Inl c)
  then show ?thesis using assms(4)
    by (auto simp: the_logger_def log_wrap_def split: if_splits)
next
  case (Inr ts)
  then show ?thesis
    using total_logger.macro_total [OF quiet_handlers_total [OF assms(1)] assms(2), of ts tx e] assms(3,4)
    by auto
qed

lemma eval_tags_length: "eval_tags ts = Inr tags \<Longrightarrow> length tags = length ts"
  by (induction ts arbitrary: tags) (auto simp: res_simps)

lemma stat_wf_upd_suite [simp]:
  assumes "stat_wf s" and "\<And>ss. length (ss_test_info_list (f ss)) = length (ss_test_info_list ss)"
  shows "stat_wf (upd_suite i f s)"
  using assms
  by (cases "i < length (m_suite_info_list s)")
     (auto simp: stat_wf_def upd_suite_def suite_at_def nth_list_update)

lemma stat_wf_upd_test [simp]: "stat_wf s \<Longrightarrow> stat_wf (upd_test j f s)"
  by (cases j) (simp add: upd_test_def)

lemma stat_wf_fields [simp]:
  "stat_wf (s\<lparr>stat_ticks := n\<rparr>) = stat_wf s"
  "stat_wf (s\<lparr>m_passed := w\<rparr>) = stat_wf s"
  "stat_wf (s\<lparr>m_failed := w\<rparr>) = stat_wf s"
  "stat_wf (s\<lparr>m_sigsegv := w\<rparr>) = stat_wf s"
  "stat_wf s \<Longrightarrow> stat_wf (s\<lparr>m_test_current := None\<rparr>)"
  "stat_wf s \<Longrightarrow> stat_wf (s\<lparr>m_suite_current := None\<rparr>)"
  by (auto simp: stat_wf_def suite_at_def)

lemma stat_wf_assert: "stat_hook_assert p s = Inr s' \<Longrightarrow> stat_wf s \<Longrightarrow> stat_wf s'"
  by (auto simp: stat_hook_assert_def res_simps Let_def)

lemma stat_wf_case_begin: "stat_hook_case_begin clock t s = Inr s' \<Longrightarrow> stat_wf s \<Longrightarrow> stat_wf s'"
  by (auto simp: stat_hook_case_begin_def res_simps stat_wf_def stat_defs)

lemma stat_wf_suite_begin: "stat_wf s \<Longrightarrow> stat_wf (stat_hook_suite_begin clock su s)"
  by (fastforce simp: stat_hook_suite_begin_def stat_wf_def stat_defs nth_append)

text \<open>C25: The statistics' pointers to the current suite and test are always \<open>NULL\<close> or point
  at the entries appended last, whatever events come in whatever order: every hook that
  returns keeps this, with any logger of printing and counting handlers.\<close>

theorem stat_pointers_valid:
  assumes "quiet_handlers log" and "stat_wf (fst e)"
    and "stat_hook_call (the_logger stat_handler_call log) clock h ev e = Inr e'"
  shows "stat_wf (fst e')"
proof -
  obtain self x where e: "e = (self, x)" by (cases e)
  have wf: "stat_wf self" using assms(2) e by simp
  let ?lg = "the_logger stat_handler_call log"
  have err: "priority_ok LOG_ERR" by (simp add: priority_ok_def)
  have logged: "stat_wf (fst e')"
    if "lg_macro ?lg LOG_ERR tx (eval_tags ts) e = Inr e'" "length ts \<le> 29" for tx ts
  proof -
    have "length tags \<le> 29" if "eval_tags ts = Inr tags" for tags
      using eval_tags_length [OF that] \<open>length ts \<le> 29\<close> by simp
    from quiet_macro [OF assms(1) err this that(1)] show ?thesis using stat_wf_obs assms(2) by blast
  qed
  have case_end: "stat_wf (fst e')" if "stat_hook_case_end ?lg clock t r e = Inr e'" for t r
    using that logged wf
    by (auto simp: stat_hook_case_end_def res_simps stat_time_def Let_def e simp del: eval_tags.simps
        split: if_splits test_result.splits)
  have suite_end: "stat_wf (fst e')" if "stat_hook_suite_end ?lg clock su r e = Inr e'" for su r
    using that logged wf
    by (auto simp: stat_hook_suite_end_def res_simps stat_time_def Let_def e simp del: eval_tags.simps
        split: if_splits)
  have leak: "stat_wf (fst e')" if "stat_hook_leakwatch ?lg t b e = Inr e'" for t b
    using that logged wf
    by (auto simp: stat_hook_leakwatch_def res_simps e simp del: eval_tags.simps split: if_splits)
  show ?thesis
    using assms(3) wf case_end suite_end leak unfolding e
    by (cases h; cases ev)
       (auto simp: res_simps stat_wf_suite_begin dest: stat_wf_assert stat_wf_case_begin)
qed

lemma quiet_handlers_unregister:
  assumes "quiet_handlers log"
  shows "quiet_handlers (log_unregister_message_handler log p)"
  using assms log_inv_unregister [of log p] unregister_loop_spec [of p "g_log_list log" LOG_EMERG]
  by (auto simp: quiet_handlers_def log_unregister_message_handler_def)

text \<open>A whole run from any idle statistics.\<close>

lemma all_run_counted:
  assumes "quiet_handlers log" and "hooks_are (tx_hooks ctx) g_stat_hooks ud"
    and "surroundings_ok P" and "\<not> m_leakwatch ctx"
    and "list_all (\<lambda>s. list_all (test_ok (stat_params log clock P) ctx) (su_tests s)) (m_suites ctx)"
    and "libc_hooks (rs_lw st) \<noteq> all_hooks HOwn"
    and start: "stat_obs (rs_env st) = idle [] s" "stat_ticks s = 0"
  shows "\<exists>st'. tinu_test_all_run (stat_params log clock P) ctx st =
             Inr (list_all (suite_passed P) (m_suites ctx), st') \<and>
           stat_obs (rs_env st') = idle (suite_records P clock 0 (m_suites ctx))
             (count_results (map (expected_result P) (concat (map su_tests (m_suites ctx))))
               (s\<lparr>stat_ticks := sum_list (map (\<lambda>s. 2 + 2 * length (su_tests s)) (m_suites ctx))\<rparr>))"
proof -
  let ?P = "stat_params log clock P"
  note counted = suites_counted [OF start(2), where clock = clock and P = ?P and suites = "m_suites ctx" and xs = "[]",
      unfolded params_expected]
  obtain st' where st': "tinu_test_all_run ?P ctx st = Inr (list_all (suite_passed P) (m_suites ctx), st')"
      "stat_obs (rs_env st') = fold (stat_seen clock) (concat (map (suite_events P) (m_suites ctx))) (stat_obs (rs_env st))"
    using test_observer.run_all_seen [OF stat_observer [OF assms(1-4), of clock], of "m_suites ctx" st True] assms(5,6)
      counted start(1)
    by (auto simp: tinu_test_all_run_def)
  have "stat_obs (rs_env st') = idle (suite_records P clock 0 (m_suites ctx))
             (count_results (map (expected_result P) (concat (map su_tests (m_suites ctx))))
               (s\<lparr>stat_ticks := sum_list (map (\<lambda>s. 2 + 2 * length (su_tests s)) (m_suites ctx))\<rparr>))"
    using st'(2) [unfolded start(1) counted [THEN conjunct1]] by simp
  then show ?thesis using st'(1) by blast
qed

text \<open>What the observation says of the statistics.\<close>

definition counts_are :: "('f, 'k, 'e) run_params \<Rightarrow> (nat \<Rightarrow> 64 word) \<Rightarrow> 'f test_suite list \<Rightarrow> 'f test_statistics \<Rightarrow> bool" where
  "counts_are P clock suites self \<longleftrightarrow>
     m_suite_info_list self = suite_records P clock 0 suites \<and>
     (let tests = concat (map su_tests suites) in
      m_passed self = of_nat (count_tests P (\<lambda>r. r = TEST_PASSED) tests) \<and>
      m_failed self = of_nat (count_tests P (\<lambda>r. r \<noteq> TEST_PASSED) tests) \<and>
      m_sigsegv self = of_nat (count_tests P (\<lambda>r. r = TEST_SEGFAULT) tests))"

lemma counts_observed:
  assumes "stat_obs (self, x) = idle (suite_records P clock 0 suites)
      (count_results (map (expected_result P) (concat (map su_tests suites))) (s\<lparr>stat_ticks := k\<rparr>))"
    and "m_passed s = 0" and "m_failed s = 0" and "m_sigsegv s = 0"
  shows "counts_are P clock suites self"
proof -
  let ?v = "idle (suite_records P clock 0 suites)
      (count_results (map (expected_result P) (concat (map su_tests suites))) (s\<lparr>stat_ticks := k\<rparr>))"
  have "self\<lparr>m_messages := []\<rparr> = ?v" using assms(1) by (simp add: stat_obs_def)
  moreover have "m_suite_info_list self = m_suite_info_list (self\<lparr>m_messages := []\<rparr>)"
    "m_passed self = m_passed (self\<lparr>m_messages := []\<rparr>)"
    "m_failed self = m_failed (self\<lparr>m_messages := []\<rparr>)"
    "m_sigsegv self = m_sigsegv (self\<lparr>m_messages := []\<rparr>)" by simp_all
  ultimately show ?thesis
    using assms(2-4)
    by (simp add: counts_are_def idle_def count_results_numbers count_tests_def filter_map comp_def Let_def)
qed

section \<open>Properties\<close>

text \<open>C7: Statistics taken during a whole run are exact: one entry per suite and test in the
  order of the run with the result, the numbers of assertions and the times of its begin and
  end, and the totals count the tests that passed, failed and died of a segmentation fault
  (all modulo the width of the counters).\<close>

theorem statistics_exact:
  assumes "quiet_handlers log" and "hooks_are (tx_hooks ctx) g_stat_hooks ud"
    and "surroundings_ok P" and "\<not> m_leakwatch ctx"
    and "list_all (\<lambda>s. list_all (test_ok (stat_params log clock P) ctx) (su_tests s)) (m_suites ctx)"
    and "libc_hooks (rs_lw st) \<noteq> all_hooks HOwn" and "rs_env st = (stat_new, io)"
  shows "\<exists>st'. tinu_test_all_run (stat_params log clock P) ctx st =
             Inr (list_all (suite_passed P) (m_suites ctx), st') \<and>
           m_suite_info_list (fst (rs_env st')) = suite_records P clock 0 (m_suites ctx) \<and>
           (let self = fst (rs_env st'); tests = concat (map su_tests (m_suites ctx)) in
            m_passed self = of_nat (count_tests P (\<lambda>r. r = TEST_PASSED) tests) \<and>
            m_failed self = of_nat (count_tests P (\<lambda>r. r \<noteq> TEST_PASSED) tests) \<and>
            m_sigsegv self = of_nat (count_tests P (\<lambda>r. r = TEST_SEGFAULT) tests))"
proof -
  let ?s = "(stat_new :: 'a test_statistics)\<lparr>m_messages := []\<rparr>"
  have obs: "stat_obs (rs_env st) = idle [] ?s"
    by (simp add: assms(7) stat_obs_def idle_def stat_new_def)
  have "stat_ticks ?s = 0" by (simp add: stat_new_def)
  from all_run_counted [OF assms(1-6) obs this] obtain st' k where st':
      "tinu_test_all_run (stat_params log clock P) ctx st = Inr (list_all (suite_passed P) (m_suites ctx), st')"
      "stat_obs (rs_env st') = idle (suite_records P clock 0 (m_suites ctx))
         (count_results (map (expected_result P) (concat (map su_tests (m_suites ctx)))) (?s\<lparr>stat_ticks := k\<rparr>))"
    by blast
  have "counts_are P clock (m_suites ctx) (fst (rs_env st'))"
    by (rule counts_observed [where x = "snd (rs_env st')" and s = ?s and k = k])
       (use st'(2) in \<open>simp_all add: stat_new_def\<close>)
  then show ?thesis using st'(1) by (simp add: counts_are_def Let_def)
qed

definition stat_store :: "stat_hook hook_store" where
  "stat_store =
     (case test_register_multiple_hooks hooks_init g_stat_hooks 9 of Inl _ \<Rightarrow> hooks_init | Inr hs \<Rightarrow> hs)"

definition stat_context :: "'f test_suite list \<Rightarrow> ('f, stat_hook) test_context" where
  "stat_context suites =
     (test_context_init True False None)\<lparr>m_suites := suites, tx_hooks := stat_store\<rparr>"

lemma stat_store_hooks: "hooks_are stat_store g_stat_hooks 9"
  using register_multiple_init [of g_stat_hooks 9] by (auto simp: stat_store_def)

lemma statistics_exact_witness:
  "\<exists>st'. tinu_test_all_run (stat_params log_start (\<lambda>n. of_nat n) (record_params sample_prog 7))
       (stat_context sample_suites) (start_state (stat_new, no_io)) = Inr (False, st') \<and>
     m_passed (fst (rs_env st')) = 1 \<and> m_failed (fst (rs_env st')) = 1 \<and> m_sigsegv (fst (rs_env st')) = 0"
proof -
  let ?P = "record_params sample_prog 7" and ?ctx = "stat_context sample_suites"
  have s: "m_suites ?ctx = sample_suites" by (simp add: stat_context_def)
  let ?S = "stat_params log_start (\<lambda>n. of_nat n) ?P"
  have ok: "test_ok ?S (stat_context suites) (sample_test n f)" for suites n f
    unfolding test_ok_def params_expected sample_acts
    by (simp add: sample_prog_def sample_test_def stat_context_def test_context_init_def)
  have hooks: "hooks_are (tx_hooks ?ctx) g_stat_hooks 9"
    using stat_store_hooks by (simp add: stat_context_def)
  have sur: "surroundings_ok ?P"
    by (simp add: surroundings_ok_def record_params_def one_symbol_def backtrace_resolv_lines_def)
  have no: "\<not> m_leakwatch ?ctx" by (simp add: stat_context_def test_context_init_def)
  have tests: "list_all (\<lambda>s. list_all (test_ok ?S ?ctx) (su_tests s)) (m_suites ?ctx)"
    unfolding s by (simp add: sample_suites_def ok)
  have env: "rs_env (start_state (stat_new, no_io)) = (stat_new, no_io)" by (simp add: start_state_def)
  obtain st' where st': "tinu_test_all_run ?S ?ctx (start_state (stat_new, no_io)) =
        Inr (list_all (suite_passed ?P) sample_suites, st')"
      "let self = fst (rs_env st'); tests = concat (map su_tests sample_suites) in
        m_passed self = of_nat (count_tests ?P (\<lambda>r. r = TEST_PASSED) tests) \<and>
        m_failed self = of_nat (count_tests ?P (\<lambda>r. r \<noteq> TEST_PASSED) tests) \<and>
        m_sigsegv self = of_nat (count_tests ?P (\<lambda>r. r = TEST_SEGFAULT) tests)"
    using statistics_exact [OF quiet_handlers_start hooks sur no tests start_hooks env] unfolding s by blast
  have "concat (map su_tests sample_suites) = [sample_test ''x'' 2, sample_test ''y'' 1]"
    "\<not> list_all (suite_passed ?P) sample_suites"
    by (simp_all add: sample_suites_def suite_passed_def sample_results)
  then show ?thesis using st' by (intro exI [of _ st']) (simp add: count_tests_def sample_results Let_def)
qed

lemma stat_pointers_valid_witness:
  "\<exists>e'. stat_hook_call (the_logger stat_handler_call log_start) (\<lambda>n. of_nat n) Stat_suite_begin
       (Ev_before_suite \<lparr>su_name = ''s'', su_tests = ([] :: nat test_case list)\<rparr>) (stat_new, no_io) = Inr e' \<and>
     stat_wf (fst e') \<and> m_suite_current (fst e') = Some 0"
proof -
  let ?call = "stat_hook_call (the_logger stat_handler_call log_start) (\<lambda>n. of_nat n) Stat_suite_begin
       (Ev_before_suite \<lparr>su_name = ''s'', su_tests = ([] :: nat test_case list)\<rparr>) (stat_new, no_io)"
  obtain e' where e': "?call = Inr e'" "m_suite_current (fst e') = Some 0"
    by (simp add: stat_hook_suite_begin_def stat_time_def stat_new_def Let_def)
  have "stat_wf (fst (stat_new :: nat test_statistics, no_io))" by (simp add: stat_wf_def stat_new_def)
  from stat_pointers_valid [OF quiet_handlers_start this e'(1)] e' show ?thesis by blast
qed

end
