(* ===== verification/TestRegistry.thy ===== *)
theory TestRegistry
  imports TestOutcome
begin

text \<open>
  Registration of tests and the selection of suites and tests by name (\<open>test_add\<close>,
  \<open>test_add_extended\<close>, \<open>tinu_test_suite_run\<close>, \<open>tinu_test_case_run\<close> of \<open>lib/test.c\<close>):
  the invariant of a context, what a registration does on every branch, and the error paths
  of a run.
\<close>

section \<open>Searching\<close>

lemma suite_scan_found:
  "suite_scan ss n i r = (True, Some k) \<longleftrightarrow>
     i \<le> k \<and> k - i < length ss \<and> su_name (ss ! (k - i)) = n \<and> (\<forall>j < k - i. su_name (ss ! j) \<noteq> n)"
proof (induction ss arbitrary: i r)
  case (Cons s ss)
  show ?case
  proof (cases "su_name s = n")
    case True
    then show ?thesis by (cases "k - i") auto
  next
    case False
    have "i \<le> k \<and> k - i < length (s # ss) \<and> su_name ((s # ss) ! (k - i)) = n \<and>
        (\<forall>j < k - i. su_name ((s # ss) ! j) \<noteq> n) \<longleftrightarrow>
        Suc i \<le> k \<and> k - Suc i < length ss \<and> su_name (ss ! (k - Suc i)) = n \<and>
        (\<forall>j < k - Suc i. su_name (ss ! j) \<noteq> n)"
    proof (cases "Suc i \<le> k")
      case True
      then have "k - i = Suc (k - Suc i)" by simp
      then show ?thesis using False True by (auto simp: All_less_Suc2)
    next
      case not: False
      then have "k - i = 0" by simp
      then show ?thesis using False not by auto
    qed
    then show ?thesis using False Cons.IH [of "Suc i" "Some i"] by simp
  qed
qed simp

lemma suite_scan_missing:
  "n \<notin> su_name ` set ss \<Longrightarrow>
     suite_scan ss n i r = (False, if ss = [] then r else Some (i + length ss - 1))"
  by (induction ss arbitrary: i r) auto

lemma suite_scan_present:
  "n \<in> su_name ` set ss \<Longrightarrow> \<exists>k. suite_scan ss n i r = (True, Some k)"
  by (induction ss arbitrary: i r) auto

lemma case_scan_missing: "n \<notin> tc_name ` set ts \<Longrightarrow> case_scan ts n i = None"
  by (induction ts arbitrary: i) auto

lemma case_scan_found:
  "case_scan ts n i = Some k \<Longrightarrow> i \<le> k \<and> k - i < length ts \<and> tc_name (ts ! (k - i)) = n"
proof (induction ts arbitrary: i)
  case (Cons t ts)
  then show ?case
    by (cases "tc_name t = n") (fastforce simp: Suc_diff_le dest: Cons.IH)+
qed simp

lemma case_scan_present: "n \<in> tc_name ` set ts \<Longrightarrow> \<exists>k. case_scan ts n i = Some k"
  by (induction ts arbitrary: i) auto

section \<open>Valid names\<close>

lemma test_validate_name_iff: "test_validate_name s \<longleftrightarrow> CHR ''.'' \<notin> set s \<and> CHR ''='' \<notin> set s"
  by (induction s) auto

section \<open>The invariant of a context\<close>

definition suite_wf :: "'f test_suite \<Rightarrow> bool" where
  "suite_wf s \<longleftrightarrow> test_validate_name (su_name s) \<and> distinct (map tc_name (su_tests s)) \<and>
     (\<forall>t \<in> set (su_tests s). test_validate_name (tc_name t) \<and> tc_suite t = su_name s)"

definition context_wf :: "('f, 'k) test_context \<Rightarrow> bool" where
  "context_wf ctx \<longleftrightarrow> distinct (map su_name (m_suites ctx)) \<and> (\<forall>s \<in> set (m_suites ctx). suite_wf s)"

text \<open>The test with these names, if there is one.\<close>

definition find_test :: "('f, 'k) test_context \<Rightarrow> string \<Rightarrow> string \<Rightarrow> 'f test_case option" where
  "find_test ctx sn tn =
     (case List.find (\<lambda>s. su_name s = sn) (m_suites ctx) of
        None \<Rightarrow> None
      | Some s \<Rightarrow> List.find (\<lambda>t. tc_name t = tn) (su_tests s))"

text \<open>What a registration puts in the place of the test with its names.\<close>

definition registered ::
  "'f test_case option \<Rightarrow> string \<Rightarrow> string \<Rightarrow> 'f test_fn option \<Rightarrow> 'f test_fn option \<Rightarrow> 'f test_fn option
     \<Rightarrow> 'f user_data \<Rightarrow> 'f option \<Rightarrow> 'f test_case" where
  "registered old sn tn setup cleanup func ud udc =
     (case old of
        Some t \<Rightarrow> t\<lparr>tc_setup := setup, tc_cleanup := cleanup, tc_test := func\<rparr>
      | None \<Rightarrow> \<lparr>tc_suite = sn, tc_name = tn, tc_setup = setup, tc_cleanup = cleanup, tc_test = func,
                 tc_user_data = ud, tc_user_data_cleanup = udc\<rparr>)"

text \<open>The suites after a registration, as a function.\<close>

definition add_test :: "'f test_case list \<Rightarrow> string \<Rightarrow> ('f test_case option \<Rightarrow> 'f test_case) \<Rightarrow> 'f test_case list" where
  "add_test ts tn put =
     (case case_scan ts tn 0 of
        Some j \<Rightarrow> ts[j := put (Some (ts ! j))]
      | None \<Rightarrow> ts @ [put None])"

definition add_suite ::
  "'f test_suite list \<Rightarrow> string \<Rightarrow> string \<Rightarrow> ('f test_case option \<Rightarrow> 'f test_case) \<Rightarrow> 'f test_suite list" where
  "add_suite ss sn tn put =
     (case suite_scan ss sn 0 None of
        (True, Some i) \<Rightarrow> ss[i := (ss ! i)\<lparr>su_tests := add_test (su_tests (ss ! i)) tn put\<rparr>]
      | _ \<Rightarrow> ss @ [\<lparr>su_name = sn, su_tests = [put None]\<rparr>])"

lemma suite_lookup_new:
  "test_suite_lookup ctx sn True =
     (if sn \<in> su_name ` set (m_suites ctx)
      then (ctx, snd (suite_scan (m_suites ctx) sn 0 None))
      else (ctx\<lparr>m_suites := m_suites ctx @ [\<lparr>su_name = sn, su_tests = []\<rparr>]\<rparr>, Some (length (m_suites ctx))))"
  using suite_scan_present [of sn "m_suites ctx" 0 None] suite_scan_missing [of sn "m_suites ctx" 0 None]
  by (auto simp: test_suite_lookup_def)

context total_logger
begin

lemma check_name_ok: "test_validate_name n \<Longrightarrow> check_name lg tx n e = Inr e"
  by (simp add: check_name_def)

lemma check_name_bad: "\<not> test_validate_name n \<Longrightarrow> check_name lg tx n e = Inl AssertAbort"
proof -
  assume bad: "\<not> test_validate_name n"
  have p: "priority_ok LOG_CRIT" by (simp add: priority_ok_def)
  obtain tags where "eval_tags [msg_tag_str ''name'' (Some n)] = Inr tags" "length tags \<le> 29"
    using eval_tags_total [of "[msg_tag_str ''name'' (Some n)]"] tag_str_total by auto
  from macro_tags [OF p this, of tx e] bad show ?thesis by (auto simp: check_name_def)
qed

lemma add_extended_eq:
  assumes "test_validate_name sn" and "test_validate_name tn"
  shows "\<exists>e'. test_add_extended lg ctx sn tn setup cleanup func ud udc e =
           Inr (ctx\<lparr>m_suites := add_suite (m_suites ctx) sn tn
                  (\<lambda>old. registered old sn tn setup cleanup func ud udc)\<rparr>, e') \<and> obs e' = obs e"
proof -
  have log: "\<exists>e'. lg_macro lg p tx (eval_tags [msg_tag_str a (Some sn), msg_tag_str b (Some tn)]) e = Inr e' \<and>
      obs e' = obs e" if "priority_ok p" for p tx a b
  proof -
    let ?ts = "[msg_tag_str a (Some sn), msg_tag_str b (Some tn)]"
    obtain tags where "eval_tags ?ts = Inr tags" "length tags \<le> 29"
      using eval_tags_total [of ?ts] tag_str_total by auto
    from macro_tags [OF that this] show ?thesis .
  qed
  have p: "priority_ok LOG_WARNING" "priority_ok LOG_DEBUG" by (simp_all add: priority_ok_def)
  obtain e1 where e1: "lg_macro lg LOG_WARNING ''Test case already exists''
      (eval_tags [msg_tag_str ''suite'' (Some sn), msg_tag_str ''test'' (Some tn)]) e = Inr e1" "obs e1 = obs e"
    using log [OF p(1)] by blast
  obtain e2 where e2: "lg_macro lg LOG_DEBUG ''Test case added''
      (eval_tags [msg_tag_str ''suite'' (Some sn), msg_tag_str ''case'' (Some tn)]) e = Inr e2" "obs e2 = obs e"
    using log [OF p(2)] by blast
  show ?thesis
  proof (cases "sn \<in> su_name ` set (m_suites ctx)")
    case True
    then obtain i where i: "suite_scan (m_suites ctx) sn 0 None = (True, Some i)"
      using suite_scan_present by blast
    then have "test_suite_lookup ctx sn True = (ctx, Some i)" by (simp add: suite_lookup_new True)
    then show ?thesis
      using assms e1 e2 i
      by (auto simp: test_add_extended_def check_name_ok add_suite_def add_test_def registered_def
          test_lookup_case_def Let_def split: option.splits)
  next
    case False
    then have "suite_scan (m_suites ctx) sn 0 None =
        (False, if m_suites ctx = [] then None else Some (length (m_suites ctx) - 1))"
      using suite_scan_missing [of sn "m_suites ctx" 0 None] by simp
    then show ?thesis
      using assms e2 False
      by (simp add: test_add_extended_def check_name_ok add_suite_def registered_def
          test_lookup_case_def Let_def suite_lookup_new list_update_append)
  qed
qed

end

text \<open>A replacement that keeps the names of the test it replaces.\<close>

definition keeps_names :: "string \<Rightarrow> string \<Rightarrow> ('f test_case option \<Rightarrow> 'f test_case) \<Rightarrow> bool" where
  "keeps_names sn tn put \<longleftrightarrow>
     (\<forall>old. (\<forall>t. old = Some t \<longrightarrow> tc_name t = tn \<and> tc_suite t = sn) \<longrightarrow>
            tc_name (put old) = tn \<and> tc_suite (put old) = sn)"

lemma keeps_namesD:
  assumes keeps: "keeps_names sn tn put"
    and old: "\<And>t. old = Some t \<Longrightarrow> tc_name t = tn \<and> tc_suite t = sn"
  shows "tc_name (put old) = tn \<and> tc_suite (put old) = sn"
proof -
  have "\<forall>t. old = Some t \<longrightarrow> tc_name t = tn \<and> tc_suite t = sn"
    by (intro allI impI) (rule old)
  then show ?thesis by (rule keeps [unfolded keeps_names_def, THEN spec, THEN mp])
qed

lemma keeps_names_registered:
  "keeps_names sn tn (\<lambda>old. registered old sn tn setup cleanup func ud udc)"
proof -
  have "tc_name (registered old sn tn setup cleanup func ud udc) = tn \<and>
      tc_suite (registered old sn tn setup cleanup func ud udc) = sn"
    if o: "\<forall>t. old = Some t \<longrightarrow> tc_name t = tn \<and> tc_suite t = sn" for old
  proof (cases old)
    case None
    then show ?thesis by (simp add: registered_def)
  next
    case (Some t)
    then have "tc_name t = tn \<and> tc_suite t = sn" by (rule o [THEN spec, THEN mp])
    then show ?thesis by (simp add: registered_def Some)
  qed
  then show ?thesis unfolding keeps_names_def by (intro allI impI)
qed

lemma find_distinct_update:
  assumes "distinct (map f xs)" and "j < length xs" and "f y = f (xs ! j)"
  shows "List.find (\<lambda>x. f x = k) (xs[j := y]) =
           (if f (xs ! j) = k then Some y else List.find (\<lambda>x. f x = k) xs)"
  using assms
proof (induction xs arbitrary: j)
  case (Cons x xs)
  show ?case
  proof (cases j)
    case 0
    then have "f y = f x" using Cons.prems(3) by simp
    then show ?thesis using 0 by simp
  next
    case (Suc i)
    have i: "i < length xs" using Cons.prems(2) Suc by simp
    have ne: "f x \<noteq> f (xs ! i)" using Cons.prems(1) i by (metis distinct.simps(2) length_map list.simps(9) nth_map nth_mem)
    have "List.find (\<lambda>x. f x = k) (xs[i := y]) =
        (if f (xs ! i) = k then Some y else List.find (\<lambda>x. f x = k) xs)"
      using Cons.prems Suc i by (intro Cons.IH) simp_all
    then show ?thesis using Suc ne by auto
  qed
qed simp

lemma find_at:
  assumes "distinct (map f xs)" and "j < length xs"
  shows "List.find (\<lambda>x. f x = f (xs ! j)) xs = Some (xs ! j)"
  using find_unique [OF assms(1), of "xs ! j"] assms(2) by simp

lemma find_missing: "k \<notin> f ` set xs \<Longrightarrow> List.find (\<lambda>x. f x = k) xs = None"
  by (auto simp: find_None_iff')

text \<open>\<open>add_test\<close> replaces or adds one test and keeps the rest.\<close>

lemma add_test_spec:
  assumes d: "distinct (map tc_name ts)"
    and put: "\<And>old. (\<And>t. old = Some t \<Longrightarrow> tc_name t = tn \<and> t \<in> set ts) \<Longrightarrow> tc_name (put old) = tn"
  shows "distinct (map tc_name (add_test ts tn put)) \<and>
         List.find (\<lambda>t. tc_name t = k) (add_test ts tn put) =
           (if k = tn then Some (put (List.find (\<lambda>t. tc_name t = tn) ts))
            else List.find (\<lambda>t. tc_name t = k) ts) \<and>
         set (add_test ts tn put) \<subseteq> insert (put (List.find (\<lambda>t. tc_name t = tn) ts)) (set ts)"
proof (cases "tn \<in> tc_name ` set ts")
  case True
  then obtain j where j: "case_scan ts tn 0 = Some j" using case_scan_present by blast
  then have jl: "j < length ts" "tc_name (ts ! j) = tn" using case_scan_found [OF j] by auto
  have f: "List.find (\<lambda>t. tc_name t = tn) ts = Some (ts ! j)" using find_at [OF d jl(1)] jl(2) by simp
  have n: "tc_name (put (Some (ts ! j))) = tn" using put [of "Some (ts ! j)"] jl by auto
  have "map tc_name (ts[j := put (Some (ts ! j))]) = map tc_name ts"
    using jl n by (metis list_update_id map_update)
  then show ?thesis
    using d j f n jl find_distinct_update [OF d jl(1), of "put (Some (ts ! j))" k]
    by (auto simp: add_test_def dest: set_update_subset_insert [THEN subsetD])
next
  case False
  then have j: "case_scan ts tn 0 = None" by (rule case_scan_missing)
  have f: "List.find (\<lambda>t. tc_name t = tn) ts = None" using find_missing [OF False] .
  have n: "tc_name (put None) = tn" using put [of None] by simp
  show ?thesis using d j f n False
    by (auto simp: add_test_def find_append split: option.splits)
qed

lemma add_suite_spec:
  assumes wf: "context_wf ctx" and names: "test_validate_name sn" "test_validate_name tn"
    and keeps: "keeps_names sn tn put"
  defines "ctx' \<equiv> ctx\<lparr>m_suites := add_suite (m_suites ctx) sn tn put\<rparr>"
  shows "context_wf ctx' \<and>
         find_test ctx' sn' tn' =
           (if sn' = sn \<and> tn' = tn then Some (put (find_test ctx sn tn)) else find_test ctx sn' tn')"
proof (cases "sn \<in> su_name ` set (m_suites ctx)")
  case True
  let ?ss = "m_suites ctx"
  obtain i where i: "suite_scan ?ss sn 0 None = (True, Some i)" using suite_scan_present [OF True] by blast
  then have il: "i < length ?ss" "su_name (?ss ! i) = sn" using suite_scan_found [of ?ss sn 0 None i] by auto
  let ?s = "?ss ! i"
  let ?s' = "?s\<lparr>su_tests := add_test (su_tests ?s) tn put\<rparr>"
  have d: "distinct (map su_name ?ss)" and sw: "suite_wf ?s" using wf il by (auto simp: context_wf_def)
  have ts: "distinct (map tc_name (su_tests ?s))" "\<forall>t \<in> set (su_tests ?s). tc_suite t = sn"
    using sw il by (auto simp: suite_wf_def)
  have put': "tc_name (put old) = tn" if "\<And>t. old = Some t \<Longrightarrow> tc_name t = tn \<and> t \<in> set (su_tests ?s)" for old
    by (rule keeps_namesD [OF keeps, THEN conjunct1]) (use that ts(2) in blast)
  note spec = add_test_spec [OF ts(1) put']
  have f: "List.find (\<lambda>s. su_name s = sn) ?ss = Some ?s" using find_at [OF d il(1)] il(2) by simp
  have old: "find_test ctx sn k = List.find (\<lambda>t. tc_name t = k) (su_tests ?s)" for k
    unfolding find_test_def f by simp
  have new: "tc_name (put (find_test ctx sn tn)) = tn \<and> tc_suite (put (find_test ctx sn tn)) = sn"
  proof (rule keeps_namesD [OF keeps])
    fix t assume "find_test ctx sn tn = Some t"
    then have "t \<in> set (su_tests ?s) \<and> tc_name t = tn" unfolding old by (auto simp: find_Some_iff)
    then show "tc_name t = tn \<and> tc_suite t = sn" using ts(2) by blast
  qed
  have "suite_wf ?s'"
  proof -
    have sub: "set (add_test (su_tests ?s) tn put) \<subseteq> insert (put (find_test ctx sn tn)) (set (su_tests ?s))"
      unfolding old by (rule spec [THEN conjunct2, THEN conjunct2])
    have "test_validate_name (tc_name t) \<and> tc_suite t = sn" if "t \<in> set (add_test (su_tests ?s) tn put)" for t
    proof (cases "t = put (find_test ctx sn tn)")
      case True
      then show ?thesis using new names by simp
    next
      case False
      then have "t \<in> set (su_tests ?s)" using sub that by blast
      then show ?thesis using sw il(2) by (simp add: suite_wf_def)
    qed
    then show ?thesis using spec [where k = tn, THEN conjunct1] names il(2) by (simp add: suite_wf_def)
  qed
  moreover have "map su_name (?ss[i := ?s']) = map su_name ?ss"
    using il by (metis list_update_id map_update test_suite.simps(1,4) test_suite.surjective test_suite.update_convs(2))
  moreover have ss: "m_suites ctx' = ?ss[i := ?s']" by (simp add: ctx'_def add_suite_def i)
  ultimately have "context_wf ctx'"
    using wf d set_update_subset_insert [of ?ss i ?s'] unfolding context_wf_def ss by auto
  moreover have "find_test ctx' sn' tn' =
      (if sn' = sn \<and> tn' = tn then Some (put (find_test ctx sn tn)) else find_test ctx sn' tn')"
  proof (cases "sn' = sn")
    case True
    have "List.find (\<lambda>s. su_name s = sn) (?ss[i := ?s']) = Some ?s'"
      using find_distinct_update [OF d il(1), of ?s' sn] il(2) by simp
    then have "find_test ctx' sn tn' = List.find (\<lambda>t. tc_name t = tn') (add_test (su_tests ?s) tn put)"
      unfolding find_test_def ss by simp
    also have "\<dots> = (if tn' = tn then Some (put (find_test ctx sn tn)) else find_test ctx sn tn')"
      unfolding old by (rule spec [where k = tn', THEN conjunct2, THEN conjunct1])
    finally show ?thesis using True by simp
  next
    case False
    have "List.find (\<lambda>s. su_name s = sn') (?ss[i := ?s']) = List.find (\<lambda>s. su_name s = sn') ?ss"
      using find_distinct_update [OF d il(1), of ?s' sn'] il(2) False by simp
    then show ?thesis using False by (simp add: find_test_def ss)
  qed
  ultimately show ?thesis by blast
next
  case False
  let ?ss = "m_suites ctx" and ?s = "\<lparr>su_name = sn, su_tests = [put None]\<rparr>"
  have a: "add_suite ?ss sn tn put = ?ss @ [?s]"
    using suite_scan_missing [OF False, of 0 None] by (simp add: add_suite_def)
  have f: "List.find (\<lambda>s. su_name s = sn) ?ss = None" using find_missing [OF False] .
  then have old: "find_test ctx sn tn = None" for tn by (simp add: find_test_def)
  have new: "tc_name (put None) = tn \<and> tc_suite (put None) = sn" by (rule keeps_namesD [OF keeps]) simp
  have "context_wf ctx'"
    using wf names new False by (auto simp: context_wf_def ctx'_def a suite_wf_def)
  moreover have "find_test ctx' sn' tn' =
      (if sn' = sn \<and> tn' = tn then Some (put (find_test ctx sn tn)) else find_test ctx sn' tn')"
    using f new old by (auto simp: find_test_def ctx'_def a find_append split: option.splits)
  ultimately show ?thesis by blast
qed

section \<open>Properties\<close>

text \<open>C24: Registration keeps the context well formed (every name free of '.' and '=', no
  suite and no test of a suite twice, every test in the suite it names) and changes exactly
  the test with the given names: a new test is entered with all its functions and data, an
  existing one gets the new functions but keeps its old user data. An invalid name stops
  the program.\<close>

theorem test_add_registers:
  assumes "total_logger lg obs" and "context_wf ctx"
  shows "if test_validate_name sn \<and> test_validate_name tn
         then \<exists>ctx' e'. test_add_extended lg ctx sn tn setup cleanup func ud udc e = Inr (ctx', e') \<and>
                context_wf ctx' \<and> obs e' = obs e \<and>
                (\<forall>sn' tn'. find_test ctx' sn' tn' =
                   (if sn' = sn \<and> tn' = tn
                    then Some (registered (find_test ctx sn tn) sn tn setup cleanup func ud udc)
                    else find_test ctx sn' tn'))
         else test_add_extended lg ctx sn tn setup cleanup func ud udc e = Inl AssertAbort"
proof (cases "test_validate_name sn \<and> test_validate_name tn")
  case True
  let ?put = "\<lambda>old. registered old sn tn setup cleanup func ud udc"
  obtain e' where e': "test_add_extended lg ctx sn tn setup cleanup func ud udc e =
      Inr (ctx\<lparr>m_suites := add_suite (m_suites ctx) sn tn ?put\<rparr>, e')" "obs e' = obs e"
    using total_logger.add_extended_eq [OF assms(1)] True by blast
  have valid: "test_validate_name sn" "test_validate_name tn" using True by simp_all
  let ?ctx' = "ctx\<lparr>m_suites := add_suite (m_suites ctx) sn tn ?put\<rparr>"
  have w: "context_wf ?ctx'" and f: "find_test ?ctx' sn' tn' =
      (if sn' = sn \<and> tn' = tn then Some (?put (find_test ctx sn tn)) else find_test ctx sn' tn')" for sn' tn'
    using add_suite_spec [OF assms(2) valid keeps_names_registered, where sn' = sn' and tn' = tn'] by simp_all
  show ?thesis
    unfolding if_P [OF True]
    by (rule exI [of _ ?ctx'], rule exI [of _ e'], intro conjI allI) (rule e'(1), rule w, rule e'(2), rule f)
next
  case False
  then show ?thesis
    using total_logger.check_name_ok [OF assms(1)] total_logger.check_name_bad [OF assms(1)]
    by (cases "test_validate_name sn") (simp_all add: test_add_extended_def)
qed

lemma test_add_registers_witness:
  "\<exists>ctx' e'. test_add_extended (main_logger (\<lambda>(_ :: unit) _ _ _. Inl WildPtr) False 7)
       (record_context True ([] :: nat test_suite list)) ''s'' ''t'' None None (Some (Ext 3)) (Opaque 9) None
       ((), no_io) = Inr (ctx', e') \<and>
     find_test ctx' ''s'' ''t'' = Some \<lparr>tc_suite = ''s'', tc_name = ''t'', tc_setup = None,
       tc_cleanup = None, tc_test = Some (Ext 3), tc_user_data = Opaque 9, tc_user_data_cleanup = None\<rparr>"
proof -
  have wf: "context_wf (record_context True ([] :: nat test_suite list))"
    by (simp add: context_wf_def record_context_def test_context_init_def)
  have none: "find_test (record_context True ([] :: nat test_suite list)) ''s'' ''t'' = None"
    by (simp add: find_test_def record_context_def test_context_init_def)
  show ?thesis
    using test_add_registers [OF main_log.total_logger_axioms wf, of "''s''" "''t''"] none
    by (fastforce simp: registered_def)
qed

text \<open>Registering a test again with \<open>test_add\<close> has no effect on what it does: the
  wrappers stay and still find the simplified functions of the first registration in the
  user data, although the warning is logged as if the test was replaced.\<close>

theorem test_add_twice_keeps_first:
  fixes ctx :: "('f, 'k) test_context"
  assumes "total_logger lg obs" and "context_wf ctx" and "test_validate_name sn" and "test_validate_name tn"
    and "find_test ctx sn tn = None"
  shows "\<exists>ctx1 ctx2 e1 e2.
           test_add lg free_fn ctx sn tn setup1 cleanup1 func1 e = Inr (ctx1, e1) \<and>
           test_add lg free_fn ctx1 sn tn setup2 cleanup2 func2 e1 = Inr (ctx2, e2) \<and>
           find_test ctx2 sn tn = find_test ctx1 sn tn \<and>
           tc_user_data (the (find_test ctx2 sn tn)) =
             Simplified \<lparr>sf_setup = setup1, sf_cleanup = cleanup1, sf_function = func1\<rparr>"
proof -
  let ?ud = "\<lambda>s c f. Simplified \<lparr>sf_setup = s, sf_cleanup = c, sf_function = f\<rparr>"
  let ?w = "Some Wrapper"
  have add: "\<exists>ctx' e'. test_add lg free_fn ctx sn tn s c f e = Inr (ctx', e') \<and> context_wf ctx' \<and>
      find_test ctx' sn tn = Some (registered (find_test ctx sn tn) sn tn ?w ?w ?w (?ud s c f) (Some free_fn))"
    if wf: "context_wf ctx" for ctx :: "('f, 'k) test_context" and s c f e
  proof -
    let ?udc = "Some free_fn"
    let ?put = "\<lambda>old. registered old sn tn ?w ?w ?w (?ud s c f) ?udc"
    obtain e' where e': "test_add lg free_fn ctx sn tn s c f e =
        Inr (ctx\<lparr>m_suites := add_suite (m_suites ctx) sn tn ?put\<rparr>, e')"
      using total_logger.add_extended_eq [OF assms(1,3,4)] unfolding test_add_def by blast
    show ?thesis using e' add_suite_spec [OF wf assms(3,4) keeps_names_registered, where sn' = sn and tn' = tn] by simp
  qed
  obtain ctx1 e1 where 1: "test_add lg free_fn ctx sn tn setup1 cleanup1 func1 e = Inr (ctx1, e1)" "context_wf ctx1"
      "find_test ctx1 sn tn = Some (registered None sn tn ?w ?w ?w (?ud setup1 cleanup1 func1) (Some free_fn))"
    using add [OF assms(2)] assms(5) by metis
  obtain ctx2 e2 where 2: "test_add lg free_fn ctx1 sn tn setup2 cleanup2 func2 e1 = Inr (ctx2, e2)"
      "find_test ctx2 sn tn = Some (registered (find_test ctx1 sn tn) sn tn ?w ?w ?w
         (?ud setup2 cleanup2 func2) (Some free_fn))"
    using add [OF 1(2)] by metis
  show ?thesis using 1 2 by (auto simp: registered_def)
qed

lemma test_add_twice_keeps_first_witness:
  "\<exists>ctx1 ctx2 e1 e2.
     test_add no_logger 0 (record_context True ([] :: nat test_suite list)) ''s'' ''t'' None None (Some 1) () = Inr (ctx1, e1) \<and>
     test_add no_logger 0 ctx1 ''s'' ''t'' None None (Some 2) e1 = Inr (ctx2, e2) \<and>
     tc_user_data (the (find_test ctx2 ''s'' ''t'')) =
       Simplified \<lparr>sf_setup = None, sf_cleanup = None, sf_function = Some 1\<rparr>"
proof -
  have lg: "total_logger no_logger (\<lambda>_ :: unit. ())"
    by unfold_locales (simp_all add: no_logger_def)
  have wf: "context_wf (record_context True ([] :: nat test_suite list))"
    and none: "find_test (record_context True ([] :: nat test_suite list)) ''s'' ''t'' = None"
    by (simp_all add: context_wf_def find_test_def record_context_def test_context_init_def)
  show ?thesis
    using test_add_twice_keeps_first [OF lg wf _ _ none, of 0 None None "Some 1" "()" None None "Some 2"]
    by (fastforce simp: test_validate_name_iff)
qed

text \<open>Running a suite by name runs the suite with that name; but for a name that does
  not exist it runs the last suite of the context instead, and reports the missing suite
  only when the context has none at all.\<close>

theorem suite_run_by_name:
  assumes "context_wf ctx"
  shows "(\<forall>i < length (m_suites ctx).
             tinu_test_suite_run P ctx (su_name (m_suites ctx ! i)) st =
               test_suite_run P ctx (m_suites ctx ! i) None st) \<and>
         (n \<notin> su_name ` set (m_suites ctx) \<longrightarrow>
             tinu_test_suite_run P ctx n st =
               (if m_suites ctx = []
                then bindr (log_macro P LOG_ERR ''Suite does not exist'' [msg_tag_str ''suite'' (Some n)] st)
                       (\<lambda>st. Inr (False, st))
                else test_suite_run P ctx (last (m_suites ctx)) None st))"
proof -
  have "tinu_test_suite_run P ctx (su_name (m_suites ctx ! i)) st =
      test_suite_run P ctx (m_suites ctx ! i) None st" if i: "i < length (m_suites ctx)" for i
  proof -
    have d: "distinct (map su_name (m_suites ctx))" using assms by (simp add: context_wf_def)
    then have "\<forall>j < i. su_name (m_suites ctx ! j) \<noteq> su_name (m_suites ctx ! i)"
      using i by (auto simp: distinct_conv_nth)
    then have "suite_scan (m_suites ctx) (su_name (m_suites ctx ! i)) 0 None = (True, Some i)"
      using i by (simp add: suite_scan_found)
    then show ?thesis by (simp add: tinu_test_suite_run_def test_suite_lookup_def)
  qed
  moreover have "tinu_test_suite_run P ctx n st =
      (if m_suites ctx = []
       then bindr (log_macro P LOG_ERR ''Suite does not exist'' [msg_tag_str ''suite'' (Some n)] st)
              (\<lambda>st. Inr (False, st))
       else test_suite_run P ctx (last (m_suites ctx)) None st)"
    if "n \<notin> su_name ` set (m_suites ctx)"
    using suite_scan_missing [OF that, of 0 None]
    by (simp add: tinu_test_suite_run_def test_suite_lookup_def last_conv_nth)
  ultimately show ?thesis by blast
qed

lemma suite_run_by_name_witness:
  "tinu_test_suite_run (record_params sample_prog 7) (record_context True sample_suites) ''nope''
     (start_state ([], no_io)) =
   test_suite_run (record_params sample_prog 7) (record_context True sample_suites)
     \<lparr>su_name = ''e'', su_tests = []\<rparr> None (start_state ([], no_io))"
proof -
  have s: "m_suites (record_context True sample_suites) = sample_suites"
    by (simp add: record_context_def test_context_init_def)
  have wf: "context_wf (record_context True sample_suites)"
    unfolding context_wf_def s
    by (simp add: sample_suites_def suite_wf_def sample_test_def test_validate_name_iff)
  have "''nope'' \<notin> su_name ` set sample_suites" "sample_suites \<noteq> []"
      "last sample_suites = \<lparr>su_name = ''e'', su_tests = []\<rparr>"
    by (simp_all add: sample_suites_def)
  then show ?thesis
    using suite_run_by_name [OF wf, of "record_params sample_prog 7" "start_state ([], no_io)" "''nope''"]
    unfolding s by simp
qed

text \<open>When the context of a test cannot be made or entered, the test does not run and
  its result is \<open>TEST_INTERNAL\<close>; but the signal handlers of the runner stay installed
  afterwards and the stack is not freed.\<close>

theorem context_failure_internal:
  assumes "total_logger (rp_log P) obs" and "m_sighandle ctx" and "\<not> (rp_getcontext P \<and> rp_swapcontext P)"
  shows "\<exists>st'. run_in_context P ctx test st = Inr st' \<and> rs_result st' = TEST_INTERNAL \<and>
           obs (rs_env st') = obs (rs_env st) \<and> rs_case st' = rs_case st \<and>
           rs_segv st' = SIG_OURS \<and> rs_abrt st' = SIG_OURS \<and>
           rs_saved_segv st' = rs_segv st \<and> rs_saved_abrt st' = rs_abrt st \<and>
           rs_stacks st' = Suc (rs_stacks st)"
proof -
  obtain tg where "msg_tag_errno (fst (rp_errno P)) (snd (rp_errno P)) = Inr tg"
    by (auto simp: msg_tag_errno_def msg_tag_printf_def msg_generate_tag_def vformat_simps
        is_digit_def pad_def fspec0_def)
  then have tags: "eval_tags (errno_tags P) = Inr [tg]" by (simp add: errno_tags_def)
  have lvl: "priority_ok LOG_ERR" by (simp add: priority_ok_def)
  have log: "\<exists>e'. log_macro P LOG_ERR tx (errno_tags P) s = Inr (s\<lparr>rs_env := e'\<rparr>) \<and> obs e' = obs (rs_env s)"
    for tx s
  proof -
    obtain e' where "lg_macro (rp_log P) LOG_ERR tx (eval_tags (errno_tags P)) (rs_env s) = Inr e'"
        "obs e' = obs (rs_env s)"
      using total_logger.macro_tags [OF assms(1) lvl tags, of tx "rs_env s"] by auto
    then show ?thesis by (intro exI [of _ e']) (simp add: log_macro_def)
  qed
  let ?s = "signal_on (st\<lparr>rs_stacks := Suc (rs_stacks st), rs_result := TEST_NONE\<rparr>)"
  obtain e1 where e1: "log_macro P LOG_ERR ''Cannot get main context'' (errno_tags P) ?s = Inr (?s\<lparr>rs_env := e1\<rparr>)"
      "obs e1 = obs (rs_env ?s)" using log by blast
  obtain e2 where e2: "log_macro P LOG_ERR ''Cannot change context'' (errno_tags P) ?s = Inr (?s\<lparr>rs_env := e2\<rparr>)"
      "obs e2 = obs (rs_env ?s)" using log by blast
  show ?thesis
    using assms(2,3) e1 e2 by (cases "rp_getcontext P") (auto simp: run_in_context_def Let_def signal_on_def)
qed

lemma context_failure_internal_witness:
  "\<exists>st'. run_in_context ((record_params sample_prog 7)\<lparr>rp_getcontext := False\<rparr>) (record_context True [])
       (sample_test ''t'' 1) (start_state ([], no_io)) = Inr st' \<and>
     rs_result st' = TEST_INTERNAL \<and> rs_segv st' = SIG_OURS"
proof -
  let ?P = "(record_params sample_prog 7)\<lparr>rp_getcontext := False\<rparr>"
  have lg: "total_logger (rp_log ?P) fst"
    using main_log.total_logger_axioms by (simp add: record_params_def)
  show ?thesis
    using context_failure_internal [OF lg, of "record_context True []" "sample_test ''t'' 1" "start_state ([], no_io)"]
    by (auto simp: record_context_def test_context_init_def)
qed

end
