(* ===== verification/Report.thy ===== *)
theory Report
  imports Statistics TestRegistry
begin

text \<open>
  Reports (\<open>lib/report-standard.c\<close>, \<open>lib/report-external.c\<close>, \<open>lib/reporting.c\<close>,
  \<open>lib/tinu/reporting.h\<close>): the summary printed for people, and the file of keys and values
  for other programs. Printing returns the text for the stream. The theorems show what the
  file says about a run, that its keys are unambiguous, and what sizes look like.
\<close>

section \<open>Verbosity\<close>

abbreviation (input) "STAT_VERB_NONE \<equiv> (0::int)"
abbreviation (input) "STAT_VERB_SUMMARY \<equiv> (1::int)"
abbreviation (input) "STAT_VERB_SUITES \<equiv> (2::int)"
abbreviation (input) "STAT_VERB_FULL \<equiv> (3::int)"
abbreviation (input) "STAT_VERB_VERBOSE \<equiv> (4::int)"

definition StatisticsVerbosity_names :: name_table where
  "StatisticsVerbosity_names =
     [name_entry STAT_VERB_NONE ''none'' 4, name_entry STAT_VERB_SUMMARY ''summary'' 7,
      name_entry STAT_VERB_SUITES ''suites'' 6, name_entry STAT_VERB_FULL ''full'' 4,
      name_entry STAT_VERB_VERBOSE ''verbose'' 7,
      \<lparr>nt_key = 0, nt_name = None, nt_length = 0\<rparr>]"

section \<open>The printed report\<close>

text \<open>
  \<open>_report_printf\<close> concatenates its pieces up to the \<open>NULL\<close> to the format of the
  arguments behind it.
\<close>

definition report_printf :: "string list \<Rightarrow> parg list \<Rightarrow> string res" where
  "report_printf pieces args = vformat (concat pieces) args"

abbreviation (input) "SIZE_1KB \<equiv> (1024::nat)"

text \<open>
  The macro \<open>SIZE_1MB\<close> is \<open>SIZE_1KB * 1024\<close> without parentheses: after a cast and a
  division it divides by 1024 and multiplies by 1024. Multiplying a double by a power of 2
  is exact.
\<close>

definition double_MB :: "64 word \<Rightarrow> parg" where
  "double_MB n =
     (let (m, d) = double_quot (unat n) 1 in PDbl (int (m * 1024)) (d * 1024))"

definition double_kB :: "64 word \<Rightarrow> parg" where
  "double_kB n = (let (m, d) = double_quot (unat n) 1 in PDbl (int m) (d * SIZE_1KB))"

definition humanly_readable_size :: "nat \<Rightarrow> 64 word \<Rightarrow> string res" where
  "humanly_readable_size max_size n =
     bindr (if unat n \<ge> SIZE_1KB * 1024 then vformat ''%.2lf MB'' [double_MB n]
            else if unat n \<ge> SIZE_1KB then vformat ''%.2lf kB'' [double_kB n]
            else vformat ''%u B'' [PInt (ucast n)])
       (\<lambda>t. Inr (take (max_size - 1) t))"

definition COL_OK :: "bool \<Rightarrow> string \<Rightarrow> string" where
  "COL_OK colour str = (if colour then esc ''32'' @ str @ esc ''0'' else str)"

definition COL_FAIL :: "bool \<Rightarrow> string \<Rightarrow> string" where
  "COL_FAIL colour str = (if colour then esc ''31'' @ str @ esc ''0'' else str)"

definition COL_FATAL :: "bool \<Rightarrow> string \<Rightarrow> string" where
  "COL_FATAL colour str = (if colour then esc ''1;41'' @ str @ esc ''0'' else str)"

definition COL_ENTRY :: "bool \<Rightarrow> string \<Rightarrow> string" where
  "COL_ENTRY colour str = (if colour then esc ''35'' @ str @ esc ''0'' else str)"

definition newline :: string where
  "newline = [CHR 0x0A]"

definition std_report_show_summary :: "'f test_statistics \<Rightarrow> bool \<Rightarrow> string res" where
  "std_report_show_summary stat colour =
     report_printf
       [''Summary: '', COL_OK colour ''passed: %d '', COL_FAIL colour ''failed: %d '',
        if m_sigsegv stat \<noteq> 0 then COL_FATAL colour ''segmentation faults: %d'' else '''', newline]
       [PInt (m_passed stat), PInt (m_failed stat), PInt (m_sigsegv stat)]"

definition std_report_show_suite :: "'f stat_suite_info \<Rightarrow> int \<Rightarrow> bool \<Rightarrow> string res" where
  "std_report_show_suite suite verbosity colour =
     bindr (report_printf [''Suite  '', COL_ENTRY colour ''%-*s'', '' %s'']
              [PInt 30, pstr (su_name (ss_suite suite)),
               pstr (if ss_result suite then COL_OK colour ''passed'' else COL_FAIL colour ''failed'')]) (\<lambda>out.
     bindr (if verbosity = STAT_VERB_VERBOSE
            then vformat '' assertions passed: %d/%d''
                   [PInt (ss_assertions_passed suite), PInt (ss_assertions suite)]
            else Inr []) (\<lambda>more.
       Inr (out @ more @ newline)))"

definition std_report_show_case :: "'f stat_test_info \<Rightarrow> int \<Rightarrow> bool \<Rightarrow> string res" where
  "std_report_show_case test verbosity colour =
     bindr (test_result_name (st_result test)) (\<lambda>result_name.
     bindr (name_arg result_name) (\<lambda>name.
     bindr (report_printf [''   Case '', COL_ENTRY colour ''%-*s'']
              [PInt 33, pstr (tc_name (st_test test))]) (\<lambda>out.
     bindr (case st_result test of
              TEST_PASSED \<Rightarrow> report_printf [COL_OK colour ''%s''] [name]
            | TEST_FAILED \<Rightarrow> report_printf [COL_FAIL colour ''%s''] [name]
            | TEST_SEGFAULT \<Rightarrow> report_printf [COL_FATAL colour ''%s''] [name]
            | TEST_ABORT \<Rightarrow> report_printf [COL_FATAL colour ''%s''] [name]
            | TEST_INTERNAL \<Rightarrow> report_printf [COL_FATAL colour ''%s''] [name]
            | TEST_NONE \<Rightarrow> Inl AssertAbort) (\<lambda>res.
     bindr (if verbosity = STAT_VERB_VERBOSE
            then vformat '' assertions passed: %d/%d''
                   [PInt (st_assertions_passed test), PInt (st_assertions test)]
            else Inr []) (\<lambda>more.
     bindr (if st_leaked_bytes test \<noteq> 0
            then bindr (humanly_readable_size 128 (st_leaked_bytes test)) (\<lambda>n.
                   vformat '' leaked: %s'' [pstr n])
            else Inr []) (\<lambda>leaked.
       Inr (out @ res @ more @ leaked @ newline)))))))"

text \<open>\<open>g_opt_print_out\<close> after the check: stderr or stdout.\<close>

definition test_report_print_check :: "bool \<Rightarrow> int \<Rightarrow> bool \<Rightarrow> bool \<times> bool" where
  "test_report_print_check opt_stderr verbosity enable_colour = (opt_stderr, True)"

definition report_suite_block :: "int \<Rightarrow> bool \<Rightarrow> 'f stat_suite_info \<Rightarrow> string \<Rightarrow> string res" where
  "report_suite_block verbosity colour suite out =
     bindr (std_report_show_suite suite verbosity colour) (\<lambda>head.
     bindr (if verbosity > STAT_VERB_SUITES
            then bindr (fold_res (\<lambda>test out.
                          bindr (std_report_show_case test verbosity colour) (\<lambda>t. Inr (out @ t)))
                        (ss_test_info_list suite) []) (\<lambda>tests. Inr (tests @ newline))
            else Inr []) (\<lambda>tests. Inr (out @ head @ tests)))"

definition report_message_line :: "'f test_statistics \<Rightarrow> int \<Rightarrow> string \<Rightarrow> string res" where
  "report_message_line stat i out =
     bindr (msg_format_priority i) (\<lambda>name.
     bindr (name_arg name) (\<lambda>name.
     bindr (vformat (''    %-*s %*d'' @ newline) [PInt 25, name, PInt 10, PInt (m_messages stat ! nat i)])
       (\<lambda>t. Inr (out @ t))))"

definition test_report_print :: "'f test_statistics \<Rightarrow> int \<Rightarrow> bool \<Rightarrow> string res" where
  "test_report_print stat verbosity enable_colour =
     bindr (std_report_show_summary stat enable_colour) (\<lambda>out.
     if verbosity = STAT_VERB_SUMMARY then Inr out
     else
       bindr (fold_res (report_suite_block verbosity enable_colour) (m_suite_info_list stat) out) (\<lambda>out.
       if verbosity \<le> STAT_VERB_FULL then Inr out
       else fold_res (report_message_line stat) [LOG_CRIT..LOG_DEBUG]
              (out @ ''Messages received:'' @ newline)))"

section \<open>The report for programs\<close>

text \<open>\<open>vsprintf\<close> into the 4096 bytes of \<open>g_prg_prefix\<close>.\<close>

definition prg_report_set :: "string \<Rightarrow> parg list \<Rightarrow> string res" where
  "prg_report_set fmt args =
     bindr (vformat fmt args) (\<lambda>t. if length t < 4096 then Inr t else Inl OutOfRange)"

definition prg_report_print :: "string \<Rightarrow> string \<Rightarrow> parg list \<Rightarrow> string \<Rightarrow> string res" where
  "prg_report_print prefix fmt args out =
     bindr (vformat ''%s.'' [pstr prefix]) (\<lambda>a.
     bindr (vformat fmt args) (\<lambda>b. Inr (out @ a @ b @ newline)))"

text \<open>
  \<open>strstr (s, "%s")\<close>: what is before the first occurrence and what follows it.
\<close>

fun strstr_arg :: "string \<Rightarrow> (string \<times> string) option" where
  "strstr_arg [] = None"
| "strstr_arg (c # cs) =
     (if c = CHR ''%'' \<and> take 1 cs = ''s'' then Some ([], drop 1 cs)
      else map_option (\<lambda>(before, after). (c # before, after)) (strstr_arg cs))"

lemma strstr_arg_shorter: "strstr_arg s = Some (a, b) \<Longrightarrow> length b < length s"
  by (induction s arbitrary: a b) (auto split: if_splits)

function prg_report_replace :: "string \<Rightarrow> string \<Rightarrow> string" where
  "prg_report_replace template argument =
     (case strstr_arg template of
        None \<Rightarrow> template
      | Some (before, after) \<Rightarrow> before @ argument @ prg_report_replace after argument)"
  by pat_completeness auto
termination
  by (relation "measure (\<lambda>(t, _). length t)") (auto dest: strstr_arg_shorter)

declare prg_report_replace.simps [simp del]

text \<open>
  \<open>(m_end - m_start) / tics\<close> with \<open>clock_t\<close> signed; \<open>tics\<close> is what
  \<open>sysconf (_SC_CLK_TCK)\<close> answers, a positive number.
\<close>

definition seconds :: "nat \<Rightarrow> 64 word \<Rightarrow> 64 word \<Rightarrow> parg" where
  "seconds tics began ended =
     (let diff = sint (ended - began);
          (a, b) = double_quot (nat \<bar>diff\<bar>) 1;
          (m, d) = double_quot a (b * tics)
      in PDbl (if diff < 0 then - int m else int m) d)"

definition put_test :: "nat \<Rightarrow> string \<Rightarrow> 'f stat_test_info \<Rightarrow> string \<Rightarrow> string res" where
  "put_test tics suite_name test out =
     bindr (prg_report_set ''suite.%s.test.%s'' [pstr suite_name, pstr (tc_name (st_test test))]) (\<lambda>prefix.
     bindr (bindr (test_result_name (st_result test)) name_arg) (\<lambda>name.
     bindr (prg_report_print prefix ''result=%s'' [name] out) (\<lambda>out.
     bindr (prg_report_print prefix ''asserts.passed=%d'' [PInt (st_assertions_passed test)] out) (\<lambda>out.
     bindr (prg_report_print prefix ''asserts.total=%d'' [PInt (st_assertions test)] out) (\<lambda>out.
       prg_report_print prefix ''time=%lf'' [seconds tics (st_start test) (st_end test)] out)))))"

definition put_suite :: "nat \<Rightarrow> 'f stat_suite_info \<Rightarrow> string \<Rightarrow> string res" where
  "put_suite tics suite out =
     (let nm = su_name (ss_suite suite) in
      bindr (prg_report_set ''suite.%s'' [pstr nm]) (\<lambda>prefix.
      bindr (prg_report_print prefix ''result=%d'' [pint (if ss_result suite then 1 else 0)] out) (\<lambda>out.
      bindr (prg_report_print prefix ''asserts.passed=%d'' [PInt (ss_assertions_passed suite)] out) (\<lambda>out.
      bindr (prg_report_print prefix ''asserts.total=%d'' [PInt (ss_assertions suite)] out) (\<lambda>out.
      bindr (prg_report_print prefix ''time=%lf'' [seconds tics (ss_start suite) (ss_end suite)] out) (\<lambda>out.
        fold_res (put_test tics nm) (ss_test_info_list suite) out))))))"

definition put_message :: "'f test_statistics \<Rightarrow> string \<Rightarrow> int \<Rightarrow> string \<Rightarrow> string res" where
  "put_message stat prefix i out =
     bindr (bindr (msg_format_priority i) name_arg) (\<lambda>name.
       prg_report_print prefix ''%s=%d'' [name, PInt (m_messages stat ! nat i)] out)"

definition test_report_put_file :: "nat \<Rightarrow> 'f test_statistics \<Rightarrow> string res" where
  "test_report_put_file tics stat =
     bindr (prg_report_set ''summary'' []) (\<lambda>prefix.
     bindr (prg_report_print prefix ''passed=%d'' [PInt (m_passed stat)] []) (\<lambda>out.
     bindr (prg_report_print prefix ''failed=%d'' [PInt (m_failed stat)] out) (\<lambda>out.
     bindr (prg_report_print prefix ''segfault=%d'' [PInt (m_sigsegv stat)] out) (\<lambda>out.
     bindr (fold_res (put_suite tics) (m_suite_info_list stat) out) (\<lambda>out.
     bindr (prg_report_set ''message'' []) (\<lambda>prefix.
       fold_res (put_message stat prefix) [LOG_CRIT..LOG_DEBUG] out))))))"

text \<open>
  What the report modules do to the world: print on a stream, write a file, run a command,
  remove a file.
\<close>

datatype report_effect =
    Print bool string            \<comment> \<open>to stderr?\<close>
  | Write_file string string
  | System string
  | Unlink string

text \<open>
  \<open>test_report_program\<close>: \<open>fname\<close> is the name \<open>g_mkstemp\<close> chose, or \<open>None\<close> when no file
  could be made.
\<close>

definition test_report_program ::
  "'e logger \<Rightarrow> nat \<Rightarrow> string option \<Rightarrow> string option \<Rightarrow> string \<Rightarrow> 'f test_statistics \<Rightarrow> 'e
     \<Rightarrow> (report_effect list \<times> 'e) res" where
  "test_report_program lg tics fname program_name template stat e =
     (case fname of
        None \<Rightarrow> Inl AssertAbort
      | Some fname \<Rightarrow>
          bindr (test_report_put_file tics stat) (\<lambda>content.
          bindr (case program_name of
                   Some p \<Rightarrow> vformat ''%s %s'' [pstr p, pstr fname]
                 | None \<Rightarrow> Inr (prg_report_replace template fname)) (\<lambda>prog.
          bindr (lg_macro lg LOG_DEBUG ''Running statistics''
                   (eval_tags [msg_tag_str ''program'' program_name, msg_tag_str ''command'' (Some prog)]) e) (\<lambda>e.
            Inr ([Write_file fname content, System prog, Unlink fname], e)))))"

definition test_report_program_check :: "int \<Rightarrow> bool \<Rightarrow> bool" where
  "test_report_program_check verbosity enable_colour = True"

text \<open>\<open>fopen\<close> answers \<open>None\<close>, or the error number and its text.\<close>

definition test_report_file_check ::
  "'e logger \<Rightarrow> string option \<Rightarrow> (string \<Rightarrow> (32 word \<times> string) option) \<Rightarrow> 'e \<Rightarrow> (bool \<times> 'e) res" where
  "test_report_file_check lg filename fopen e =
     (case filename of
        None \<Rightarrow>
          bindr (lg_macro lg LOG_ERR ''Missing destination name from file report'' (Inr []) e) (\<lambda>e.
            Inr (False, e))
      | Some f \<Rightarrow>
          (case fopen f of
             Some (code, reason) \<Rightarrow>
               bindr (lg_macro lg LOG_ERR ''Cannot create file''
                        (eval_tags [msg_tag_str ''name'' (Some f), msg_tag_int ''code'' code,
                                    msg_tag_str ''reason'' (Some reason)]) e) (\<lambda>e.
                 Inr (False, e))
           | None \<Rightarrow> Inr (True, e)))"

definition test_report_file :: "nat \<Rightarrow> string \<Rightarrow> 'f test_statistics \<Rightarrow> report_effect list res" where
  "test_report_file tics filename stat =
     bindr (test_report_put_file tics stat) (\<lambda>content. Inr [Write_file filename content])"

section \<open>Replacing the argument\<close>

fun replace_all :: "string \<Rightarrow> string \<Rightarrow> string" where
  "replace_all [] arg = []"
| "replace_all (c # cs) arg =
     (if c = CHR ''%'' \<and> take 1 cs = ''s'' then arg @ replace_all (drop 1 cs) arg
      else c # replace_all cs arg)"

lemma strstr_arg_replace:
  "replace_all s arg =
     (case strstr_arg s of None \<Rightarrow> s | Some (before, after) \<Rightarrow> before @ arg @ replace_all after arg)"
  by (induction s) (auto split: option.splits)

text \<open>The command of a template is the template with every \<open>%s\<close> replaced by the file
  name, in one pass from left to right: what is inserted is not scanned again.\<close>

theorem replace_is_replace_all: "prg_report_replace template argument = replace_all template argument"
proof (induction template argument rule: prg_report_replace.induct)
  case (1 template argument)
  show ?case
  proof (cases "strstr_arg template")
    case None
    then show ?thesis
      by (simp add: prg_report_replace.simps [of template] strstr_arg_replace [of template])
  next
    case (Some p)
    obtain before after where p: "p = (before, after)" by (cases p)
    have "prg_report_replace after argument = replace_all after argument"
      using 1 [OF Some, of before after] p by simp
    then show ?thesis
      by (simp add: prg_report_replace.simps [of template] strstr_arg_replace [of template] Some p)
  qed
qed

section \<open>Sizes\<close>

lemma bit_len_bounds: "0 < n \<Longrightarrow> 2 ^ (bit_len n - 1) \<le> n \<and> n < 2 ^ bit_len n \<and> 0 < bit_len n"
proof (induction n rule: bit_len.induct)
  case (1 n)
  show ?case
  proof (cases "n = 1")
    case True
    then show ?thesis by (simp add: bit_len.simps)
  next
    case False
    then have "0 < n div 2" using 1(2) by simp
    then have ih: "2 ^ (bit_len (n div 2) - 1) \<le> n div 2" "n div 2 < 2 ^ bit_len (n div 2)" "0 < bit_len (n div 2)"
      using 1 by auto
    then obtain k where k: "bit_len (n div 2) = Suc k" by (cases "bit_len (n div 2)") auto
    have "bit_len n = Suc (Suc k)" using 1(2) k by (simp add: bit_len.simps [of n])
    moreover have "2 * (n div 2) \<le> n" "n < 2 * (n div 2) + 2" by simp_all
    ultimately show ?thesis using ih k by simp
  qed
qed

lemma bit_len_one: "bit_len (Suc 0) = 1"
  by (simp add: bit_len.simps [of "Suc 0"] bit_len.simps [of 0])

text \<open>Integers below \<open>2 ^ 53\<close> are doubles.\<close>

lemma double_small:
  assumes "0 < n" and "n < 2 ^ 53"
  shows "\<exists>s. double_quot n 1 = (n * 2 ^ s, 2 ^ s)"
proof -
  have b: "2 ^ (bit_len n - 1) \<le> n" "n < 2 ^ bit_len n" "0 < bit_len n"
    using bit_len_bounds [OF assms(1)] by auto
  define k where "k = bit_len n - 1"
  have k: "bit_len n = Suc k" using b(3) by (simp add: k_def)
  have low: "(2::nat) ^ k \<le> n" using b(1) by (simp add: k_def)
  then have "(2::nat) ^ k < 2 ^ 53" using assms(2) by (rule le_less_trans)
  then have k53: "k < 53" by (rule power_less_imp_less_exp [rotated]) simp
  define s where "s = 52 - k"
  have s: "nat (53 + int (bit_len 1) - int (bit_len n)) = Suc s" "53 + int (bit_len 1) - int (bit_len n) = int (Suc s)"
    using k53 by (simp_all add: k s_def bit_len_one)
  have "(2::nat) ^ 53 = 2 ^ (k + Suc s)" using k53 by (simp add: s_def)
  also have "\<dots> = 2 ^ k * 2 ^ Suc s" by (rule power_add)
  also have "\<dots> \<le> n * 2 ^ Suc s" using low by (rule mult_le_mono1)
  finally have ge: "1 * 2 ^ (53 + nat (- int (Suc s))) \<le> n * 2 ^ Suc s" by simp
  have sh: "double_shift n 1 = int s"
    unfolding double_shift_def Let_def s(1) unfolding s(2) if_P [OF ge] by simp
  have "round_div (n * 2 ^ s) 1 = n * 2 ^ s" by (simp add: round_div_def)
  then show ?thesis by (intro exI [of _ s]) (simp add: double_quot_def sh [simplified] Let_def)
qed

lemma round_div_exact: "0 < d \<Longrightarrow> round_div (q * d) d = q"
  by (simp add: round_div_def)

lemma round_div_cancel: "0 < c \<Longrightarrow> round_div (a * c) (b * c) = round_div a b"
  by (simp add: round_div_def Let_def div_mult_mult2 mult_mod_left flip: mult.assoc)

lemma fixed_str_cancel: "0 < c \<Longrightarrow> fixed_str p (a * c) (b * c) = fixed_str p a b"
  using round_div_cancel [of c "a * 10 ^ p" b] by (simp add: fixed_str_def mult_ac)

lemma vformat_sizes:
  "vformat ''%.2lf MB'' [PDbl (int n) d] = Inr (fixed_str 2 n d @ '' MB'')"
  "vformat ''%.2lf kB'' [PDbl (int n) d] = Inr (fixed_str 2 n d @ '' kB'')"
  "vformat ''%u B'' [PInt w] = Inr (nat_str (unat w) @ '' B'')"
  by (simp_all add: vformat_def is_digit_def digit_val_def pad_def fspec0_def numeral_2_eq_2)

lemma length_nat_str: "n < 10 ^ k \<Longrightarrow> 0 < k \<Longrightarrow> length (nat_str n) \<le> k"
proof (induction k arbitrary: n)
  case (Suc k)
  show ?case
  proof (cases "n < 10")
    case True
    then show ?thesis by (simp add: nat_str_def render_nat.simps [of False 10 n])
  next
    case False
    have "0 < k" using False Suc.prems by (cases k) auto
    moreover have "n div 10 < 10 ^ k" using Suc.prems by (simp add: less_mult_imp_div_less mult.commute)
    ultimately have "length (nat_str (n div 10)) \<le> k" using Suc.IH by blast
    then show ?thesis using False by (simp add: nat_str_def render_nat.simps [of False 10 n])
  qed
qed simp

lemma fixed_str_whole: "fixed_str 2 n 1 = nat_str n @ ''.00''"
  by (simp add: fixed_str_def round_div_def nat_str_def render_nat.simps [of False 10 0] digit_char_def
      numeral_2_eq_2)

lemma length_fixed_str: "round_div (n * 100) d < 10 ^ (k + 2) \<Longrightarrow> 0 < k \<Longrightarrow> length (fixed_str 2 n d) \<le> k + 3"
proof -
  assume a: "round_div (n * 100) d < 10 ^ (k + 2)" "0 < k"
  let ?v = "round_div (n * 100) d"
  have "?v div 100 < 10 ^ k" using a(1) by (simp add: less_mult_imp_div_less power_add)
  then have "length (nat_str (?v div 100)) \<le> k" using length_nat_str a(2) by blast
  moreover have "length (nat_str (?v mod 100)) \<le> 2" by (rule length_nat_str) simp_all
  ultimately show ?thesis by (simp add: fixed_str_def Let_def)
qed

text \<open>How sizes are printed: bytes below a kilobyte, two decimals of kilobytes below a
  megabyte; but from a megabyte on it is the number of bytes itself that is printed as if it
  were megabytes, because the macro for a megabyte is a product without parentheses.\<close>

theorem human_sizes:
  assumes "unat n < 2 ^ 53"
  shows "humanly_readable_size 128 n =
     Inr (if unat n < 1024 then nat_str (unat n) @ '' B''
          else if unat n < 2 ^ 20 then fixed_str 2 (unat n) 1024 @ '' kB''
          else nat_str (unat n) @ ''.00 MB'')"
proof -
  have big: "length (nat_str (unat n)) \<le> 16"
    using assms by (intro length_nat_str) simp_all
  consider "unat n < 1024" | "1024 \<le> unat n" "unat n < 2 ^ 20" | "2 ^ 20 \<le> unat n" by linarith
  then show ?thesis
  proof cases
    case 1
    then have "unat (ucast n :: 32 word) = unat n" by (simp add: unsigned_ucast_eq take_bit_nat_eq_self)
    then show ?thesis using 1 big by (simp add: humanly_readable_size_def vformat_sizes)
  next
    case 2
    obtain s where s: "double_quot (unat n) 1 = (unat n * 2 ^ s, 2 ^ s)"
      using double_small [of "unat n"] assms 2 by auto
    have "fixed_str 2 (unat n * 2 ^ s) (2 ^ s * 1024) = fixed_str 2 (unat n) 1024"
      using fixed_str_cancel [of "2 ^ s" 2 "unat n" 1024] by (simp add: mult.commute)
    then have v: "vformat ''%.2lf kB'' [double_kB n] = Inr (fixed_str 2 (unat n) 1024 @ '' kB'')"
      unfolding double_kB_def s Let_def prod.case vformat_sizes by simp
    have "length (fixed_str 2 (unat n) 1024) \<le> 5 + 3"
    proof (rule length_fixed_str)
      have "unat n * 100 div 1024 \<le> 2 ^ 20 * 100 div 1024"
        using 2 by (intro div_le_mono mult_le_mono1) simp
      then show "round_div (unat n * 100) 1024 < 10 ^ (5 + 2)"
        by (auto simp: round_div_def Let_def)
    qed simp
    then show ?thesis using 2 by (simp add: humanly_readable_size_def v)
  next
    case 3
    obtain s where s: "double_quot (unat n) 1 = (unat n * 2 ^ s, 2 ^ s)"
      using double_small [of "unat n"] assms 3 by auto
    have "fixed_str 2 (unat n * 2 ^ s * 1024) (2 ^ s * 1024) = nat_str (unat n) @ ''.00''"
      using fixed_str_cancel [of "2 ^ s * 1024" 2 "unat n" 1] fixed_str_whole [of "unat n"]
      by (simp add: mult.assoc)
    then have v: "vformat ''%.2lf MB'' [double_MB n] = Inr ((nat_str (unat n) @ ''.00'') @ '' MB'')"
      unfolding double_MB_def s Let_def prod.case vformat_sizes by simp
    show ?thesis using 3 big by (simp add: humanly_readable_size_def v)
  qed
qed

lemma human_sizes_witness: "humanly_readable_size 128 2097152 = Inr ''2097152.00 MB''"
  using human_sizes [of 2097152]
  by (simp add: nat_str_def render_nat.simps digit_char_def)

section \<open>Reading the report back\<close>

text \<open>Keys as lists of parts, and what the file should say under each key.\<close>

fun join_dots :: "string list \<Rightarrow> string" where
  "join_dots [] = []"
| "join_dots [p] = p"
| "join_dots (p # q # ps) = p @ ''.'' @ join_dots (q # ps)"

fun result_text :: "test_result \<Rightarrow> string" where
  "result_text TEST_PASSED = ''passed''"
| "result_text TEST_FAILED = ''failed''"
| "result_text TEST_ABORT = ''abort''"
| "result_text TEST_SEGFAULT = ''segfault''"
| "result_text TEST_INTERNAL = ''internal''"
| "result_text TEST_NONE = ''none''"

definition count_text :: "32 word \<Rightarrow> string" where
  "count_text w = int_str (sint w)"

definition seconds_text :: "nat \<Rightarrow> 64 word \<Rightarrow> 64 word \<Rightarrow> string" where
  "seconds_text tics began ended =
     (case seconds tics began ended of
        PDbl n d \<Rightarrow> (if n < 0 then ''-'' else []) @ fixed_str 6 (nat \<bar>n\<bar>) d
      | _ \<Rightarrow> [])"

definition value_entries :: "string list \<Rightarrow> string \<Rightarrow> 32 word \<Rightarrow> 32 word \<Rightarrow> string \<Rightarrow> (string list \<times> string) list" where
  "value_entries pre result passed asserts time =
     [(pre @ [''result''], result), (pre @ [''asserts'', ''passed''], count_text passed),
      (pre @ [''asserts'', ''total''], count_text asserts), (pre @ [''time''], time)]"

definition test_entries :: "nat \<Rightarrow> string \<Rightarrow> 'f stat_test_info \<Rightarrow> (string list \<times> string) list" where
  "test_entries tics sn t =
     value_entries [''suite'', sn, ''test'', tc_name (st_test t)] (result_text (st_result t))
       (st_assertions_passed t) (st_assertions t) (seconds_text tics (st_start t) (st_end t))"

definition suite_entries :: "nat \<Rightarrow> 'f stat_suite_info \<Rightarrow> (string list \<times> string) list" where
  "suite_entries tics s =
     value_entries [''suite'', su_name (ss_suite s)] (if ss_result s then ''1'' else ''0'')
       (ss_assertions_passed s) (ss_assertions s) (seconds_text tics (ss_start s) (ss_end s)) @
     concat (map (test_entries tics (su_name (ss_suite s))) (ss_test_info_list s))"

definition priority_text :: "int \<Rightarrow> string" where
  "priority_text i = (case msg_format_priority i of Inr (NamePtr nm) \<Rightarrow> nm | _ \<Rightarrow> [])"

definition report_entries :: "nat \<Rightarrow> 'f test_statistics \<Rightarrow> (string list \<times> string) list" where
  "report_entries tics stat =
     [([''summary'', ''passed''], count_text (m_passed stat)),
      ([''summary'', ''failed''], count_text (m_failed stat)),
      ([''summary'', ''segfault''], count_text (m_sigsegv stat))] @
     concat (map (suite_entries tics) (m_suite_info_list stat)) @
     map (\<lambda>i. ([''message'', priority_text i], count_text (m_messages stat ! nat i))) [LOG_CRIT..LOG_DEBUG]"

definition entry_line :: "string list \<times> string \<Rightarrow> string" where
  "entry_line = (\<lambda>(ks, v). join_dots ks @ ''='' @ v @ newline)"

text \<open>A reader of the file: lines, split at the first equal sign.\<close>

fun file_lines :: "string \<Rightarrow> string \<Rightarrow> string list" where
  "file_lines acc [] = (if acc = [] then [] else [rev acc])"
| "file_lines acc (c # cs) = (if c = CHR 0x0A then rev acc # file_lines [] cs else file_lines (c # acc) cs)"

definition split_line :: "string \<Rightarrow> string \<times> string" where
  "split_line l = (takeWhile (\<lambda>c. c \<noteq> CHR ''='') l, drop 1 (dropWhile (\<lambda>c. c \<noteq> CHR ''='') l))"

definition report_lookup :: "string \<Rightarrow> string \<rightharpoonup> string" where
  "report_lookup t = map_of (map split_line (file_lines [] t))"

definition name_clean :: "string \<Rightarrow> bool" where
  "name_clean s \<longleftrightarrow> test_validate_name s \<and> CHR 0x0A \<notin> set s \<and> length s \<le> 1000"

definition stat_clean :: "'f test_statistics \<Rightarrow> bool" where
  "stat_clean stat \<longleftrightarrow>
     distinct (map (\<lambda>s. su_name (ss_suite s)) (m_suite_info_list stat)) \<and>
     (\<forall>s \<in> set (m_suite_info_list stat). name_clean (su_name (ss_suite s)) \<and>
        distinct (map (\<lambda>t. tc_name (st_test t)) (ss_test_info_list s)) \<and>
        (\<forall>t \<in> set (ss_test_info_list s). name_clean (tc_name (st_test t)) \<and> st_result t \<noteq> TEST_NONE))"

subsection \<open>What is written\<close>

lemma print_value:
  "prg_report_print prefix ''result=%s'' [pstr v] out = Inr (out @ prefix @ ''.result='' @ v @ newline)"
  "prg_report_print prefix ''result=%d'' [pint (if b then 1 else 0)] out =
     Inr (out @ prefix @ ''.result='' @ (if b then ''1'' else ''0'') @ newline)"
  "prg_report_print prefix ''asserts.passed=%d'' [PInt w] out =
     Inr (out @ prefix @ ''.asserts.passed='' @ count_text w @ newline)"
  "prg_report_print prefix ''asserts.total=%d'' [PInt w] out =
     Inr (out @ prefix @ ''.asserts.total='' @ count_text w @ newline)"
  "prg_report_print prefix ''passed=%d'' [PInt w] out = Inr (out @ prefix @ ''.passed='' @ count_text w @ newline)"
  "prg_report_print prefix ''failed=%d'' [PInt w] out = Inr (out @ prefix @ ''.failed='' @ count_text w @ newline)"
  "prg_report_print prefix ''segfault=%d'' [PInt w] out = Inr (out @ prefix @ ''.segfault='' @ count_text w @ newline)"
  "prg_report_print prefix ''%s=%d'' [pstr v, PInt w] out =
     Inr (out @ prefix @ ''.'' @ v @ ''='' @ count_text w @ newline)"
  by (simp_all add: prg_report_print_def vformat_simps count_text_def is_digit_def pad_def fspec0_def
      int_str_def nat_str_def render_nat.simps digit_char_def)

lemma print_time:
  "prg_report_print prefix ''time=%lf'' [seconds tics a b] out =
     Inr (out @ prefix @ ''.time='' @ seconds_text tics a b @ newline)"
proof -
  obtain a1 b1 where 1: "double_quot (nat \<bar>sint (b - a)\<bar>) 1 = (a1, b1)" by fastforce
  obtain m d1 where 2: "double_quot a1 (b1 * tics) = (m, d1)" by fastforce
  obtain n d where "seconds tics a b = PDbl n d"
    using 1 2 by (simp add: seconds_def)
  then show ?thesis
    by (simp add: prg_report_print_def vformat_simps seconds_text_def is_digit_def pad_def fspec0_def)
qed

lemma result_name: "r \<noteq> TEST_NONE \<Longrightarrow> bindr (test_result_name r) name_arg = Inr (pstr (result_text r))"
  by (cases r)
     (simp_all add: test_result_name_def TestCaseResult_names_def tinu_lookup_key_def name_entry_def name_arg_def)

lemma set_prefix:
  "length sn \<le> 1000 \<Longrightarrow> prg_report_set ''suite.%s'' [pstr sn] = Inr (''suite.'' @ sn)"
  "length sn \<le> 1000 \<Longrightarrow> length tn \<le> 1000 \<Longrightarrow>
     prg_report_set ''suite.%s.test.%s'' [pstr sn, pstr tn] = Inr (''suite.'' @ sn @ ''.test.'' @ tn)"
  "prg_report_set ''summary'' [] = Inr ''summary''"
  "prg_report_set ''message'' [] = Inr ''message''"
  by (simp_all add: prg_report_set_def vformat_simps is_digit_def pad_def fspec0_def)

lemma put_test_entries:
  assumes "length sn \<le> 1000" and "length (tc_name (st_test t)) \<le> 1000" and "st_result t \<noteq> TEST_NONE"
  shows "put_test tics sn t out = Inr (out @ concat (map entry_line (test_entries tics sn t)))"
  unfolding put_test_def set_prefix(2) [OF assms(1,2)] result_name [OF assms(3)]
  by (simp add: print_value print_time test_entries_def value_entries_def entry_line_def)

lemma put_tests_entries:
  assumes "length sn \<le> 1000"
    and "\<forall>t \<in> set ts. length (tc_name (st_test t)) \<le> 1000 \<and> st_result t \<noteq> TEST_NONE"
  shows "fold_res (put_test tics sn) ts out =
     Inr (out @ concat (map entry_line (concat (map (test_entries tics sn) ts))))"
  using assms(2)
proof (induction ts arbitrary: out)
  case (Cons t ts)
  then show ?case using put_test_entries [OF assms(1), of t tics out] by simp
qed simp

lemma put_suite_entries:
  assumes "length (su_name (ss_suite s)) \<le> 1000"
    and "\<forall>t \<in> set (ss_test_info_list s). length (tc_name (st_test t)) \<le> 1000 \<and> st_result t \<noteq> TEST_NONE"
  shows "put_suite tics s out = Inr (out @ concat (map entry_line (suite_entries tics s)))"
  unfolding put_suite_def Let_def set_prefix(1) [OF assms(1)]
  by (simp add: print_value print_time put_tests_entries [OF assms] suite_entries_def value_entries_def
      entry_line_def)

lemma put_suites_entries:
  assumes "\<forall>s \<in> set ss. length (su_name (ss_suite s)) \<le> 1000 \<and>
      (\<forall>t \<in> set (ss_test_info_list s). length (tc_name (st_test t)) \<le> 1000 \<and> st_result t \<noteq> TEST_NONE)"
  shows "fold_res (put_suite tics) ss out =
     Inr (out @ concat (map entry_line (concat (map (suite_entries tics) ss))))"
  using assms
proof (induction ss arbitrary: out)
  case (Cons s ss)
  then show ?case using put_suite_entries [of s tics out] by simp
qed simp

lemma priority_range: "[LOG_CRIT..LOG_DEBUG] = [2, 3, 4, 5, 6, 7]"
  by (simp add: upto_rec1)

lemma priority_texts:
  "priority_text 2 = ''critical''" "priority_text 3 = ''error''" "priority_text 4 = ''warning''"
  "priority_text 5 = ''notice''" "priority_text 6 = ''info''" "priority_text 7 = ''debug''"
  by (simp_all add: priority_text_def msg_format_priority_def tinu_lookup_key_def MessagePriority_names_def
      name_entry_def)

lemma put_message_entry:
  assumes "i \<in> {2, 3, 4, 5, 6, 7}"
  shows "put_message stat ''message'' i out =
     Inr (out @ entry_line ([''message'', priority_text i], count_text (m_messages stat ! nat i)))"
proof -
  obtain nm where nm: "msg_format_priority i = Inr (NamePtr nm)"
    using format_priority_total [of i] assms by (auto simp: priority_ok_def)
  then have "priority_text i = nm" by (simp add: priority_text_def)
  then show ?thesis
    by (simp add: put_message_def nm name_arg_def print_value entry_line_def)
qed

lemma put_messages_entries:
  assumes "set is \<subseteq> {2, 3, 4, 5, 6, 7}"
  shows "fold_res (put_message stat ''message'') is out =
     Inr (out @ concat (map (\<lambda>i. entry_line ([''message'', priority_text i], count_text (m_messages stat ! nat i))) is))"
  using assms
proof (induction "is" arbitrary: out)
  case (Cons i "is")
  then show ?case using put_message_entry [of i stat out] by simp
qed simp

lemma put_file_entries:
  assumes "stat_clean stat"
  shows "test_report_put_file tics stat = Inr (concat (map entry_line (report_entries tics stat)))"
proof -
  have c: "\<forall>s \<in> set (m_suite_info_list stat). length (su_name (ss_suite s)) \<le> 1000 \<and>
      (\<forall>t \<in> set (ss_test_info_list s). length (tc_name (st_test t)) \<le> 1000 \<and> st_result t \<noteq> TEST_NONE)"
    using assms by (auto simp: stat_clean_def name_clean_def)
  have m: "set [LOG_CRIT..LOG_DEBUG] \<subseteq> {2, 3, 4, 5, 6, 7}" by (simp add: priority_range)
  show ?thesis
    unfolding test_report_put_file_def set_prefix(3,4)
    by (simp only: bindr.simps print_value put_suites_entries [OF c] put_messages_entries [OF m])
       (simp add: report_entries_def entry_line_def comp_def)
qed

subsection \<open>What is read\<close>

lemma file_lines_line:
  "CHR 0x0A \<notin> set l \<Longrightarrow> file_lines acc (l @ CHR 0x0A # r) = (rev acc @ l) # file_lines [] r"
  by (induction l arbitrary: acc) auto

lemma file_lines_entries:
  assumes "\<forall>(ks, v) \<in> set es. CHR 0x0A \<notin> set (join_dots ks) \<and> CHR 0x0A \<notin> set v"
  shows "file_lines [] (concat (map entry_line es)) = map (\<lambda>(ks, v). join_dots ks @ ''='' @ v) es"
  using assms
proof (induction es)
  case (Cons e es)
  obtain ks v where e: "e = (ks, v)" by (cases e)
  have "CHR 0x0A \<notin> set (join_dots ks @ ''='' @ v)" using Cons.prems e by simp
  from file_lines_line [OF this, of "[]" "concat (map entry_line es)"] show ?case
    using Cons e by (simp add: entry_line_def newline_def)
qed simp

lemma split_line_entry: "CHR ''='' \<notin> set k \<Longrightarrow> split_line (k @ ''='' @ v) = (k, v)"
  by (induction k) (auto simp: split_line_def)

lemma join_dots_cons: "ps \<noteq> [] \<Longrightarrow> join_dots (p # ps) = p @ ''.'' @ join_dots ps"
  by (cases ps) simp_all

lemma set_join_dots: "c \<in> set (join_dots ps) \<Longrightarrow> c = CHR ''.'' \<or> (\<exists>p \<in> set ps. c \<in> set p)"
  by (induction ps rule: join_dots.induct) auto

lemma join_dots_takeWhile:
  assumes "CHR ''.'' \<notin> set p"
  shows "takeWhile (\<lambda>c. c \<noteq> CHR ''.'') (join_dots (p # ps)) = p \<and>
         dropWhile (\<lambda>c. c \<noteq> CHR ''.'') (join_dots (p # ps)) = (if ps = [] then [] else ''.'' @ join_dots ps)"
proof (cases "ps = []")
  case True
  then show ?thesis using assms by (induction p) auto
next
  case False
  then show ?thesis using assms by (induction p) (auto simp: join_dots_cons)
qed

lemma join_dots_inj:
  assumes "\<forall>p \<in> set ps. CHR ''.'' \<notin> set p" and "\<forall>p \<in> set qs. CHR ''.'' \<notin> set p"
    and "ps \<noteq> []" and "qs \<noteq> []" and "join_dots ps = join_dots qs"
  shows "ps = qs"
  using assms
proof (induction ps arbitrary: qs)
  case (Cons p ps)
  obtain q qs' where q: "qs = q # qs'" using Cons.prems(4) by (cases qs) auto
  have "p = q" and rest: "(if ps = [] then [] else ''.'' @ join_dots ps) = (if qs' = [] then [] else ''.'' @ join_dots qs')"
    using join_dots_takeWhile [of p ps] join_dots_takeWhile [of q qs'] Cons.prems q by auto
  show ?case
  proof (cases "ps = []")
    case True
    then show ?thesis using rest q \<open>p = q\<close> by (simp split: if_splits)
  next
    case False
    then have "qs' \<noteq> []" "join_dots ps = join_dots qs'" using rest by (simp_all split: if_splits)
    then have "ps = qs'" using Cons.IH [of qs'] Cons.prems False q by simp
    then show ?thesis using q \<open>p = q\<close> by simp
  qed
qed simp

subsection \<open>Keys and values\<close>

definition part_clean :: "string \<Rightarrow> bool" where
  "part_clean s \<longleftrightarrow> CHR ''.'' \<notin> set s \<and> CHR ''='' \<notin> set s \<and> CHR 0x0A \<notin> set s"

lemma name_clean_part: "name_clean s \<Longrightarrow> part_clean s"
  by (simp add: name_clean_def part_clean_def test_validate_name_iff)

lemma newline_no_digit: "CHR 0x0A \<notin> set (nat_str n)"
  using set_nat_str [of n] by (auto simp: decimal_digits_def)

lemma result_text_clean: "CHR 0x0A \<notin> set (result_text r)"
  by (cases r) simp_all

lemma values_clean:
  "CHR 0x0A \<notin> set (count_text w)" "CHR 0x0A \<notin> set (result_text r)" "CHR 0x0A \<notin> set (seconds_text tics a b)"
  using result_text_clean
  by (auto simp: count_text_def int_str_def newline_no_digit seconds_text_def fixed_str_def Let_def
       split: parg.splits)

lemma value_entries_clean:
  assumes "(ks, v) \<in> set (value_entries pre res p n tm)" and "\<forall>s \<in> set pre. part_clean s"
    and "CHR 0x0A \<notin> set res" and "CHR 0x0A \<notin> set tm"
  shows "(\<forall>s \<in> set ks. part_clean s) \<and> ks \<noteq> [] \<and> CHR 0x0A \<notin> set v"
  using assms by (auto simp: value_entries_def values_clean) (auto simp: part_clean_def)

lemma report_entries_clean:
  assumes "stat_clean stat" and "(ks, v) \<in> set (report_entries tics stat)"
  shows "(\<forall>s \<in> set ks. part_clean s) \<and> ks \<noteq> [] \<and> CHR 0x0A \<notin> set v"
proof -
  have fixed: "part_clean ''suite''" "part_clean ''test''" "part_clean ''summary''" "part_clean ''message''"
    "part_clean ''passed''" "part_clean ''failed''" "part_clean ''segfault''"
    by (simp_all add: part_clean_def)
  have prio: "part_clean (priority_text i)" if "i \<in> {2, 3, 4, 5, 6, 7}" for i
    using that by (auto simp: part_clean_def priority_texts)
  have tests: "(\<forall>s \<in> set ks. part_clean s) \<and> ks \<noteq> [] \<and> CHR 0x0A \<notin> set v"
    if "s \<in> set (m_suite_info_list stat)" "t \<in> set (ss_test_info_list s)"
      "(ks, v) \<in> set (test_entries tics (su_name (ss_suite s)) t)" for s t
  proof -
    have "part_clean (su_name (ss_suite s))" "part_clean (tc_name (st_test t))"
      using assms(1) that(1,2) by (auto simp: stat_clean_def intro: name_clean_part)
    with that(3) fixed show ?thesis
      unfolding test_entries_def by (intro value_entries_clean) (auto simp: values_clean)
  qed
  have suites: "(\<forall>s \<in> set ks. part_clean s) \<and> ks \<noteq> [] \<and> CHR 0x0A \<notin> set v"
    if "s \<in> set (m_suite_info_list stat)"
      "(ks, v) \<in> set (value_entries [''suite'', su_name (ss_suite s)] (if ss_result s then ''1'' else ''0'')
         (ss_assertions_passed s) (ss_assertions s) (seconds_text tics (ss_start s) (ss_end s)))" for s
  proof -
    have "part_clean (su_name (ss_suite s))"
      using assms(1) that(1) by (auto simp: stat_clean_def intro: name_clean_part)
    with that(2) fixed show ?thesis
      by (intro value_entries_clean) (auto simp: values_clean split: if_splits)
  qed
  show ?thesis
    using assms(2) tests suites fixed prio
    by (fastforce simp: report_entries_def suite_entries_def priority_range values_clean)
qed

lemma distinct_concat_by:
  assumes "distinct (map key xs)" and "\<And>x. x \<in> set xs \<Longrightarrow> distinct (f x)"
    and "\<And>x k. x \<in> set xs \<Longrightarrow> k \<in> set (f x) \<Longrightarrow> owner k = key x"
  shows "distinct (concat (map f xs))"
  using assms
proof (induction xs)
  case (Cons x xs)
  have "set (f x) \<inter> set (concat (map f xs)) = {}"
  proof (rule ccontr)
    assume "set (f x) \<inter> set (concat (map f xs)) \<noteq> {}"
    then obtain k y where "k \<in> set (f x)" "y \<in> set xs" "k \<in> set (f y)" by auto
    then have "key x = key y" using Cons.prems(3) [of x k] Cons.prems(3) [of y k] by simp
    then show False using Cons.prems(1) \<open>y \<in> set xs\<close> by auto
  qed
  then show ?case using Cons by auto
qed simp

definition value_keys :: "string list \<Rightarrow> string list list" where
  "value_keys pre = [pre @ [''result''], pre @ [''asserts'', ''passed''], pre @ [''asserts'', ''total''], pre @ [''time'']]"

lemma value_entries_keys: "map fst (value_entries pre res p n tm) = value_keys pre"
  by (simp add: value_entries_def value_keys_def)

definition suite_keys :: "'f stat_suite_info \<Rightarrow> string list list" where
  "suite_keys s =
     value_keys [''suite'', su_name (ss_suite s)] @
     concat (map (\<lambda>t. value_keys [''suite'', su_name (ss_suite s), ''test'', tc_name (st_test t)]) (ss_test_info_list s))"

lemma suite_entries_keys: "map fst (suite_entries tics s) = suite_keys s"
  by (simp add: suite_entries_def suite_keys_def value_entries_keys test_entries_def map_concat comp_def)

lemma distinct_suite_keys:
  assumes "distinct (map (\<lambda>t. tc_name (st_test t)) (ss_test_info_list s))"
  shows "distinct (suite_keys s)"
proof -
  let ?f = "\<lambda>t. value_keys [''suite'', su_name (ss_suite s), ''test'', tc_name (st_test t)]"
  have "distinct (concat (map ?f (ss_test_info_list s)))"
    by (rule distinct_concat_by [OF assms, where owner = "\<lambda>k. k ! 3"]) (auto simp: value_keys_def)
  then show ?thesis by (auto simp: suite_keys_def value_keys_def)
qed

lemma distinct_report_keys:
  assumes "stat_clean stat"
  shows "distinct (map fst (report_entries tics stat))"
proof -
  let ?ss = "m_suite_info_list stat"
  have d: "distinct (map (\<lambda>s. su_name (ss_suite s)) ?ss)"
    "\<And>s. s \<in> set ?ss \<Longrightarrow> distinct (map (\<lambda>t. tc_name (st_test t)) (ss_test_info_list s))"
    using assms by (auto simp: stat_clean_def)
  have "distinct (concat (map suite_keys ?ss))"
  proof (rule distinct_concat_by [OF d(1), where owner = "\<lambda>k. k ! 1"])
    show "distinct (suite_keys s)" if "s \<in> set ?ss" for s
      using distinct_suite_keys [OF d(2) [OF that]] .
  qed (auto simp: suite_keys_def value_keys_def)
  moreover have "hd k = ''suite''" if "k \<in> set (concat (map suite_keys ?ss))" for k
    using that by (auto simp: suite_keys_def value_keys_def)
  moreover have "map fst (report_entries tics stat) =
      [[''summary'', ''passed''], [''summary'', ''failed''], [''summary'', ''segfault'']] @
      concat (map suite_keys ?ss) @ map (\<lambda>i. [''message'', priority_text i]) [2, 3, 4, 5, 6, 7]"
    by (simp add: report_entries_def map_concat comp_def suite_entries_keys priority_range)
  ultimately show ?thesis by (force simp: priority_texts)
qed

text \<open>C10: The report for programs can be read back: in the file of statistics with clean
  names (no '.', '=' or line break, each suite and each test of a suite once) every value is
  found under its key, although keys are built by pasting names together.\<close>

theorem report_read_back:
  assumes "stat_clean stat"
  shows "\<exists>t. test_report_put_file tics stat = Inr t \<and>
           (\<forall>(ks, v) \<in> set (report_entries tics stat). report_lookup t (join_dots ks) = Some v)"
proof -
  let ?es = "report_entries tics stat"
  let ?t = "concat (map entry_line ?es)"
  have clean: "(\<forall>s \<in> set ks. part_clean s) \<and> ks \<noteq> [] \<and> CHR 0x0A \<notin> set v" if "(ks, v) \<in> set ?es" for ks v
    using report_entries_clean [OF assms that] .
  have key: "CHR ''='' \<notin> set (join_dots ks)" "CHR 0x0A \<notin> set (join_dots ks)" if "(ks, v) \<in> set ?es" for ks v
    using clean [OF that] by (auto simp: part_clean_def dest!: set_join_dots)
  have "file_lines [] ?t = map (\<lambda>(ks, v). join_dots ks @ ''='' @ v) ?es"
    using clean key by (intro file_lines_entries) auto
  then have "map split_line (file_lines [] ?t) = map (\<lambda>(ks, v). (join_dots ks, v)) ?es"
    using key by (auto simp: split_line_entry [simplified] intro!: map_cong)
  then have l: "report_lookup ?t = map_of (map (\<lambda>(ks, v). (join_dots ks, v)) ?es)"
    by (simp add: report_lookup_def)
  have "inj_on join_dots (fst ` set ?es)"
  proof (rule inj_onI)
    fix ks ks' assume "ks \<in> fst ` set ?es" "ks' \<in> fst ` set ?es" "join_dots ks = join_dots ks'"
    then show "ks = ks'" using clean by (intro join_dots_inj) (fastforce simp: part_clean_def)+
  qed
  then have "distinct (map join_dots (map fst ?es))"
    using distinct_report_keys [OF assms, of tics] by (simp only: distinct_map list.set_map simp_thms)
  moreover have "map fst (map (\<lambda>(ks, v). (join_dots ks, v)) ?es) = map join_dots (map fst ?es)"
    by (simp add: comp_def case_prod_unfold)
  ultimately have "distinct (map fst (map (\<lambda>(ks, v). (join_dots ks, v)) ?es))" by (simp only:)
  then have "report_lookup ?t (join_dots ks) = Some v" if "(ks, v) \<in> set ?es" for ks v
    unfolding l using that by (intro map_of_is_SomeI) force+
  then show ?thesis using put_file_entries [OF assms, of tics] by blast
qed

definition sample_stat :: "nat test_statistics" where
  "sample_stat =
     stat_new\<lparr>m_failed := 1,
       m_suite_info_list := [\<lparr>ss_suite = \<lparr>su_name = ''s'', su_tests = [sample_test ''t'' 2]\<rparr>, ss_result = False,
         ss_start = 1, ss_end = 5, ss_assertions = 1, ss_assertions_passed = 0,
         ss_test_info_list = [\<lparr>st_test = sample_test ''t'' 2, st_result = TEST_FAILED, st_start = 2, st_end = 4,
           st_assertions = 1, st_assertions_passed = 0, st_leaked_bytes = 0\<rparr>]\<rparr>]\<rparr>"

lemma report_read_back_witness:
  "\<exists>t. test_report_put_file 100 sample_stat = Inr t \<and>
       report_lookup t ''suite.s.test.t.result'' = Some ''failed'' \<and>
       report_lookup t ''summary.failed'' = Some ''1''"
proof -
  have clean: "stat_clean sample_stat"
    by (simp add: stat_clean_def sample_stat_def stat_new_def name_clean_def test_validate_name_iff sample_test_def)
  have "([''suite'', ''s'', ''test'', ''t'', ''result''], ''failed'') \<in> set (report_entries 100 sample_stat)"
    "([''summary'', ''failed''], ''1'') \<in> set (report_entries 100 sample_stat)"
    by (simp_all add: report_entries_def sample_stat_def suite_entries_def test_entries_def value_entries_def
        sample_test_def count_text_def int_str_def nat_str_def render_nat.simps digit_char_def stat_new_def)
  then show ?thesis
    using report_read_back [OF clean, of 100] by fastforce
qed

section \<open>Printing succeeds\<close>

lemma vformat_counts: "\<exists>t. vformat '' assertions passed: %d/%d'' [PInt a, PInt b] = Inr t"
  by (simp add: vformat_simps is_digit_def pad_def fspec0_def)

lemma summary_total: "\<exists>t. std_report_show_summary stat c = Inr t"
  by (cases c; cases "m_sigsegv stat = 0")
     (simp_all add: std_report_show_summary_def report_printf_def COL_OK_def COL_FAIL_def COL_FATAL_def
       esc_def newline_def vformat_simps is_digit_def pad_def fspec0_def)

lemma show_suite_total: "\<exists>t. std_report_show_suite s v c = Inr t"
proof -
  obtain a where "report_printf [''Suite  '', COL_ENTRY c ''%-*s'', '' %s'']
      [PInt 30, pstr (su_name (ss_suite s)),
       pstr (if ss_result s then COL_OK c ''passed'' else COL_FAIL c ''failed'')] = Inr a"
    by (cases c) (simp_all add: report_printf_def COL_ENTRY_def esc_def vformat_simps is_digit_def pad_def fspec0_def)
  moreover obtain b where "vformat '' assertions passed: %d/%d''
      [PInt (ss_assertions_passed s), PInt (ss_assertions s)] = Inr b"
    using vformat_counts by blast
  ultimately show ?thesis by (simp add: std_report_show_suite_def)
qed

lemma human_size_total: "\<exists>t. humanly_readable_size k n = Inr t"
proof -
  obtain m d where q: "double_quot (unat n) 1 = (m, d)" by fastforce
  have "vformat ''%.2lf MB'' [double_MB n] = Inr (fixed_str 2 (m * 1024) (d * 1024) @ '' MB'')"
    "vformat ''%.2lf kB'' [double_kB n] = Inr (fixed_str 2 m (d * 1024) @ '' kB'')"
    unfolding double_MB_def double_kB_def q Let_def prod.case vformat_sizes by simp_all
  then show ?thesis by (simp add: humanly_readable_size_def vformat_sizes)
qed

lemma show_case_total:
  assumes "st_result t \<noteq> TEST_NONE"
  shows "\<exists>x. std_report_show_case t v c = Inr x"
proof -
  obtain nm where nm: "test_result_name (st_result t) = Inr nm" "name_arg nm = Inr (pstr (result_text (st_result t)))"
    using result_name [OF assms] by (auto simp: res_simps)
  obtain a where a: "report_printf [''   Case '', COL_ENTRY c ''%-*s''] [PInt 33, pstr (tc_name (st_test t))] = Inr a"
    by (cases c) (simp_all add: report_printf_def COL_ENTRY_def esc_def vformat_simps is_digit_def pad_def fspec0_def)
  have col: "\<exists>r. report_printf [COL_OK c ''%s''] [pstr s] = Inr r" "\<exists>r. report_printf [COL_FAIL c ''%s''] [pstr s] = Inr r"
    "\<exists>r. report_printf [COL_FATAL c ''%s''] [pstr s] = Inr r" for s
    by (cases c; simp add: report_printf_def COL_OK_def COL_FAIL_def COL_FATAL_def esc_def vformat_simps
        is_digit_def pad_def fspec0_def)+
  obtain b where b: "vformat '' assertions passed: %d/%d'' [PInt (st_assertions_passed t), PInt (st_assertions t)] = Inr b"
    using vformat_counts by blast
  obtain h where h: "humanly_readable_size 128 (st_leaked_bytes t) = Inr h" using human_size_total by blast
  have l: "vformat '' leaked: %s'' [pstr h] = Inr ('' leaked: '' @ h)"
    by (simp add: vformat_simps is_digit_def pad_def fspec0_def)
  obtain m where m: "(if v = STAT_VERB_VERBOSE
      then vformat '' assertions passed: %d/%d'' [PInt (st_assertions_passed t), PInt (st_assertions t)] else Inr []) = Inr m"
    using b by (cases "v = STAT_VERB_VERBOSE") simp_all
  obtain k where k: "(if st_leaked_bytes t \<noteq> 0
      then bindr (humanly_readable_size 128 (st_leaked_bytes t)) (\<lambda>n. vformat '' leaked: %s'' [pstr n]) else Inr []) = Inr k"
    using h l by (cases "st_leaked_bytes t = 0") simp_all
  show ?thesis
    unfolding std_report_show_case_def nm bindr.simps a m k
    using assms col [of "result_text (st_result t)"] by (cases "st_result t") auto
qed

lemma fold_out_total:
  assumes "\<forall>x \<in> set xs. \<forall>out. \<exists>r. f x out = Inr r"
  shows "\<exists>r. fold_res f xs out = Inr r"
  using assms
proof (induction xs arbitrary: out)
  case (Cons x xs)
  obtain r where "f x out = Inr r" using Cons.prems by fastforce
  then show ?case using Cons by simp
qed simp

lemma report_print_total:
  assumes "\<forall>s \<in> set (m_suite_info_list stat). \<forall>t \<in> set (ss_test_info_list s). st_result t \<noteq> TEST_NONE"
  shows "\<exists>t. test_report_print stat v c = Inr t"
proof -
  obtain a where a: "std_report_show_summary stat c = Inr a" using summary_total by blast
  have "\<exists>r. report_suite_block v c s out = Inr r" if s: "s \<in> set (m_suite_info_list stat)" for s out
  proof -
    obtain h where h: "std_report_show_suite s v c = Inr h" using show_suite_total by blast
    have "\<exists>r. fold_res (\<lambda>test out. bindr (std_report_show_case test v c) (\<lambda>t. Inr (out @ t)))
        (ss_test_info_list s) [] = Inr r"
    proof (rule fold_out_total, intro ballI allI)
      fix t out assume "t \<in> set (ss_test_info_list s)"
      then obtain x where "std_report_show_case t v c = Inr x" using show_case_total assms s by blast
      then show "\<exists>r. bindr (std_report_show_case t v c) (\<lambda>t. Inr (out @ t)) = Inr r" by simp
    qed
    then show ?thesis using h by (auto simp: report_suite_block_def)
  qed
  then have "\<exists>b. fold_res (report_suite_block v c) (m_suite_info_list stat) a = Inr b"
    by (intro fold_out_total ballI allI)
  then obtain b where b: "fold_res (report_suite_block v c) (m_suite_info_list stat) a = Inr b" ..
  have "\<exists>r. report_message_line stat i out = Inr r" if i: "i \<in> {2, 3, 4, 5, 6, 7}" for i out
  proof -
    obtain nm where nm: "msg_format_priority i = Inr (NamePtr nm)"
      using format_priority_total [of i] i by (auto simp: priority_ok_def)
    obtain x where x: "vformat (''    %-*s %*d'' @ newline)
        [PInt 25, pstr nm, PInt 10, PInt (m_messages stat ! nat i)] = Inr x"
      by (simp add: newline_def vformat_simps is_digit_def pad_def fspec0_def)
    show ?thesis
      unfolding report_message_line_def nm name_arg_def name_ptr.case bindr.simps x by simp
  qed
  then have "\<exists>r. fold_res (report_message_line stat) [2, 3, 4, 5, 6, 7] (b @ ''Messages received:'' @ newline) = Inr r"
    by (intro fold_out_total) simp
  then obtain d where d: "fold_res (report_message_line stat) [LOG_CRIT..LOG_DEBUG] (b @ ''Messages received:'' @ newline) = Inr d"
    unfolding priority_range by blast
  show ?thesis unfolding test_report_print_def a bindr.simps b d by simp
qed

end
