(* ===== verification/TinuMain.thy ===== *)
theory TinuMain
  imports Report
begin

text \<open>
  The test runner (\<open>lib/main.c\<close>, \<open>lib/tinu/main.h\<close>, \<open>lib/meta.c\<close>, \<open>lib/tinu/meta.h\<close>):
  options, report modules, the main test context and \<open>tinu_main\<close>. GLib's option parser is
  not modelled; what it does is given as the list of options it found, in order, which are
  applied through the callbacks of the option table. The theorems relate the exit status
  and the report to the outcome of the tests.
\<close>

section \<open>Options\<close>

record options =
  g_opt_fancy :: bool
  g_opt_silent :: bool
  g_opt_syslog :: bool
  g_opt_sighandle :: bool
  g_opt_leakwatch :: bool
  g_opt_version :: bool
  g_opt_priority :: int
  g_opt_stat_verb :: int
  g_opt_suite :: "string option"
  g_opt_test_case :: "string option"
  g_opt_file :: "string option"
  g_opt_report :: "string option"
  g_opt_stderr :: bool                    \<comment> \<open>\<open>report-standard.c\<close>\<close>
  g_opt_program_name :: "string option"   \<comment> \<open>\<open>report-external.c\<close>\<close>
  g_opt_program_template :: string
  g_opt_filename :: "string option"

definition default_options :: options where
  "default_options =
     \<lparr>g_opt_fancy = False, g_opt_silent = False, g_opt_syslog = False, g_opt_sighandle = True,
      g_opt_leakwatch = False, g_opt_version = False, g_opt_priority = LOG_WARNING,
      g_opt_stat_verb = STAT_VERB_SUMMARY, g_opt_suite = None, g_opt_test_case = None,
      g_opt_file = None, g_opt_report = Some ''print'', g_opt_stderr = False,
      g_opt_program_name = None, g_opt_program_template = ''cat %s'', g_opt_filename = None\<rparr>"

text \<open>A \<open>GError\<close>: the message, the name of the domain and the code.\<close>

record gerror =
  ge_message :: string
  ge_domain :: string
  ge_code :: "32 word"

definition main_error :: "string \<Rightarrow> string \<Rightarrow> gerror res" where
  "main_error fmt value =
     bindr (vformat fmt [pstr value]) (\<lambda>m.
       Inr \<lparr>ge_message = m, ge_domain = ''tinu-main-error'', ge_code = 0\<rparr>)"

text \<open>A 64-bit number stored into a \<open>gint\<close>.\<close>

definition to_gint :: "64 word \<Rightarrow> int" where
  "to_gint w = sint (ucast w :: 32 word)"

definition parse_priority :: "string \<Rightarrow> int res" where
  "parse_priority value =
     bindr (msg_get_priority_value value) (\<lambda>priority.
     Inr (if priority = -1 then
            (let (w, endl) = strtoul10 value; priority = to_gint w
             in if endl \<noteq> [] \<or> priority < LOG_EMERG \<or> priority > LOG_DEBUG then -1 else priority)
          else priority))"

definition tinu_opt_priority :: "string \<Rightarrow> options \<Rightarrow> (gerror + options) res" where
  "tinu_opt_priority value opts =
     bindr (parse_priority value) (\<lambda>priority.
     if priority = -1 then bindr (main_error (''Unknown priority `%s'' @ [CHR 0x27]) value) (\<lambda>e. Inr (Inl e))
     else Inr (Inr (opts\<lparr>g_opt_priority := priority\<rparr>)))"

definition parse_stat_verb :: "string \<Rightarrow> int res" where
  "parse_stat_verb value =
     bindr (tinu_lookup_name StatisticsVerbosity_names value (-1) (-1)) (\<lambda>key.
     Inr (if key = -1 then
            (let (w, endl) = strtoul10 value; key = sint w
             in if endl \<noteq> [] \<or> key < STAT_VERB_NONE \<or> key > STAT_VERB_VERBOSE then -1 else key)
          else key))"

definition tinu_opt_stat_verb :: "string \<Rightarrow> options \<Rightarrow> (gerror + options) res" where
  "tinu_opt_stat_verb value opts =
     bindr (parse_stat_verb value) (\<lambda>key.
     if key = -1 then bindr (main_error (''Unknown statistics verbosity `%s'' @ [CHR 0x27]) value) (\<lambda>e. Inr (Inl e))
     else Inr (Inr (opts\<lparr>g_opt_stat_verb := key\<rparr>)))"

definition tinu_opt_report_null :: "options \<Rightarrow> options" where
  "tinu_opt_report_null opts = opts\<lparr>g_opt_report := None\<rparr>"

text \<open>
  The option table \<open>g_main_opt_entries\<close> with the entries of the report modules: what was
  found on the command line, or an error of the parser itself.
\<close>

datatype setting =
    Opt_fancy_log | Opt_silent | Opt_syslog | Opt_file string | Opt_log_level string
  | Opt_results string | Opt_leakwatch | Opt_no_sighandle | Opt_suite string
  | Opt_test_case string | Opt_report string | Opt_no_report | Opt_version
  | Opt_stderr | Opt_program string | Opt_program_template string | Opt_file_destination string
  | Opt_unknown gerror

fun apply_setting :: "setting \<Rightarrow> options \<Rightarrow> (gerror + options) res" where
  "apply_setting Opt_fancy_log opts = Inr (Inr (opts\<lparr>g_opt_fancy := True\<rparr>))"
| "apply_setting Opt_silent opts = Inr (Inr (opts\<lparr>g_opt_silent := True\<rparr>))"
| "apply_setting Opt_syslog opts = Inr (Inr (opts\<lparr>g_opt_syslog := True\<rparr>))"
| "apply_setting (Opt_file f) opts = Inr (Inr (opts\<lparr>g_opt_file := Some f\<rparr>))"
| "apply_setting (Opt_log_level v) opts = tinu_opt_priority v opts"
| "apply_setting (Opt_results v) opts = tinu_opt_stat_verb v opts"
| "apply_setting Opt_leakwatch opts = Inr (Inr (opts\<lparr>g_opt_leakwatch := True\<rparr>))"
| "apply_setting Opt_no_sighandle opts = Inr (Inr (opts\<lparr>g_opt_sighandle := False\<rparr>))"
| "apply_setting (Opt_suite s) opts = Inr (Inr (opts\<lparr>g_opt_suite := Some s\<rparr>))"
| "apply_setting (Opt_test_case s) opts = Inr (Inr (opts\<lparr>g_opt_test_case := Some s\<rparr>))"
| "apply_setting (Opt_report s) opts = Inr (Inr (opts\<lparr>g_opt_report := Some s\<rparr>))"
| "apply_setting Opt_no_report opts = Inr (Inr (tinu_opt_report_null opts))"
| "apply_setting Opt_version opts = Inr (Inr (opts\<lparr>g_opt_version := True\<rparr>))"
| "apply_setting Opt_stderr opts = Inr (Inr (opts\<lparr>g_opt_stderr := True\<rparr>))"
| "apply_setting (Opt_program s) opts = Inr (Inr (opts\<lparr>g_opt_program_name := Some s\<rparr>))"
| "apply_setting (Opt_program_template s) opts = Inr (Inr (opts\<lparr>g_opt_program_template := s\<rparr>))"
| "apply_setting (Opt_file_destination s) opts = Inr (Inr (opts\<lparr>g_opt_filename := Some s\<rparr>))"
| "apply_setting (Opt_unknown e) opts = Inr (Inl e)"

fun option_parse :: "setting list \<Rightarrow> options \<Rightarrow> (gerror + options) res" where
  "option_parse [] opts = Inr (Inr opts)"
| "option_parse (s # ss) opts =
     bindr (apply_setting s opts) (\<lambda>r. case r of Inl e \<Rightarrow> Inr (Inl e) | Inr opts \<Rightarrow> option_parse ss opts)"

text \<open>\<open>_tinu_options\<close>: \<open>None\<close> when it returns \<open>FALSE\<close>.\<close>

definition tinu_options :: "'e logger \<Rightarrow> setting list \<Rightarrow> 'e \<Rightarrow> (options option \<times> 'e) res" where
  "tinu_options lg argv e =
     bindr (option_parse argv default_options) (\<lambda>r.
     case r of
       Inl error \<Rightarrow>
         bindr (lg_macro lg LOG_ERR ''Option parsing failed''
                  (eval_tags [msg_tag_str ''message'' (Some (ge_message error)),
                              msg_tag_str ''domain'' (Some (ge_domain error)),
                              msg_tag_int ''code'' (ge_code error)]) e) (\<lambda>e.
           Inr (None, e))
     | Inr opts \<Rightarrow> Inr (Some opts, e))"

section \<open>Report modules\<close>

text \<open>
  A module's functions see the options; \<open>rm_handle\<close> answers what the module does to the
  world. \<open>rm_check\<close> may be \<open>NULL\<close>.
\<close>

record ('f, 'e) report_module =
  rm_name :: string
  rm_check :: "('e logger \<Rightarrow> options \<Rightarrow> 'e \<Rightarrow> (bool \<times> 'e) res) option"
  rm_handle :: "'e logger \<Rightarrow> options \<Rightarrow> 'f test_statistics \<Rightarrow> 'e \<Rightarrow> (report_effect list \<times> 'e) res"

definition g_report_print_module :: "('f, 'e) report_module" where
  "g_report_print_module =
     \<lparr>rm_name = ''print'',
      rm_check = Some (\<lambda>lg opts e.
        Inr (snd (test_report_print_check (g_opt_stderr opts) (g_opt_stat_verb opts) (g_opt_fancy opts)), e)),
      rm_handle = (\<lambda>lg opts stat e.
        bindr (test_report_print stat (g_opt_stat_verb opts) (g_opt_fancy opts)) (\<lambda>t.
          Inr ([Print (g_opt_stderr opts) t], e)))\<rparr>"

definition g_report_progam_module :: "nat \<Rightarrow> string option \<Rightarrow> ('f, 'e) report_module" where
  "g_report_progam_module tics tmpname =
     \<lparr>rm_name = ''program'',
      rm_check = Some (\<lambda>lg opts e.
        Inr (test_report_program_check (g_opt_stat_verb opts) (g_opt_fancy opts), e)),
      rm_handle = (\<lambda>lg opts stat e.
        test_report_program lg tics tmpname (g_opt_program_name opts) (g_opt_program_template opts) stat e)\<rparr>"

definition g_report_file_module ::
  "nat \<Rightarrow> (string \<Rightarrow> (32 word \<times> string) option) \<Rightarrow> ('f, 'e) report_module" where
  "g_report_file_module tics fopen =
     \<lparr>rm_name = ''file'',
      rm_check = Some (\<lambda>lg opts e. test_report_file_check lg (g_opt_filename opts) fopen e),
      rm_handle = (\<lambda>lg opts stat e.
        case g_opt_filename opts of
          None \<Rightarrow> Inl NullDeref
        | Some f \<Rightarrow> bindr (test_report_file tics f stat) (\<lambda>eff. Inr (eff, e)))\<rparr>"

type_synonym ('f, 'e) modules = "('f, 'e) report_module heap \<times> ptr"

definition tinu_report_add ::
  "('f, 'e) report_module \<Rightarrow> ('f, 'e) modules \<Rightarrow> ('f, 'e) modules res" where
  "tinu_report_add module = (\<lambda>(h, p). lift_opt WildPtr (clist_append h p module))"

definition tinu_test_find_module ::
  "('f, 'e) modules \<Rightarrow> string \<Rightarrow> ('f, 'e) report_module option res" where
  "tinu_test_find_module = (\<lambda>(h, p) name.
     case clist_pass h p (\<lambda>rm u. if rm_name rm = name then Inl rm else Inr u) () of
       None \<Rightarrow> Inl WildPtr
     | Some (Inl rm) \<Rightarrow> Inr (Some rm)
     | Some (Inr _) \<Rightarrow> Inr None)"

section \<open>The main test context\<close>

text \<open>\<open>None\<close>: not initialised, all fields zero.\<close>

type_synonym 'f main_context = "('f, stat_hook) test_context option"

definition main_context_get :: "'f main_context \<Rightarrow> ('f, stat_hook) test_context" where
  "main_context_get ctx =
     (case ctx of None \<Rightarrow> test_context_init False False None | Some c \<Rightarrow> c)"

definition tinu_test_add ::
  "'e logger \<Rightarrow> 'f \<Rightarrow> string \<Rightarrow> string \<Rightarrow> 'f option \<Rightarrow> 'f option \<Rightarrow> 'f option
     \<Rightarrow> 'f main_context \<times> 'e \<Rightarrow> ('f main_context \<times> 'e) res" where
  "tinu_test_add lg free_fn suite_name test_name setup cleanup func = (\<lambda>(ctx, e).
     bindr (test_add lg free_fn (main_context_get ctx) suite_name test_name setup cleanup func e) (\<lambda>(ctx, e).
       Inr (Some ctx, e)))"

definition tinu_test_add_extended ::
  "'e logger \<Rightarrow> string \<Rightarrow> string \<Rightarrow> 'f test_fn option \<Rightarrow> 'f test_fn option \<Rightarrow> 'f test_fn option
     \<Rightarrow> 'f user_data \<Rightarrow> 'f option \<Rightarrow> 'f main_context \<times> 'e \<Rightarrow> ('f main_context \<times> 'e) res" where
  "tinu_test_add_extended lg suite_name test_name setup cleanup func user_data ud_cleanup = (\<lambda>(ctx, e).
     bindr (test_add_extended lg (main_context_get ctx) suite_name test_name setup cleanup func
              user_data ud_cleanup e) (\<lambda>(ctx, e).
       Inr (Some ctx, e)))"

record 'f meta_info =
  mi_suite :: "string option"
  mi_test :: string
  mi_setup :: "'f option"
  mi_cleanup :: "'f option"
  mi_case :: "'f option"

text \<open>\<open>tinu_use_metainfo\<close>: the array ends with an entry without a suite name.\<close>

fun tinu_use_metainfo ::
  "'e logger \<Rightarrow> 'f meta_info list \<Rightarrow> 'f main_context \<times> 'e \<Rightarrow> ('f main_context \<times> 'e) res" where
  "tinu_use_metainfo lg [] s = Inl OutOfRange"
| "tinu_use_metainfo lg (i # is) s =
     (case mi_suite i of
        None \<Rightarrow> Inr s
      | Some suite \<Rightarrow>
          bindr (tinu_test_add_extended lg suite (mi_test i) (map_option Ext (mi_setup i))
                   (map_option Ext (mi_cleanup i)) (map_option Ext (mi_case i)) (Opaque NULL) None s)
            (tinu_use_metainfo lg is))"

section \<open>tinu\_main\<close>

text \<open>
  What surrounds a run: the options found, the user's program (\<open>mp_run\<close>), the clock, the
  answers of \<open>fopen\<close> and \<open>g_mkstemp\<close>, and the addresses of the statistics and of the log
  file's stream.
\<close>

type_synonym 'f main_env = "'f test_statistics \<times> io"

record 'f main_params =
  mp_argv :: "setting list"
  mp_run :: "('f, unit, unit) run_params"
  mp_clock :: "nat \<Rightarrow> 64 word"
  mp_tics :: nat
  mp_tmpname :: "string option"
  mp_report_fopen :: "string \<Rightarrow> (32 word \<times> string) option"
  mp_log_fopen :: "string \<Rightarrow> bool"
  mp_stat :: ptr
  mp_stream :: ptr

text \<open>The globals when \<open>tinu_main\<close> is called; the statistics are those of \<open>stat_new\<close>.\<close>

record 'f main_state =
  ms_context :: "'f main_context"
  ms_log :: "unit handler_fn log_state"
  ms_modules :: "('f, 'f main_env) modules"
  ms_io :: io

abbreviation (input) main_lg :: "unit handler_fn log_state \<Rightarrow> 'f main_env logger" where
  "main_lg log \<equiv> the_logger stat_handler_call log"

type_synonym 'f returned = "unit handler_fn log_state \<times> 'f main_env"

text \<open>Steps after which \<open>tinu_main\<close> may already \<open>return 1\<close> (\<open>Inl\<close>).\<close>

definition bind_return :: "('e + 'a) res \<Rightarrow> ('a \<Rightarrow> ('e + 'b) res) \<Rightarrow> ('e + 'b) res" where
  "bind_return m f = bindr m (\<lambda>r. case r of Inl e \<Rightarrow> Inr (Inl e) | Inr a \<Rightarrow> f a)"

definition return_1 ::
  "unit handler_fn log_state \<Rightarrow> 'e res \<Rightarrow> (unit handler_fn log_state \<times> 'e + 'a) res" where
  "return_1 log m = bindr m (\<lambda>e. Inr (Inl (log, e)))"

definition add_modules ::
  "'f main_params \<Rightarrow> ('f, 'f main_env) modules \<Rightarrow> ('f, 'f main_env) modules res" where
  "add_modules mp mods =
     bindr (tinu_report_add g_report_print_module mods) (\<lambda>mods.
     bindr (tinu_report_add (g_report_progam_module (mp_tics mp) (mp_tmpname mp)) mods)
       (tinu_report_add (g_report_file_module (mp_tics mp) (mp_report_fopen mp))))"

definition main_options ::
  "'f main_params \<Rightarrow> unit handler_fn log_state \<Rightarrow> 'f main_env \<Rightarrow> ('f returned + options \<times> 'f main_env) res" where
  "main_options mp log e =
     bindr (tinu_options (main_lg log) (mp_argv mp) e) (\<lambda>(opts, e).
     case opts of
       None \<Rightarrow> Inr (Inl (log, e))
     | Some opts \<Rightarrow> if g_opt_version opts then Inl (Exited 1) else Inr (Inr (opts, e)))"

definition main_report ::
  "options \<Rightarrow> unit handler_fn log_state \<Rightarrow> ('f, 'f main_env) modules \<Rightarrow> 'f main_env
     \<Rightarrow> ('f returned + ('f, 'f main_env) report_module option \<times> 'f main_env) res" where
  "main_report opts log mods e =
     (case g_opt_report opts of
        None \<Rightarrow> Inr (Inr (None, e))
      | Some name \<Rightarrow>
          bindr (tinu_test_find_module mods name) (\<lambda>m.
          case m of
            None \<Rightarrow>
              return_1 log (lg_macro (main_lg log) LOG_ERR ''Could not find given report module''
                (eval_tags [msg_tag_str ''name'' (Some name)]) e)
          | Some report \<Rightarrow>
              (case rm_check report of
                 None \<Rightarrow> Inr (Inr (Some report, e))
               | Some check \<Rightarrow>
                   bindr (check (main_lg log) opts e) (\<lambda>(ok, e).
                     Inr (if ok then Inr (Some report, e) else Inl (log, e))))))"

text \<open>The message handlers of the run; the second component is the handler of the log file.\<close>

definition main_handlers ::
  "options \<Rightarrow> ptr \<Rightarrow> unit handler_fn log_state \<Rightarrow> unit handler_fn log_state" where
  "main_handlers opts init_watch log =
     (let log = (if g_opt_silent opts then log
                 else fst (log_register_message_handler log
                        (if g_opt_fancy opts then Stderr_fancy_handler else Stderr_handler)
                        (g_opt_priority opts) 1));
          log = log_unregister_message_handler log init_watch
      in if g_opt_syslog opts
         then fst (log_register_message_handler log Syslog_handler (g_opt_priority opts) 1)
         else log)"

definition main_log_file ::
  "'f main_params \<Rightarrow> options \<Rightarrow> unit handler_fn log_state \<Rightarrow> 'f main_env
     \<Rightarrow> ('f returned + unit handler_fn log_state \<times> ptr option \<times> 'f main_env) res" where
  "main_log_file mp opts log e =
     (case g_opt_file opts of
        None \<Rightarrow> Inr (Inr (log, None, e))
      | Some f \<Rightarrow>
          if \<not> mp_log_fopen mp f then
            return_1 log (lg_macro (main_lg log) LOG_ERR ''Cannot open logfile''
              (eval_tags [msg_tag_str ''file'' (Some f)]) e)
          else
            (let (log, handle) = log_register_message_handler log File_handler (g_opt_priority opts) (mp_stream mp)
             in Inr (Inr (log, Some handle, e))))"

text \<open>The tests: an uninitialised context has no array of suites.\<close>

definition main_tests ::
  "('f, stat_hook, 'f main_env) run_params \<Rightarrow> options \<Rightarrow> bool \<Rightarrow> ('f, stat_hook) test_context
     \<Rightarrow> 'f main_env run_state \<Rightarrow> (bool \<times> 'f main_env run_state) res" where
  "main_tests P opts initialised ctx st =
     (if \<not> initialised then Inl NullDeref
      else case g_opt_suite opts of
             None \<Rightarrow> tinu_test_all_run P ctx st
           | Some suite \<Rightarrow>
               (case g_opt_test_case opts of
                  None \<Rightarrow> tinu_test_suite_run P ctx suite st
                | Some test \<Rightarrow> tinu_test_case_run P ctx suite test st))"

text \<open>
  From \<open>m_sighandle\<close> to the end of the report: \<open>stat\<close> is \<open>NULL\<close> when there is no report
  module or the verbosity is \<open>none\<close>, but it is used whenever there is a module.
\<close>

definition main_run ::
  "'f main_params \<Rightarrow> options \<Rightarrow> 'f main_context \<Rightarrow> ('f, 'f main_env) report_module option
     \<Rightarrow> unit handler_fn log_state \<Rightarrow> 'f main_env
     \<Rightarrow> (bool \<times> ('f, stat_hook) test_context \<times> unit handler_fn log_state \<times> report_effect list \<times> 'f main_env) res" where
  "main_run mp opts context report log e =
     (let ctx = (main_context_get context)\<lparr>m_sighandle := g_opt_sighandle opts, m_leakwatch := g_opt_leakwatch opts\<rparr>;
          stat = (report \<noteq> None \<and> g_opt_stat_verb opts > STAT_VERB_NONE)
      in bindr (if stat
                then bindr (stat_start (mp_stat mp) log (tx_hooks ctx) (fst e)) (\<lambda>(log, hooks, self).
                       Inr (log, ctx\<lparr>tx_hooks := hooks\<rparr>, (self, snd e)))
                else Inr (log, ctx, e)) (\<lambda>(log, ctx, e).
         bindr (lg_macro (main_lg log) LOG_DEBUG ''Running tests'' (Inr []) e) (\<lambda>e.
         bindr (main_tests (stat_params log (mp_clock mp) (mp_run mp)) opts (context \<noteq> None) ctx
                  ((start_state e)\<lparr>rs_segv := SIG_OTHER 0\<rparr>)) (\<lambda>(res, st).
         let e = rs_env st in
         case report of
           None \<Rightarrow> Inr (res, ctx, log, [], e)
         | Some rm \<Rightarrow>
             if \<not> stat then Inl NullDeref
             else
               bindr (stat_stop (mp_stat mp) log (tx_hooks ctx) (fst e)) (\<lambda>(log, hooks, self).
               bindr (rm_handle rm (main_lg log) opts self (self, snd e)) (\<lambda>(effects, e).
               bindr (stat_destroy (mp_stat mp) log hooks (fst e)) (\<lambda>(log, hooks).
                 Inr (res, ctx\<lparr>tx_hooks := hooks\<rparr>, log, effects, e))))))))"

text \<open>The status, what the report did, the message handlers and the environment in the end.\<close>

definition tinu_main ::
  "'f main_params \<Rightarrow> 'f main_state \<Rightarrow> (nat \<times> report_effect list \<times> unit handler_fn log_state \<times> 'f main_env) res" where
  "tinu_main mp st =
     (let (log, init_watch) = log_register_message_handler (ms_log st) Stderr_handler LOG_ERR 1
      in bindr (add_modules mp (ms_modules st)) (\<lambda>mods.
         bindr
           (bind_return (main_options mp log (stat_new, ms_io st)) (\<lambda>(opts, e).
            bind_return (main_report opts log mods e) (\<lambda>(report, e).
            let log = main_handlers opts init_watch log in
            bind_return (main_log_file mp opts log e) (\<lambda>(log, handle, e).
            if g_opt_test_case opts \<noteq> None \<and> g_opt_suite opts = None then
              return_1 log (lg_macro (main_lg log) LOG_ERR ''Test suite missing for --test-case'' (Inr []) e)
            else
              bindr (main_run mp opts (ms_context st) report log e) (\<lambda>(res, ctx, log, effects, e).
              bindr (test_context_destroy ctx) (\<lambda>_.
              bindr (lift_opt WildPtr (clist_destroy (fst mods) (snd mods) None ())) (\<lambda>_.
                Inr (Inr (if res then 0 else 1, effects,
                  case handle of None \<Rightarrow> log | Some p \<Rightarrow> log_unregister_message_handler log p, e))))))))
           ) (\<lambda>r. Inr (case r of Inl (log, e) \<Rightarrow> (1, [], log, e) | Inr ok \<Rightarrow> ok))))"

section \<open>Options keep the ranges\<close>

definition options_ok :: "options \<Rightarrow> bool" where
  "options_ok opts \<longleftrightarrow> priority_ok (g_opt_priority opts) \<and>
     STAT_VERB_NONE \<le> g_opt_stat_verb opts \<and> g_opt_stat_verb opts \<le> STAT_VERB_VERBOSE"

lemma scan_name_in:
  "scan_name table name rlen = Inr (Some e) \<Longrightarrow> e \<in> set table \<and> nt_name e \<noteq> None"
  by (induction table name rlen rule: scan_name.induct) (auto split: option.splits if_splits)

lemma lookup_name_in:
  "tinu_lookup_name table name nlen dflt = Inr k \<Longrightarrow> k = dflt \<or> (\<exists>e \<in> set table. nt_name e \<noteq> None \<and> nt_key e = k)"
  by (fastforce simp: tinu_lookup_name_def res_simps Let_def split: option.splits if_splits dest!: scan_name_in)

lemma parse_priority_range:
  assumes "parse_priority v = Inr p" and "p \<noteq> -1"
  shows "priority_ok p"
proof -
  obtain q where q: "msg_get_priority_value v = Inr q"
    using assms(1) by (auto simp: parse_priority_def res_simps)
  have "q = -1 \<or> priority_ok q"
    using lookup_name_in [of MessagePriority_names v "-1" "-1" q] q
    by (auto simp: msg_get_priority_value_def MessagePriority_names_def name_entry_def terminator_def priority_ok_def)
  then show ?thesis using assms q
    by (auto simp: parse_priority_def Let_def priority_ok_def split: prod.splits if_splits)
qed

lemma parse_stat_verb_range:
  assumes "parse_stat_verb v = Inr k" and "k \<noteq> -1"
  shows "STAT_VERB_NONE \<le> k \<and> k \<le> STAT_VERB_VERBOSE"
proof -
  obtain q where q: "tinu_lookup_name StatisticsVerbosity_names v (-1) (-1) = Inr q"
    using assms(1) by (auto simp: parse_stat_verb_def res_simps)
  have "q = -1 \<or> (0 \<le> q \<and> q \<le> 4)"
    using lookup_name_in [OF q] by (auto simp: StatisticsVerbosity_names_def name_entry_def)
  then show ?thesis using assms q
    by (auto simp: parse_stat_verb_def Let_def split: prod.splits if_splits)
qed

lemma apply_setting_ok:
  assumes "apply_setting s opts = Inr (Inr opts')" and "options_ok opts"
  shows "options_ok opts'"
proof (cases s)
  case (Opt_log_level v)
  then show ?thesis using assms parse_priority_range [of v]
    by (auto simp: tinu_opt_priority_def res_simps options_ok_def split: if_splits)
next
  case (Opt_results v)
  then show ?thesis using assms parse_stat_verb_range [of v]
    by (auto simp: tinu_opt_stat_verb_def res_simps options_ok_def split: if_splits)
qed (use assms in \<open>auto simp: options_ok_def tinu_opt_report_null_def\<close>)

lemma default_options_ok: "options_ok default_options"
  by (simp add: options_ok_def default_options_def priority_ok_def)

lemma option_parse_ok:
  "option_parse ss opts = Inr (Inr opts') \<Longrightarrow> options_ok opts \<Longrightarrow> options_ok opts'"
proof (induction ss arbitrary: opts)
  case (Cons s ss)
  obtain r where r: "apply_setting s opts = Inr r" using Cons.prems(1) by (auto simp: res_simps)
  then obtain o1 where o1: "r = Inr o1" "option_parse ss o1 = Inr (Inr opts')"
    using Cons.prems(1) by (cases r) simp_all
  then show ?case using Cons.IH Cons.prems(2) apply_setting_ok r by blast
qed simp

text \<open>C34: Whatever options are given, the log priority stays one of the eight levels and the
  verbosity one of the five when parsing succeeds, even for numbers that only fit after
  \<open>strtoul\<close> has wrapped and the assignment to an \<open>int\<close> has cut off the upper half.\<close>

theorem options_in_range:
  assumes "option_parse argv default_options = Inr (Inr opts)"
  shows "LOG_EMERG \<le> g_opt_priority opts \<and> g_opt_priority opts \<le> LOG_DEBUG \<and>
         STAT_VERB_NONE \<le> g_opt_stat_verb opts \<and> g_opt_stat_verb opts \<le> STAT_VERB_VERBOSE"
  using option_parse_ok [OF assms default_options_ok] by (simp add: options_ok_def priority_ok_def)

lemma wrapped_priority: "parse_priority ''4294967299'' = Inr 3"
proof -
  have "strtoul10 ''4294967299'' = (4294967299, [])"
    by (simp add: strtoul10_def take_sign_def is_space_def is_digit_def digit_val_def)
  moreover have "msg_get_priority_value ''4294967299'' = Inr (-1)"
    by code_simp
  moreover have "to_gint 4294967299 = 3" by (simp add: to_gint_def)
  ultimately show ?thesis by (simp add: parse_priority_def)
qed

lemma options_in_range_witness:
  "\<exists>opts. option_parse [Opt_log_level ''4294967299'', Opt_silent] default_options = Inr (Inr opts) \<and>
     g_opt_priority opts = 3 \<and> g_opt_priority opts \<le> LOG_DEBUG"
proof -
  obtain opts where o: "option_parse [Opt_log_level ''4294967299'', Opt_silent] default_options = Inr (Inr opts)"
      "g_opt_priority opts = 3"
    by (simp add: tinu_opt_priority_def wrapped_priority)
  with options_in_range [OF o(1)] show ?thesis by blast
qed

section \<open>Report modules are found by name\<close>

definition modules_hold :: "('f, 'e) modules \<Rightarrow> ('f, 'e) report_module list \<Rightarrow> bool" where
  "modules_hold mods ms \<longleftrightarrow> rings (fst mods) [snd mods] [ms]"

lemma modules_hold_empty: "modules_hold (empty_heap, NULL) []"
  using rings_empty [of 1] by (simp add: modules_hold_def)

lemma report_add_hold:
  assumes "modules_hold mods ms"
  shows "\<exists>mods'. tinu_report_add m mods = Inr mods' \<and> modules_hold mods' (ms @ [m])"
proof -
  obtain h p where hp: "mods = (h, p)" by (cases mods)
  obtain h' p' where "clist_append h p m = Some (h', p')" "rings h' [p'] [ms @ [m]]"
    using ring_lists.rep_app [of h "[p]" "[ms]" 0 m] assms by (auto simp: modules_hold_def hp)
  then show ?thesis by (simp add: tinu_report_add_def hp modules_hold_def)
qed

lemma loop_list_find:
  "loop_list (\<lambda>rm u. if rm_name rm = name then Inl rm else Inr u) ms () =
     (case List.find (\<lambda>m. rm_name m = name) ms of None \<Rightarrow> Inr () | Some m \<Rightarrow> Inl m)"
  by (induction ms) auto

lemma find_module_hold:
  assumes "modules_hold mods ms"
  shows "tinu_test_find_module mods name = Inr (List.find (\<lambda>m. rm_name m = name) ms)"
proof -
  obtain h p where hp: "mods = (h, p)" by (cases mods)
  let ?b = "\<lambda>rm u. if rm_name rm = name then Inl rm else Inr u"
  have "clist_pass h p ?b () = Some (loop_list ?b ms ())"
    using ring_lists.rep_pass [of h "[p]" "[ms]" 0 ?b "()"] assms by (simp add: modules_hold_def hp)
  then show ?thesis
    by (simp add: tinu_test_find_module_def hp loop_list_find split: option.splits)
qed

lemma modules_destroy:
  assumes "modules_hold mods ms"
  shows "\<exists>r. clist_destroy (fst mods) (snd mods) None () = Some r"
proof -
  obtain h p where hp: "mods = (h, p)" by (cases mods)
  obtain as where r: "ring h p as ms"
    using ringsE [of h "[p]" "[ms]"] assms by (auto simp: modules_hold_def hp)
  show ?thesis
  proof (cases ms)
    case Nil
    then show ?thesis using r ring_length [OF r] by (simp add: hp clist_destroy_def)
  next
    case (Cons m ms')
    then obtain a as' where "as = a # as'" using ring_length [OF r] by (cases as) auto
    then show ?thesis using clist_destroy_ring [of h p a as' m ms' None "()"] r Cons by (simp add: hp)
  qed
qed

definition builtin_modules :: "'f main_params \<Rightarrow> ('f, 'f main_env) report_module list" where
  "builtin_modules mp =
     [g_report_print_module, g_report_progam_module (mp_tics mp) (mp_tmpname mp),
      g_report_file_module (mp_tics mp) (mp_report_fopen mp)]"

lemma add_modules_hold:
  assumes "modules_hold mods ms"
  shows "\<exists>mods'. add_modules mp mods = Inr mods' \<and> modules_hold mods' (ms @ builtin_modules mp)"
proof -
  obtain m1 where 1: "tinu_report_add g_report_print_module mods = Inr m1" "modules_hold m1 (ms @ [g_report_print_module])"
    using report_add_hold [OF assms] by blast
  let ?m2 = "g_report_progam_module (mp_tics mp) (mp_tmpname mp)"
  obtain m2 where 2: "tinu_report_add ?m2 m1 = Inr m2" "modules_hold m2 ((ms @ [g_report_print_module]) @ [?m2])"
    using report_add_hold [OF 1(2)] by blast
  let ?m3 = "g_report_file_module (mp_tics mp) (mp_report_fopen mp)"
  obtain m3 where 3: "tinu_report_add ?m3 m2 = Inr m3" "modules_hold m3 (((ms @ [g_report_print_module]) @ [?m2]) @ [?m3])"
    using report_add_hold [OF 2(2)] by blast
  show ?thesis using 1 2 3 by (intro exI [of _ m3]) (simp add: add_modules_def builtin_modules_def)
qed

section \<open>Starting and stopping the statistics\<close>

lemma unregister_multiple_total:
  assumes "hooks_hold self xss" and "n \<le> TEST_HOOK_MAX"
  shows "\<exists>self' yss. fold_res (\<lambda>id self.
             if hooks ! id \<noteq> None then test_unregister_hook self id (hooks ! id) ud else Inr self)
           [0..<n] self = Inr self' \<and> hooks_hold self' yss"
  using assms(2)
proof (induction n)
  case 0
  then show ?case using assms(1) by auto
next
  case (Suc n)
  obtain s yss where s: "fold_res (\<lambda>id self.
        if hooks ! id \<noteq> None then test_unregister_hook self id (hooks ! id) ud else Inr self)
      [0..<n] self = Inr s" "hooks_hold s yss"
    using Suc by auto
  have id: "hook_id_ok n" using Suc.prems by (simp add: hook_id_ok_def)
  obtain s' zss where "test_unregister_hook s n (hooks ! n) ud = Inr s'" "hooks_hold s' zss"
    using unregister_hold [OF s(2) id, of "hooks ! n" ud] by blast
  then show ?case using s by (cases "hooks ! n") (auto simp: fold_res_append)
qed

lemma stat_stop_total:
  assumes "hooks_hold hooks xss"
  shows "\<exists>hooks' yss. hooks_hold hooks' yss \<and>
     stat_stop ud log hooks self = Inr (if m_log_handle self \<noteq> NULL
       then (log_unregister_message_handler log (m_log_handle self), hooks', self\<lparr>m_log_handle := NULL\<rparr>)
       else (log, hooks', self))"
  using unregister_multiple_total [OF assms order_refl, of g_stat_hooks ud]
  by (auto simp: stat_stop_def test_unregister_multiple_hooks_def)

lemma stat_stop_handle:
  assumes "hooks_hold hooks xss"
  shows "\<exists>log' hooks' yss h. hooks_hold hooks' yss \<and>
     stat_stop ud log hooks self = Inr (log', hooks', self\<lparr>m_log_handle := h\<rparr>)"
proof (cases "m_log_handle self = NULL")
  case True
  then obtain hooks' yss where "hooks_hold hooks' yss" "stat_stop ud log hooks self = Inr (log, hooks', self)"
    using stat_stop_total [OF assms, of ud log self] by auto
  then show ?thesis
    by (intro exI [of _ log] exI [of _ hooks'] exI [of _ yss] exI [of _ "m_log_handle self"]) simp
next
  case False
  then show ?thesis using stat_stop_total [OF assms, of ud log self] by auto
qed

lemma stat_destroy_total:
  assumes "hooks_hold hooks xss"
  shows "\<exists>log' hooks' yss. stat_destroy ud log hooks self = Inr (log', hooks') \<and> hooks_hold hooks' yss"
proof -
  obtain hooks' yss where "hooks_hold hooks' yss"
     "stat_stop ud log hooks self = Inr (if m_log_handle self \<noteq> NULL
       then (log_unregister_message_handler log (m_log_handle self), hooks', self\<lparr>m_log_handle := NULL\<rparr>)
       else (log, hooks', self))"
    using stat_stop_total [OF assms, of ud log self] by blast
  then show ?thesis by (auto simp: stat_destroy_def split: if_splits)
qed

lemma context_destroy_total:
  assumes "hooks_hold (tx_hooks ctx) xss"
  shows "\<exists>r. test_context_destroy ctx = Inr r"
proof -
  have "hook_id_ok TEST_HOOK_ALL" by (simp add: hook_id_ok_def)
  from unregister_hold [OF assms this, of None NULL]
  obtain s where "test_unregister_hook (tx_hooks ctx) TEST_HOOK_ALL None NULL = Inr s" by blast
  then show ?thesis by (auto simp: test_context_destroy_def)
qed

section \<open>A whole run\<close>

lemma test_ok_stat:
  "test_ok (stat_params log clock P) ctx = test_ok P (test_context_init (m_sighandle ctx) False None)"
  by (rule ext) (simp add: test_ok_def test_context_init_def)

lemma counts_handle [simp]:
  "counts_are P clock suites (self\<lparr>m_log_handle := h\<rparr>) = counts_are P clock suites self"
  by (simp add: counts_are_def Let_def)

lemma records_result: "t \<in> set (test_records P clock k ts) \<Longrightarrow> st_result t \<noteq> TEST_NONE"
  by (induction ts arbitrary: k) (auto simp: test_record_def expected_result_not_none)

lemma suite_records_result:
  "s \<in> set (suite_records P clock k suites) \<Longrightarrow> t \<in> set (ss_test_info_list s) \<Longrightarrow> st_result t \<noteq> TEST_NONE"
  by (induction suites arbitrary: k) (auto simp: suite_record_def dest: records_result)

lemma print_counts:
  assumes "counts_are P clock suites self"
  shows "\<exists>t. test_report_print self v c = Inr t"
  using assms suite_records_result by (intro report_print_total) (fastforce simp: counts_are_def)

lemma stat_start_total:
  assumes "quiet_handlers log" and "tx = hooks_init"
  shows "\<exists>log' hooks. stat_start ud log tx self = Inr (log', hooks, self\<lparr>m_log_handle := log_brk log\<rparr>) \<and>
           quiet_handlers log' \<and> hooks_are hooks g_stat_hooks ud"
proof -
  obtain hooks where h: "test_register_multiple_hooks hooks_init g_stat_hooks ud = Inr hooks"
      "hooks_are hooks g_stat_hooks ud"
    using register_multiple_init by blast
  let ?r = "log_register_message_handler log (User_handler ()) LOG_DEBUG ud"
  have "snd ?r = log_brk log"
    using assms(1) by (simp add: quiet_handlers_def log_register_message_handler_def Let_def)
  moreover have "quiet_handlers (fst ?r)" by (rule quiet_handlers_register [OF assms(1)]) simp
  ultimately show ?thesis using h assms(2)
    by (cases ?r) (simp add: stat_start_def)
qed

lemma main_run_counted:
  fixes ctx :: "('f, stat_hook) test_context"
  assumes log: "quiet_handlers log" and hooks: "tx_hooks ctx = hooks_init"
    and sur: "surroundings_ok (mp_run mp)" and lw: "\<not> g_opt_leakwatch opts"
    and verb: "g_opt_stat_verb opts > STAT_VERB_NONE"
    and all: "g_opt_suite opts = None"
    and ok: "list_all (\<lambda>s. list_all (test_ok (mp_run mp) (test_context_init (g_opt_sighandle opts) False None))
        (su_tests s)) (m_suites ctx)"
    and env: "e = (stat_new, io)"
  shows "\<exists>ctx' xss log' self io' t. main_run mp opts (Some ctx) (Some g_report_print_module) log e =
           Inr (list_all (suite_passed (mp_run mp)) (m_suites ctx), ctx', log', [Print (g_opt_stderr opts) t],
                (self, io')) \<and>
         counts_are (mp_run mp) (mp_clock mp) (m_suites ctx) self \<and>
         test_report_print self (g_opt_stat_verb opts) (g_opt_fancy opts) = Inr t \<and>
         hooks_hold (tx_hooks ctx') xss"
proof -
  define c where "c = ctx\<lparr>m_sighandle := g_opt_sighandle opts, m_leakwatch := g_opt_leakwatch opts\<rparr>"
  define self0 :: "'f test_statistics" where "self0 = stat_new\<lparr>m_log_handle := log_brk log\<rparr>"
  obtain log1 hooks1 where start: "stat_start (mp_stat mp) log (tx_hooks c) stat_new = Inr (log1, hooks1, self0)"
      "quiet_handlers log1" "hooks_are hooks1 g_stat_hooks (mp_stat mp)"
    using stat_start_total [OF log, of "tx_hooks c" "mp_stat mp" stat_new] hooks by (auto simp: c_def self0_def)
  define c1 where "c1 = c\<lparr>tx_hooks := hooks1\<rparr>"
  let ?lg = "the_logger stat_handler_call log1"
  have dbg: "priority_ok LOG_DEBUG" by (simp add: priority_ok_def)
  obtain e1 where e1: "lg_macro ?lg LOG_DEBUG ''Running tests'' (Inr []) (self0, io) = Inr e1"
      "stat_obs e1 = stat_obs (self0, io)"
    using total_logger.macro_total [OF quiet_handlers_total [OF start(2)] dbg, of "[]" "''Running tests''" "(self0, io)"]
    by auto
  define s0 where "s0 = (start_state e1)\<lparr>rs_segv := SIG_OTHER 0\<rparr>"
  let ?s = "self0\<lparr>m_messages := []\<rparr>"
  have "stat_obs (rs_env s0) = idle [] ?s"
    using e1(2) by (simp add: s0_def start_state_def stat_obs_def idle_def self0_def stat_new_def)
  moreover have "stat_ticks ?s = 0" by (simp add: self0_def stat_new_def)
  moreover have "libc_hooks (rs_lw s0) \<noteq> all_hooks HOwn" using start_hooks by (simp add: s0_def)
  moreover have "hooks_are (tx_hooks c1) g_stat_hooks (mp_stat mp)" using start(3) by (simp add: c1_def)
  moreover have "\<not> m_leakwatch c1" using lw by (simp add: c1_def c_def)
  moreover have "list_all (\<lambda>s. list_all (test_ok (stat_params log1 (mp_clock mp) (mp_run mp)) c1) (su_tests s)) (m_suites c1)"
    using ok by (simp add: test_ok_stat c1_def c_def)
  ultimately obtain s1 k where s1:
      "tinu_test_all_run (stat_params log1 (mp_clock mp) (mp_run mp)) c1 s0 =
         Inr (list_all (suite_passed (mp_run mp)) (m_suites c1), s1)"
      "stat_obs (rs_env s1) = idle (suite_records (mp_run mp) (mp_clock mp) 0 (m_suites c1))
         (count_results (map (expected_result (mp_run mp)) (concat (map su_tests (m_suites c1)))) (?s\<lparr>stat_ticks := k\<rparr>))"
    using all_run_counted [OF start(2) _ sur] by blast
  obtain self1 io1 where env1: "rs_env s1 = (self1, io1)" by (cases "rs_env s1")
  have counts: "counts_are (mp_run mp) (mp_clock mp) (m_suites ctx) self1"
  proof (rule counts_observed [where x = io1 and s = ?s and k = k])
    show "stat_obs (self1, io1) = idle (suite_records (mp_run mp) (mp_clock mp) 0 (m_suites ctx))
        (count_results (map (expected_result (mp_run mp)) (concat (map su_tests (m_suites ctx)))) (?s\<lparr>stat_ticks := k\<rparr>))"
      using s1(2) env1 by (simp add: c1_def c_def)
  qed (simp_all add: self0_def stat_new_def)
  obtain xss where xss: "hooks_hold hooks1 xss" using start(3) by (auto simp: hooks_are_def)
  obtain log2 hooks2 yss h where stop: "hooks_hold hooks2 yss"
      "stat_stop (mp_stat mp) log1 hooks1 self1 = Inr (log2, hooks2, self1\<lparr>m_log_handle := h\<rparr>)"
    using stat_stop_handle [OF xss, of "mp_stat mp" log1 self1] by blast
  define self2 where "self2 = self1\<lparr>m_log_handle := h\<rparr>"
  have counts2: "counts_are (mp_run mp) (mp_clock mp) (m_suites ctx) self2" using counts by (simp add: self2_def)
  obtain t where t: "test_report_print self2 (g_opt_stat_verb opts) (g_opt_fancy opts) = Inr t"
    using print_counts [OF counts2] by blast
  obtain log3 hooks3 zss where destroy: "stat_destroy (mp_stat mp) log2 hooks2 self2 = Inr (log3, hooks3)"
      "hooks_hold hooks3 zss"
    using stat_destroy_total [OF stop(1)] by blast
  have tests: "main_tests (stat_params log1 (mp_clock mp) (mp_run mp)) opts True c1 s0 =
      Inr (list_all (suite_passed (mp_run mp)) (m_suites ctx), s1)"
    using s1(1) all by (simp add: main_tests_def c1_def c_def)
  have hooks1: "tx_hooks c1 = hooks1" by (simp add: c1_def)
  have handle: "rm_handle g_report_print_module lg opts self2 (self2, io1) =
      Inr ([Print (g_opt_stderr opts) t], (self2, io1))" for lg :: "'f main_env logger"
    using t by (simp add: g_report_print_module_def)
  have "main_run mp opts (Some ctx) (Some g_report_print_module) log e =
      Inr (list_all (suite_passed (mp_run mp)) (m_suites ctx), c1\<lparr>tx_hooks := hooks3\<rparr>, log3,
           [Print (g_opt_stderr opts) t], (self2, io1))"
    using verb start(1) e1(1) tests env1 stop(2) handle destroy(1) hooks1
    by (simp add: main_run_def main_context_get_def env c_def [symmetric] c1_def [symmetric] s0_def [symmetric]
        self2_def [symmetric])
  then show ?thesis using counts2 t destroy(2)
    by (intro exI [of _ "c1\<lparr>tx_hooks := hooks3\<rparr>"] exI [of _ zss] exI [of _ log3] exI [of _ self2]
        exI [of _ io1] exI [of _ t]) simp
qed

lemma main_reaches_run:
  assumes parsed: "option_parse (mp_argv mp) default_options = Inr (Inr opts)"
    and "\<not> g_opt_version opts" and "g_opt_report opts = Some ''print''"
    and "g_opt_test_case opts = None" and "g_opt_file opts = None"
    and start: "ms_log st = log_start" "ms_modules st = (empty_heap, NULL)"
  obtains log mods where "quiet_handlers log" and "modules_hold mods (builtin_modules mp)"
    and "tinu_main mp st =
      bindr (main_run mp opts (ms_context st) (Some g_report_print_module) log (stat_new, ms_io st))
        (\<lambda>(res, ctx, log, effects, e).
           bindr (test_context_destroy ctx) (\<lambda>_.
           bindr (lift_opt WildPtr (clist_destroy (fst mods) (snd mods) None ())) (\<lambda>_.
             Inr (if res then 0 else 1, effects, log, e))))"
proof -
  obtain log1 w where log1: "log_register_message_handler log_start Stderr_handler LOG_ERR 1 = (log1, w)"
    "quiet_handlers log1"
    using quiet_handlers_register [OF quiet_handlers_start, of Stderr_handler LOG_ERR 1]
    by (cases "log_register_message_handler log_start (Stderr_handler :: unit handler_fn) LOG_ERR 1") auto
  obtain mods where mods: "add_modules mp (empty_heap, NULL) = Inr mods" "modules_hold mods (builtin_modules mp)"
    using add_modules_hold [OF modules_hold_empty, of mp] by auto
  have find: "tinu_test_find_module mods ''print'' = Inr (Some g_report_print_module)"
    using find_module_hold [OF mods(2), of "''print''"] by (simp add: builtin_modules_def g_report_print_module_def)
  define log2 where "log2 = main_handlers opts w log1"
  have quiet: "quiet_handlers log2"
    unfolding log2_def main_handlers_def Let_def
    using log1(2) by (auto intro!: quiet_handlers_register quiet_handlers_unregister)
  have o: "main_options mp log1 e = Inr (Inr (opts, e))" for e :: "'a main_env"
    using assms(1,2) by (simp add: main_options_def tinu_options_def)
  have rep: "main_report opts log1 mods e = Inr (Inr (Some g_report_print_module, e))" for e :: "'a main_env"
    by (simp add: main_report_def assms(3) find) (simp add: g_report_print_module_def test_report_print_check_def)
  have lf: "main_log_file mp opts log2 e = Inr (Inr (log2, None, e))" for e :: "'a main_env"
    by (simp add: main_log_file_def assms(5))
  have "tinu_main mp st =
      bindr (main_run mp opts (ms_context st) (Some g_report_print_module) log2 (stat_new, ms_io st))
        (\<lambda>(res, ctx, log, effects, e).
           bindr (test_context_destroy ctx) (\<lambda>_.
           bindr (lift_opt WildPtr (clist_destroy (fst mods) (snd mods) None ())) (\<lambda>_.
             Inr (if res then 0 else 1, effects, log, e))))"
    using assms(4)
    by (simp add: tinu_main_def start log1(1) [simplified] mods(1) o rep lf log2_def [symmetric] bind_return_def
        bindr_nested split_def)
  with quiet mods(2) show thesis by (rule that)
qed

text \<open>C2: The exit status and the report tell the truth about the tests: for a program whose
  tests are within the limits of the message functions, run as a whole with the standard
  report and any verbosity but \<open>none\<close>, \<open>tinu_main\<close> returns 0 exactly if every test passes,
  and what it prints is the report of statistics that count exactly the outcomes of the
  tests.\<close>

theorem main_verdict:
  assumes "option_parse (mp_argv mp) default_options = Inr (Inr opts)"
    and "\<not> g_opt_version opts" and "g_opt_report opts = Some ''print''"
    and "g_opt_stat_verb opts \<noteq> STAT_VERB_NONE"
    and "g_opt_suite opts = None" and "g_opt_test_case opts = None" and "g_opt_file opts = None"
    and "\<not> g_opt_leakwatch opts"
    and "ms_context st = Some ctx" and "tx_hooks ctx = hooks_init"
    and "ms_log st = log_start" and "ms_modules st = (empty_heap, NULL)"
    and "surroundings_ok (mp_run mp)"
    and "list_all (\<lambda>s. list_all (test_ok (mp_run mp) (test_context_init (g_opt_sighandle opts) False None))
          (su_tests s)) (m_suites ctx)"
  shows "\<exists>t log self io. tinu_main mp st =
           Inr (if list_all (suite_passed (mp_run mp)) (m_suites ctx) then 0 else 1,
                [Print (g_opt_stderr opts) t], log, self, io) \<and>
         counts_are (mp_run mp) (mp_clock mp) (m_suites ctx) self \<and>
         test_report_print self (g_opt_stat_verb opts) (g_opt_fancy opts) = Inr t"
proof -
  obtain log2 mods where start: "quiet_handlers log2" "modules_hold mods (builtin_modules mp)"
    "tinu_main mp st =
      bindr (main_run mp opts (ms_context st) (Some g_report_print_module) log2 (stat_new, ms_io st))
        (\<lambda>(res, ctx, log, effects, e).
           bindr (test_context_destroy ctx) (\<lambda>_.
           bindr (lift_opt WildPtr (clist_destroy (fst mods) (snd mods) None ())) (\<lambda>_.
             Inr (if res then 0 else 1, effects, log, e))))"
    using main_reaches_run [OF assms(1,2,3,6,7,11,12)] by blast
  have verb: "g_opt_stat_verb opts > STAT_VERB_NONE"
    using option_parse_ok [OF assms(1) default_options_ok] assms(4) by (simp add: options_ok_def)
  obtain ctx' xss log3 self io' t where run:
      "main_run mp opts (Some ctx) (Some g_report_print_module) log2 (stat_new, ms_io st) =
         Inr (list_all (suite_passed (mp_run mp)) (m_suites ctx), ctx', log3, [Print (g_opt_stderr opts) t], (self, io'))"
      "counts_are (mp_run mp) (mp_clock mp) (m_suites ctx) self"
      "test_report_print self (g_opt_stat_verb opts) (g_opt_fancy opts) = Inr t"
      "hooks_hold (tx_hooks ctx') xss"
    using main_run_counted [OF start(1) assms(10,13,8) verb assms(5,14) refl] by blast
  obtain d where d: "test_context_destroy ctx' = Inr d" using context_destroy_total [OF run(4)] by blast
  obtain r where r: "clist_destroy (fst mods) (snd mods) None () = Some r" using modules_destroy [OF start(2)] by blast
  have "tinu_main mp st = Inr (if list_all (suite_passed (mp_run mp)) (m_suites ctx) then 0 else 1,
      [Print (g_opt_stderr opts) t], log3, self, io')"
    unfolding start(3) assms(9) run(1) by (simp add: d r)
  then show ?thesis using run(2,3) by blast
qed

definition quiet_run :: "(nat, unit, unit) run_params" where
  "quiet_run =
     \<lparr>rp_log = \<lparr>lg_format = (\<lambda>_ _ _ e. Inr e), lg_macro = (\<lambda>_ _ _ e. Inr e),
                lg_message = (\<lambda>_ e. Inr e), lg_max = -1\<rparr>,
      rp_hook = (\<lambda>_ _ _ e. Inr e), rp_prog = sample_prog, rp_symbols = one_symbol, rp_frames = Some [],
      rp_getcontext = True, rp_swapcontext = True, rp_errno = (0, ''Success''), rp_coredumper = False\<rparr>"

definition sample_main :: "setting list \<Rightarrow> nat main_params" where
  "sample_main argv =
     \<lparr>mp_argv = argv, mp_run = quiet_run, mp_clock = (\<lambda>n. of_nat n), mp_tics = 0, mp_tmpname = None,
      mp_report_fopen = (\<lambda>_. None), mp_log_fopen = (\<lambda>_. True), mp_stat = 9, mp_stream = 8\<rparr>"

definition sample_globals :: "nat main_state" where
  "sample_globals =
     \<lparr>ms_context = Some ((test_context_init True False None)\<lparr>m_suites := sample_suites\<rparr>),
      ms_log = log_start, ms_modules = (empty_heap, NULL), ms_io = no_io\<rparr>"

lemma quiet_acts: "test_acts quiet_run (sample_test name f) = fst (sample_prog f 77)"
  by (simp add: test_acts_def fn_prog_def sample_test_def quiet_run_def sample_prog_def)

lemma quiet_fails: "\<not> list_all (suite_passed quiet_run) sample_suites"
proof -
  have "expected_result quiet_run (sample_test ''x'' 2) = TEST_FAILED"
    unfolding expected_result_def quiet_acts by (simp add: sample_prog_def)
  then show ?thesis by (simp add: sample_suites_def suite_passed_def)
qed

lemma main_verdict_witness:
  "\<exists>t log self io. tinu_main (sample_main []) sample_globals = Inr (1, [Print False t], log, self, io) \<and>
     counts_are quiet_run (\<lambda>n. of_nat n) sample_suites self"
proof -
  have ok: "test_ok quiet_run (test_context_init True False None) (sample_test n f)" for n f
    unfolding test_ok_def quiet_acts
    by (simp add: sample_prog_def sample_test_def test_context_init_def)
  have sur: "surroundings_ok quiet_run"
    by (simp add: surroundings_ok_def quiet_run_def one_symbol_def backtrace_resolv_lines_def)
  show ?thesis
    using main_verdict [of "sample_main []" default_options sample_globals
        "(test_context_init True False None)\<lparr>m_suites := sample_suites\<rparr>"] ok sur quiet_fails
    by (auto simp: sample_main_def sample_globals_def default_options_def test_context_init_def sample_suites_def)
qed


lemma none_settings: "option_parse [Opt_results ''none''] default_options = Inr (Inr (default_options\<lparr>g_opt_stat_verb := STAT_VERB_NONE\<rparr>))"
proof -
  have "parse_stat_verb ''none'' = Inr 0" by code_simp
  then show ?thesis by (simp add: tinu_opt_stat_verb_def)
qed


end
