(* ===== verification/CoreIo.thy ===== *)
theory CoreIo
  imports CStd
begin

text \<open>
  Input and output of the core dumper (first part of \<open>coredumper/elfcore.c\<close>): reading and
  writing with retries, the writers of a core file (plain, limited, through a compressor), the
  buffered reader of \<open>/proc/self/maps\<close> and the search for leading zeros. What the kernel
  answers to each call is a parameter of the state: a list of answers, after which every
  call does all that is asked.
\<close>

type_synonym byte = "8 word"

abbreviation (input) "EINTR \<equiv> (4::int)"
abbreviation (input) "EAGAIN \<equiv> (11::int)"
abbreviation (input) "EINVAL \<equiv> (22::int)"

unbundle bit_operations_syntax

section \<open>System calls\<close>

text \<open>A call moves at most so many bytes, or fails with an \<open>errno\<close>.\<close>

datatype answer = Moves nat | Fails int

record source =
  sr_left :: "byte list"
  sr_answers :: "answer list"

record sink =
  sk_data :: "byte list"
  sk_answers :: "answer list"

definition sys_read :: "nat \<Rightarrow> source \<Rightarrow> (int + byte list) \<times> source" where
  "sys_read n s =
     (case sr_answers s of
        [] \<Rightarrow> (Inr (take n (sr_left s)), s\<lparr>sr_left := drop n (sr_left s)\<rparr>)
      | Moves k # as \<Rightarrow>
          (Inr (take (min k n) (sr_left s)), s\<lparr>sr_left := drop (min k n) (sr_left s), sr_answers := as\<rparr>)
      | Fails e # as \<Rightarrow> (Inl e, s\<lparr>sr_answers := as\<rparr>))"

definition sys_write :: "byte list \<Rightarrow> sink \<Rightarrow> (int + nat) \<times> sink" where
  "sys_write bs s =
     (case sk_answers s of
        [] \<Rightarrow> (Inr (length bs), s\<lparr>sk_data := sk_data s @ bs\<rparr>)
      | Moves k # as \<Rightarrow>
          (Inr (min k (length bs)), s\<lparr>sk_data := sk_data s @ take k bs, sk_answers := as\<rparr>)
      | Fails e # as \<Rightarrow> (Inl e, s\<lparr>sk_answers := as\<rparr>))"

lemma sys_read_fails: "sys_read n s = (Inl e, s') \<Longrightarrow> length (sr_answers s') < length (sr_answers s)"
  by (auto simp: sys_read_def split: list.splits answer.splits)

lemma sys_write_fails: "sys_write bs s = (Inl e, s') \<Longrightarrow> length (sk_answers s') < length (sk_answers s)"
  by (auto simp: sys_write_def split: list.splits answer.splits)

lemma sys_write_moves:
  "sys_write bs s = (Inr n, s') \<Longrightarrow> n \<le> length bs \<and> sk_data s' = sk_data s @ take n bs \<and>
     length (sk_answers s') \<le> length (sk_answers s)"
  by (auto simp: sys_write_def min_def split: list.splits answer.splits)

lemma sys_read_moves:
  "sys_read n s = (Inr bs, s') \<Longrightarrow> length bs \<le> n \<and> sr_left s = bs @ sr_left s' \<and>
     length (sr_answers s') \<le> length (sr_answers s)"
  by (auto simp: sys_read_def min_def split: list.splits answer.splits)

text \<open>\<open>NO_INTR\<close> and \<open>MY_NO_INTR\<close>: a call is repeated while a signal interrupts it.\<close>

function read_no_intr :: "nat \<Rightarrow> source \<Rightarrow> (int + byte list) \<times> source" where
  "read_no_intr n s =
     (case sys_read n s of
        (Inl e, s') \<Rightarrow> if e = EINTR then read_no_intr n s' else (Inl e, s')
      | (Inr bs, s') \<Rightarrow> (Inr bs, s'))"
  by pat_completeness auto

termination
  by (relation "measure (\<lambda>(n, s). length (sr_answers s))") (auto dest: sys_read_fails [OF sym])

function write_no_intr :: "byte list \<Rightarrow> sink \<Rightarrow> (int + nat) \<times> sink" where
  "write_no_intr bs s =
     (case sys_write bs s of
        (Inl e, s') \<Rightarrow> if e = EINTR then write_no_intr bs s' else (Inl e, s')
      | (Inr n, s') \<Rightarrow> (Inr n, s'))"
  by pat_completeness auto

termination
  by (relation "measure (\<lambda>(bs, s). length (sk_answers s))") (auto dest: sys_write_fails [OF sym])

declare read_no_intr.simps [simp del] write_no_intr.simps [simp del]

lemma read_no_intr_moves:
  "read_no_intr n s = (Inr bs, s') \<Longrightarrow> length bs \<le> n \<and> sr_left s = bs @ sr_left s' \<and>
     length (sr_answers s') \<le> length (sr_answers s)"
proof (induction n s rule: read_no_intr.induct)
  case (1 n s)
  obtain r t where r: "sys_read n s = (r, t)" by (cases "sys_read n s")
  show ?case
  proof (cases r)
    case (Inl e)
    have "sr_left t = sr_left s"
      using r Inl by (auto simp: sys_read_def split: list.splits answer.splits)
    then show ?thesis
      using 1 r Inl sys_read_fails [of n s e t] by (fastforce simp: read_no_intr.simps [of n s] split: if_splits)
  qed (use 1 r sys_read_moves in \<open>auto simp: read_no_intr.simps [of n s]\<close>)
qed

lemma read_no_intr_fails:
  "read_no_intr n s = (Inl e, s') \<Longrightarrow> e \<noteq> EINTR \<and> sr_left s' = sr_left s \<and>
     length (sr_answers s') < length (sr_answers s)"
proof (induction n s rule: read_no_intr.induct)
  case (1 n s)
  obtain r t where r: "sys_read n s = (r, t)" by (cases "sys_read n s")
  show ?case
  proof (cases r)
    case (Inl d)
    have "sr_left t = sr_left s"
      using r Inl by (auto simp: sys_read_def split: list.splits answer.splits)
    then show ?thesis
      using 1 r Inl sys_read_fails [of n s d t] by (fastforce simp: read_no_intr.simps [of n s] split: if_splits)
  qed (use 1 r in \<open>auto simp: read_no_intr.simps [of n s]\<close>)
qed

lemma write_no_intr_moves:
  "write_no_intr bs s = (Inr n, s') \<Longrightarrow> n \<le> length bs \<and> sk_data s' = sk_data s @ take n bs \<and>
     length (sk_answers s') \<le> length (sk_answers s)"
proof (induction bs s rule: write_no_intr.induct)
  case (1 bs s)
  obtain r t where r: "sys_write bs s = (r, t)" by (cases "sys_write bs s")
  show ?case
  proof (cases r)
    case (Inl e)
    have "sk_data t = sk_data s"
      using r Inl by (auto simp: sys_write_def split: list.splits answer.splits)
    then show ?thesis
      using 1 r Inl sys_write_fails [of bs s e t] by (fastforce simp: write_no_intr.simps [of bs s] split: if_splits)
  qed (use 1 r sys_write_moves in \<open>auto simp: write_no_intr.simps [of bs s]\<close>)
qed

lemma write_no_intr_fails:
  "write_no_intr bs s = (Inl e, s') \<Longrightarrow> sk_data s' = sk_data s \<and>
     length (sk_answers s') < length (sk_answers s)"
proof (induction bs s rule: write_no_intr.induct)
  case (1 bs s)
  obtain r t where r: "sys_write bs s = (r, t)" by (cases "sys_write bs s")
  show ?case
  proof (cases r)
    case (Inl d)
    have "sk_data t = sk_data s"
      using r Inl by (auto simp: sys_write_def split: list.splits answer.splits)
    then show ?thesis
      using 1 r Inl sys_write_fails [of bs s d t] by (fastforce simp: write_no_intr.simps [of bs s] split: if_splits)
  qed (use 1 r in \<open>auto simp: write_no_intr.simps [of bs s]\<close>)
qed

section \<open>c\_read and c\_write\<close>

text \<open>The \<open>errno\<close> of a failed call is \<open>Inl\<close>, the number of bytes otherwise.\<close>

definition c_read :: "nat \<Rightarrow> source \<Rightarrow> (int + byte list) \<times> source" where
  "c_read n s = (if n > 0 then read_no_intr n s else (Inr [], s))"

function c_write :: "byte list \<Rightarrow> sink \<Rightarrow> (int + nat) \<times> sink" where
  "c_write bs s =
     (if bs = [] then (Inr 0, s)
      else case write_no_intr bs s of
             (Inl e, s') \<Rightarrow> (Inl e, s')
           | (Inr rc, s') \<Rightarrow>
               if rc = 0 then (Inr 0, s')
               else (case c_write (drop rc bs) s' of
                       (Inl e, s'') \<Rightarrow> (Inl e, s'')
                     | (Inr n, s'') \<Rightarrow> (Inr (rc + n), s'')))"
  by pat_completeness auto

termination
  by (relation "measure (\<lambda>(bs, s). length bs)") (auto dest: write_no_intr_moves)

declare c_write.simps [simp del]

text \<open>What has been written is always a prefix of the bytes, of the length returned.\<close>

lemma c_write_prefix:
  "c_write bs s = (r, s') \<Longrightarrow> \<exists>k \<le> length bs. sk_data s' = sk_data s @ take k bs \<and> (\<forall>n. r = Inr n \<longrightarrow> n = k) \<and>
     length (sk_answers s') \<le> length (sk_answers s)"
proof (induction bs s arbitrary: r s' rule: c_write.induct)
  case (1 bs s)
  show ?case
  proof (cases "bs = []")
    case False
    obtain w t where w: "write_no_intr bs s = (w, t)" by (cases "write_no_intr bs s")
    show ?thesis
    proof (cases w)
      case (Inl e)
      then show ?thesis
        using 1(2) False w write_no_intr_fails [of bs s e t]
        by (intro exI [of _ 0]) (auto simp: c_write.simps [of bs s])
    next
      case (Inr rc)
      note rc = write_no_intr_moves [of bs s rc t, OF w [unfolded Inr]]
      show ?thesis
      proof (cases "rc = 0")
        case True
        then show ?thesis
          using 1(2) False w Inr rc by (intro exI [of _ 0]) (auto simp: c_write.simps [of bs s])
      next
        case pos: False
        obtain q u where q: "c_write (drop rc bs) t = (q, u)" by (cases "c_write (drop rc bs) t")
        obtain k where k: "k \<le> length bs - rc" "sk_data u = sk_data t @ take k (drop rc bs)"
            "\<forall>n. q = Inr n \<longrightarrow> n = k" "length (sk_answers u) \<le> length (sk_answers t)"
          using 1(1) [OF False w [symmetric] Inr pos q] by auto
        have "sk_data u = sk_data s @ take (rc + k) bs"
          using k(2) rc by (simp add: take_add)
        moreover have "u = s'" "r = (case q of Inl e \<Rightarrow> Inl e | Inr n \<Rightarrow> Inr (rc + n))"
          using 1(2) False w Inr pos q by (auto simp: c_write.simps [of bs s] split: sum.splits)
        ultimately show ?thesis
          using k rc by (intro exI [of _ "rc + k"]) (auto split: sum.splits)
      qed
    qed
  qed (use 1 in \<open>auto simp: c_write.simps\<close>)
qed

lemma c_write_all: "sk_answers s = [] \<Longrightarrow> c_write bs s = (Inr (length bs), s\<lparr>sk_data := sk_data s @ bs\<rparr>)"
  by (cases "bs = []")
     (simp_all add: c_write.simps [of bs s] c_write.simps [of "[]"] write_no_intr.simps sys_write_def)

section \<open>The writers of a core file\<close>

text \<open>
  A writer gets bytes and its handle. \<open>SimpleWriter\<close> writes to a pipe without a limit,
  \<open>LimitWriter\<close> to a file of at most \<open>max_length\<close> bytes. The other fields of
  \<open>struct WriterFds\<close> serve the compressor: its input, its output, and the answers of
  \<open>poll\<close> (whether its output is readable and its input writable), which fails after them.
\<close>

type_synonym 's core_writer_fn = "byte list \<Rightarrow> 's \<Rightarrow> (int + nat) \<times> 's"

definition SimpleDone :: "sink \<Rightarrow> bool" where
  "SimpleDone f = False"

definition SimpleWriter :: "sink core_writer_fn" where
  "SimpleWriter bytes f = c_write bytes f"

record writer_fds =
  max_length :: "64 word"
  write_fd :: sink
  compressed_fd :: source
  out_fd :: sink
  polls :: "(int + bool \<times> bool) list"

definition PipeDone :: "writer_fds \<Rightarrow> bool" where
  "PipeDone fds \<longleftrightarrow> max_length fds = 0"

definition LimitWriter :: "writer_fds core_writer_fn" where
  "LimitWriter bytes fds =
     (let bytes = (if length bytes > unat (max_length fds) then take (unat (max_length fds)) bytes else bytes);
          (rc, out) = c_write bytes (out_fd fds);
          fds = fds\<lparr>out_fd := out\<rparr>
      in case rc of
           Inl e \<Rightarrow> (Inl e, fds)
         | Inr n \<Rightarrow> (Inr n, if n > 0 then fds\<lparr>max_length := max_length fds - of_nat n\<rparr> else fds))"

text \<open>Several writes in a row, abandoned at the first that does not take all its bytes.\<close>

fun write_seq :: "'s core_writer_fn \<Rightarrow> byte list list \<Rightarrow> 's \<Rightarrow> bool \<times> 's" where
  "write_seq writer [] s = (True, s)"
| "write_seq writer (c # cs) s =
     (case writer c s of
        (Inl e, s') \<Rightarrow> (False, s')
      | (Inr n, s') \<Rightarrow> if n \<noteq> length c then (False, s') else write_seq writer cs s')"

text \<open>What a core file's author relies on: a writer adds a prefix of what it was given.\<close>

locale core_writer =
  fixes writer :: "'s core_writer_fn" and written :: "'s \<Rightarrow> byte list"
  assumes adds_prefix:
    "writer bs s = (r, s') \<Longrightarrow>
       \<exists>k \<le> length bs. written s' = written s @ take k bs \<and> (\<forall>n. r = Inr n \<longrightarrow> n = k)"
begin

lemma seq_prefix:
  "write_seq writer cs s = (done, s') \<Longrightarrow>
     \<exists>k \<le> length (concat cs). written s' = written s @ take k (concat cs) \<and>
       (done \<longrightarrow> k = length (concat cs))"
proof (induction cs arbitrary: s)
  case (Cons c cs)
  obtain r t where r: "writer c s = (r, t)" by (cases "writer c s")
  obtain k where k: "k \<le> length c" "written t = written s @ take k c" "\<forall>n. r = Inr n \<longrightarrow> n = k"
    using adds_prefix [OF r] by blast
  show ?case
  proof (cases "r = Inr (length c)")
    case True
    then obtain j where "j \<le> length (concat cs)" "written s' = written t @ take j (concat cs)"
        "done \<longrightarrow> j = length (concat cs)"
      using Cons.IH [of t] Cons.prems r by auto
    then show ?thesis using k True by (intro exI [of _ "length c + j"]) auto
  next
    case False
    then have "\<not> done" "s' = t" using Cons.prems r by (auto split: sum.splits if_splits)
    then show ?thesis using k by (intro exI [of _ k]) auto
  qed
qed simp

lemma seq_complete: "write_seq writer cs s = (True, s') \<Longrightarrow> written s' = written s @ concat cs"
  using seq_prefix [of cs s True s'] by auto

end

interpretation plain: core_writer SimpleWriter sk_data
  by unfold_locales (auto simp: SimpleWriter_def dest: c_write_prefix)

interpretation limited: core_writer LimitWriter "\<lambda>fds. sk_data (out_fd fds)"
proof
  fix bs and fds fds' :: writer_fds and r
  assume w: "LimitWriter bs fds = (r, fds')"
  let ?bs = "take (unat (max_length fds)) bs"
  obtain rc out where rc: "c_write ?bs (out_fd fds) = (rc, out)" by (cases "c_write ?bs (out_fd fds)")
  have cut: "(if length bs > unat (max_length fds) then ?bs else bs) = ?bs" by simp
  have "r = rc" "out_fd fds' = out"
    using w unfolding LimitWriter_def cut by (auto simp: rc Let_def split: sum.splits if_splits)
  moreover obtain k where "k \<le> length ?bs" "sk_data out = sk_data (out_fd fds) @ take k ?bs" "\<forall>n. rc = Inr n \<longrightarrow> n = k"
    using c_write_prefix [OF rc] by blast
  ultimately show "\<exists>k \<le> length bs. sk_data (out_fd fds') = sk_data (out_fd fds) @ take k bs \<and> (\<forall>n. r = Inr n \<longrightarrow> n = k)"
    by (intro exI [of _ k]) (auto simp: min_def split: if_splits)
qed

text \<open>The limit only shrinks by what is written.\<close>

lemma limit_writer_limit:
  assumes "LimitWriter bs fds = (Inr n, fds')"
  shows "n \<le> unat (max_length fds) \<and> unat (max_length fds') = unat (max_length fds) - n"
proof -
  let ?bs = "take (unat (max_length fds)) bs"
  obtain rc out where rc: "c_write ?bs (out_fd fds) = (rc, out)" by (cases "c_write ?bs (out_fd fds)")
  have cut: "(if length bs > unat (max_length fds) then ?bs else bs) = ?bs" by simp
  have r: "rc = Inr n" "max_length fds' = (if n > 0 then max_length fds - of_nat n else max_length fds)"
    using assms unfolding LimitWriter_def cut by (auto simp: rc Let_def split: sum.splits if_splits)
  then have n: "n \<le> unat (max_length fds)" using c_write_prefix [OF rc] by auto
  then have "(of_nat n :: 64 word) \<le> max_length fds" by (simp add: word_le_nat_alt le_unat_uoi)
  then show ?thesis using r n by (simp add: unat_sub le_unat_uoi)
qed

lemma limit_writer_stops:
  assumes "LimitWriter bs fds = (r, fds')"
  shows "\<exists>k \<le> unat (max_length fds). k \<le> length bs \<and> sk_data (out_fd fds') = sk_data (out_fd fds) @ take k bs"
proof -
  let ?bs = "take (unat (max_length fds)) bs"
  obtain rc out where rc: "c_write ?bs (out_fd fds) = (rc, out)" by (cases "c_write ?bs (out_fd fds)")
  have cut: "(if length bs > unat (max_length fds) then ?bs else bs) = ?bs" by simp
  have "out_fd fds' = out"
    using assms unfolding LimitWriter_def cut by (auto simp: rc Let_def split: sum.splits if_splits)
  moreover obtain k where "k \<le> length ?bs" "sk_data out = sk_data (out_fd fds) @ take k ?bs"
    using c_write_prefix [OF rc] by blast
  ultimately show ?thesis by (intro exI [of _ k]) (auto simp: min_def split: if_splits)
qed

lemma limit_writer_all:
  assumes "sk_answers (out_fd fds) = []"
  shows "LimitWriter bs fds =
     (Inr (min (length bs) (unat (max_length fds))),
      fds\<lparr>out_fd := (out_fd fds)\<lparr>sk_data := sk_data (out_fd fds) @ take (unat (max_length fds)) bs\<rparr>,
          max_length := max_length fds - of_nat (min (length bs) (unat (max_length fds)))\<rparr>)"
  using assms by (cases fds) (auto simp: LimitWriter_def c_write_all Let_def min_def unat_eq_zero)

lemma limited_seq:
  assumes "write_seq LimitWriter cs fds = (done, fds')" and "sk_answers (out_fd fds) = []"
  shows "sk_data (out_fd fds') = sk_data (out_fd fds) @ take (unat (max_length fds)) (concat cs) \<and>
     done = (length (concat cs) \<le> unat (max_length fds)) \<and>
     unat (max_length fds') = unat (max_length fds) - length (concat cs)"
  using assms
proof (induction cs arbitrary: fds)
  case (Cons c cs)
  let ?m = "unat (max_length fds)"
  obtain fds1 where one: "LimitWriter c fds = (Inr (min (length c) ?m), fds1)"
      "sk_data (out_fd fds1) = sk_data (out_fd fds) @ take ?m c" "sk_answers (out_fd fds1) = []"
    using limit_writer_all [OF Cons.prems(2), of c] Cons.prems(2) by simp
  have m1: "unat (max_length fds1) = ?m - min (length c) ?m" using limit_writer_limit [OF one(1)] by blast
  show ?case
  proof (cases "length c \<le> ?m")
    case True
    then have "write_seq LimitWriter cs fds1 = (done, fds')" using Cons.prems(1) one(1) by simp
    from Cons.IH [OF this one(3)] show ?thesis using one(2) m1 True by auto
  next
    case False
    then show ?thesis using Cons.prems(1) one m1 by auto
  qed
qed auto

section \<open>Through a compressor\<close>

text \<open>
  The inner loop of \<open>PipeWriter\<close>: what the compressor has ready goes to the file, until its
  output would block (\<open>EAGAIN\<close>). \<open>False\<close> is the return of \<open>-1\<close>.
\<close>

function copy_compressed :: "writer_fds \<Rightarrow> bool \<times> writer_fds" where
  "copy_compressed fds =
     (case read_no_intr (min 4096 (unat (max_length fds))) (compressed_fd fds) of
        (Inl e, from) \<Rightarrow> (e = EAGAIN, fds\<lparr>compressed_fd := from\<rparr>)
      | (Inr scratch, from) \<Rightarrow>
          if scratch = [] then (True, fds\<lparr>compressed_fd := from, max_length := 0\<rparr>)
          else (case c_write scratch (out_fd fds) of
                  (Inl e, out) \<Rightarrow> (False, fds\<lparr>compressed_fd := from, out_fd := out\<rparr>)
                | (Inr rc, out) \<Rightarrow>
                    if rc = 0 then (False, fds\<lparr>compressed_fd := from, out_fd := out\<rparr>)
                    else copy_compressed
                      (fds\<lparr>compressed_fd := from, out_fd := out, max_length := max_length fds - of_nat rc\<rparr>)))"
  by pat_completeness auto

termination
  by (relation "measure (\<lambda>fds. length (sr_left (compressed_fd fds)))")
     (auto dest!: read_no_intr_moves [OF sym])

text \<open>
  \<open>PipeWriter\<close>. The bytes are memory around the buffer: \<open>mem i\<close> is \<open>buf[i]\<close>, \<open>pos\<close> the
  position of \<open>buf\<close> relative to the caller's. When the compressor's input would block, \<open>rc\<close>
  is \<open>-1\<close>, and the code adds it to \<open>buf\<close> and subtracts it from \<open>len\<close>. Answers: \<open>None\<close> is
  the return of \<open>-1\<close>.
\<close>

definition mem_bytes :: "(int \<Rightarrow> byte) \<Rightarrow> int \<Rightarrow> nat \<Rightarrow> byte list" where
  "mem_bytes mem pos n = map (\<lambda>i. mem (pos + int i)) [0..<n]"

definition pipe_send ::
  "(int \<Rightarrow> byte) \<Rightarrow> int \<Rightarrow> nat \<Rightarrow> writer_fds \<Rightarrow> ((int \<times> nat) option \<times> writer_fds)" where
  "pipe_send mem pos len fds =
     (case write_no_intr (mem_bytes mem pos len) (write_fd fds) of
        (Inl e, to) \<Rightarrow> (if e \<noteq> EAGAIN then None else Some (pos - 1, len + 1), fds\<lparr>write_fd := to\<rparr>)
      | (Inr rc, to) \<Rightarrow> (Some (pos + int rc, len - rc), fds\<lparr>write_fd := to\<rparr>))"

fun pipe_loop ::
  "(int + bool \<times> bool) list \<Rightarrow> (int \<Rightarrow> byte) \<Rightarrow> int \<Rightarrow> nat \<Rightarrow> writer_fds \<Rightarrow> (nat option \<times> writer_fds)" where
  "pipe_loop ps mem pos len fds =
     (if max_length fds = 0 \<or> len = 0 then (Some len, fds\<lparr>polls := ps\<rparr>)
      else case ps of
             [] \<Rightarrow> (Some len, fds\<lparr>polls := []\<rparr>)
           | Inl e # ps \<Rightarrow> (Some len, fds\<lparr>polls := ps\<rparr>)
           | Inr (readable, writable) # ps \<Rightarrow>
               (case (if readable then copy_compressed fds else (True, fds)) of
                  (False, fds) \<Rightarrow> (None, fds\<lparr>polls := ps\<rparr>)
                | (True, fds) \<Rightarrow>
                    if writable
                    then (case pipe_send mem pos len fds of
                            (None, fds) \<Rightarrow> (None, fds\<lparr>polls := ps\<rparr>)
                          | (Some (pos, len), fds) \<Rightarrow> pipe_loop ps mem pos len fds)
                    else pipe_loop ps mem pos len fds))"

definition PipeWriter :: "(int \<Rightarrow> byte) \<Rightarrow> nat \<Rightarrow> writer_fds \<Rightarrow> int \<times> writer_fds" where
  "PipeWriter mem bytes fds =
     (case pipe_loop (polls fds) mem 0 bytes fds of
        (None, fds) \<Rightarrow> (-1, fds)
      | (Some len, fds) \<Rightarrow> (int bytes - int len, fds))"

text \<open>
  \<open>FlushPipe\<close>: the output of the compressor now blocks, so the answers of its descriptor
  are those of blocking reads.
\<close>

function FlushPipe :: "writer_fds \<Rightarrow> int \<times> writer_fds" where
  "FlushPipe fds =
     (if max_length fds = 0 then (0, fds)
      else case read_no_intr (min 4096 (unat (max_length fds))) (compressed_fd fds) of
             (Inl e, from) \<Rightarrow> (-1, fds\<lparr>compressed_fd := from\<rparr>)
           | (Inr scratch, from) \<Rightarrow>
               if scratch = [] then (0, fds\<lparr>compressed_fd := from\<rparr>)
               else (case c_write scratch (out_fd fds) of
                       (Inl e, out) \<Rightarrow> (-1, fds\<lparr>compressed_fd := from, out_fd := out\<rparr>)
                     | (Inr rc, out) \<Rightarrow>
                         if rc \<noteq> length scratch then (-1, fds\<lparr>compressed_fd := from, out_fd := out\<rparr>)
                         else FlushPipe
                           (fds\<lparr>compressed_fd := from, out_fd := out, max_length := max_length fds - of_nat rc\<rparr>)))"
  by pat_completeness auto

termination
  by (relation "measure (\<lambda>fds. length (sr_left (compressed_fd fds)))")
     (auto dest!: read_no_intr_moves [OF sym])

declare copy_compressed.simps [simp del] pipe_loop.simps [simp del] FlushPipe.simps [simp del]

section \<open>The reader of /proc/self/maps\<close>

text \<open>The bytes between \<open>data\<close> and \<open>end\<close> of \<open>struct io\<close>, its descriptor, and \<open>errno\<close>.\<close>

record maps_io =
  io_fd :: source
  io_unread :: "byte list"
  io_errno :: int

definition GetChar :: "maps_io \<Rightarrow> int \<times> maps_io" where
  "GetChar io =
     (case io_unread io of
        b # bs \<Rightarrow> (uint b, io\<lparr>io_unread := bs\<rparr>)
      | [] \<Rightarrow>
          (case c_read 4096 (io_fd io) of
             (Inl e, fd) \<Rightarrow> (-1, io\<lparr>io_fd := fd, io_errno := e\<rparr>)
           | (Inr [], fd) \<Rightarrow> (-1, io\<lparr>io_fd := fd, io_errno := 0\<rparr>)
           | (Inr (b # bs), fd) \<Rightarrow> (uint b, io\<lparr>io_fd := fd, io_unread := bs\<rparr>)))"

definition io_left :: "maps_io \<Rightarrow> nat" where
  "io_left io = length (io_unread io) + length (sr_left (io_fd io))"

lemma get_char_left:
  "GetChar io = (ch, io') \<Longrightarrow> 0 \<le> ch \<Longrightarrow> io_left io' < io_left io"
  by (auto simp: GetChar_def io_left_def c_read_def split: list.splits prod.splits sum.splits
      dest!: read_no_intr_moves)

lemma get_char_left_le: "GetChar io = (ch, io') \<Longrightarrow> io_left io' \<le> io_left io"
  by (auto simp: GetChar_def io_left_def c_read_def split: list.splits prod.splits sum.splits if_splits
      dest!: read_no_intr_moves read_no_intr_fails)

definition is_hex :: "int \<Rightarrow> bool" where
  "is_hex ch \<longleftrightarrow> (48 \<le> ch \<and> ch \<le> 57) \<or> (65 \<le> ch \<and> ch \<le> 70) \<or> (97 \<le> ch \<and> ch \<le> 102)"

definition hex_digit :: "int \<Rightarrow> 64 word" where
  "hex_digit ch = (if ch < 65 then of_int (ch - 48) else (of_int ch AND 15) + 9)"

function get_hex_loop :: "64 word \<Rightarrow> maps_io \<Rightarrow> int \<times> 64 word \<times> maps_io" where
  "get_hex_loop hex io =
     (let (ch, io') = GetChar io
      in if is_hex ch then get_hex_loop (push_bit 4 hex OR hex_digit ch) io' else (ch, hex, io'))"
  by pat_completeness auto

termination
  by (relation "measure (\<lambda>(hex, io). io_left io)") (auto simp: is_hex_def dest!: get_char_left [OF sym])

declare get_hex_loop.simps [simp del]

text \<open>The first character that is no digit, the number and the rest.\<close>

definition GetHex :: "maps_io \<Rightarrow> int \<times> 64 word \<times> maps_io" where
  "GetHex io = get_hex_loop 0 io"

section \<open>Leading zeros\<close>

text \<open>
  \<open>page i\<close> is what the pipe gives for the page at \<open>mem + i\<close>, \<open>None\<close> when the kernel refuses
  to write it. \<open>ptr\<close> is the rest of \<open>buf\<close>; the array of \<open>pagesize\<close> characters must not be
  empty.
\<close>

function zeros_loop :: "(nat \<Rightarrow> byte list option) \<Rightarrow> nat \<Rightarrow> nat \<Rightarrow> nat \<Rightarrow> byte list \<Rightarrow> nat res" where
  "zeros_loop page len pagesize count ptr =
     (if count < len then
        if pagesize = 0 then Inl (KilledBy 8)
        else if count mod pagesize = 0 then
          (case page count of
             None \<Rightarrow> zeros_loop page len pagesize (count + pagesize) ptr
           | Some [] \<Rightarrow> Inl OutOfRange
           | Some (b # bs) \<Rightarrow> if b \<noteq> 0 then Inr count else zeros_loop page len pagesize (count + 1) bs)
        else
          (case ptr of
             [] \<Rightarrow> Inl OutOfRange
           | b # bs \<Rightarrow> if b \<noteq> 0 then Inr count else zeros_loop page len pagesize (count + 1) bs)
      else Inr count)"
  by pat_completeness auto

termination
  by (relation "measure (\<lambda>(page, len, pagesize, count, ptr). len - count)") auto

declare zeros_loop.simps [simp del]

definition LeadingZeros :: "(nat \<Rightarrow> byte list option) \<Rightarrow> 64 word \<Rightarrow> 64 word \<Rightarrow> 64 word res" where
  "LeadingZeros page len pagesize =
     bindr (zeros_loop page (unat len) (unat pagesize) 0 []) (\<lambda>count.
       Inr (of_nat count AND NOT (pagesize - 1)))"

section \<open>What the writers guarantee\<close>

text \<open>C38: However the kernel answers, a series of writes through \<open>LimitWriter\<close> puts a prefix
  of the bytes into the file, never more than \<open>max_length\<close> of them, and all of them when the
  series is reported as done.\<close>

theorem limit_writer_bounds:
  assumes "write_seq LimitWriter cs fds = (done, fds')"
  shows "\<exists>k \<le> unat (max_length fds).
     sk_data (out_fd fds') = sk_data (out_fd fds) @ take k (concat cs) \<and>
     (done \<longrightarrow> k = length (concat cs))"
  using assms
proof (induction cs arbitrary: fds)
  case (Cons c cs)
  obtain r fds1 where r: "LimitWriter c fds = (r, fds1)" by (cases "LimitWriter c fds")
  obtain k where k: "k \<le> length c" "sk_data (out_fd fds1) = sk_data (out_fd fds) @ take k c" "\<forall>n. r = Inr n \<longrightarrow> n = k"
    using limited.adds_prefix [OF r] by blast
  have small: "\<exists>j \<le> unat (max_length fds). j \<le> length c \<and> sk_data (out_fd fds1) = sk_data (out_fd fds) @ take j c"
  proof (cases "k \<le> unat (max_length fds)")
    case False
    then show ?thesis using limit_writer_stops [OF r] by blast
  qed (use k in blast)
  show ?case
  proof (cases "r = Inr (length c)")
    case True
    have m: "length c \<le> unat (max_length fds)" "unat (max_length fds1) = unat (max_length fds) - length c"
      using limit_writer_limit [of c fds "length c" fds1] r True by auto
    obtain j where "j \<le> unat (max_length fds1)" "sk_data (out_fd fds') = sk_data (out_fd fds1) @ take j (concat cs)"
        "done \<longrightarrow> j = length (concat cs)"
      using Cons.IH [of fds1] Cons.prems r True by auto
    then show ?thesis using k True m by (intro exI [of _ "length c + j"]) auto
  next
    case False
    then have "\<not> done" "fds' = fds1" using Cons.prems r by (auto split: sum.splits if_splits)
    then show ?thesis using small by (auto simp: take_append)
  qed
qed auto

section \<open>Leading zeros are exact\<close>

lemma and_not_mask_word: "(w :: 'a::len word) AND NOT (mask k) = push_bit k (drop_bit k w)"
  by (rule bit_eqI) (auto simp: bit_simps)

lemma unat_and_not_mask: "unat ((w :: 64 word) AND NOT (mask k)) = unat w - unat w mod 2 ^ k"
proof -
  have "unat w div 2 ^ k * 2 ^ k \<le> unat w" by simp
  also have "\<dots> < 2 ^ 64" using unsigned_less [of w] by simp
  finally have "take_bit 64 (unat w div 2 ^ k * 2 ^ k) = unat w div 2 ^ k * 2 ^ k"
    by (simp add: take_bit_nat_eq_self)
  then show ?thesis
    unfolding and_not_mask_word unsigned_push_bit_eq unat_drop_bit_eq
    by (simp add: push_bit_eq_mult drop_bit_eq_div minus_mod_eq_div_mult)
qed

definition zero_byte :: "(nat \<Rightarrow> byte list option) \<Rightarrow> nat \<Rightarrow> nat \<Rightarrow> bool" where
  "zero_byte page ps i = (case page (i - i mod ps) of None \<Rightarrow> True | Some b \<Rightarrow> b ! (i mod ps) = 0)"

lemma same_page:
  assumes "count mod ps = 0" and "count \<le> i" and "i < count + ps"
  shows "i - i mod ps = (count :: nat)"
proof -
  obtain r where r: "i = count + r" "r < ps" using assms(2,3) by (metis le_Suc_ex nat_add_left_cancel_less)
  have "i mod ps = (count mod ps + r) mod ps" unfolding r by (simp add: mod_add_left_eq)
  then show ?thesis using assms(1) r by simp
qed

lemma next_page:
  assumes "ps dvd len" and "count mod ps = 0" and "count < len"
  shows "count + ps \<le> (len :: nat)"
proof -
  obtain a b where "count = ps * a" "len = ps * b" using assms(1,2) by (auto simp: mod_eq_0_iff_dvd elim!: dvdE)
  moreover then have "ps * Suc a \<le> ps * b" using assms(3) by (intro mult_le_mono2) simp
  ultimately show ?thesis by simp
qed

text \<open>What the loop owes when it stands at \<open>count\<close>.\<close>

definition zeros_until :: "(nat \<Rightarrow> byte list option) \<Rightarrow> nat \<Rightarrow> nat \<Rightarrow> nat \<Rightarrow> nat res \<Rightarrow> bool" where
  "zeros_until page len ps count r \<longleftrightarrow>
     (\<exists>c \<ge> count. r = Inr c \<and> (\<forall>i. count \<le> i \<longrightarrow> i < c \<longrightarrow> zero_byte page ps i) \<and>
        (c < len \<longrightarrow> \<not> zero_byte page ps c) \<and> (count \<le> len \<longrightarrow> ps dvd len \<longrightarrow> c \<le> len))"

lemma until_here: "count < len \<longrightarrow> \<not> zero_byte page ps count \<Longrightarrow> zeros_until page len ps count (Inr count)"
  by (auto simp: zeros_until_def)

lemma until_later:
  assumes "zeros_until page len ps later r" and "count \<le> later"
    and "\<And>i. count \<le> i \<Longrightarrow> i < later \<Longrightarrow> zero_byte page ps i"
    and "ps dvd len \<Longrightarrow> later \<le> len"
  shows "zeros_until page len ps count r"
proof -
  obtain c where "c \<ge> later" "r = Inr c" "\<forall>i. later \<le> i \<longrightarrow> i < c \<longrightarrow> zero_byte page ps i"
      "c < len \<longrightarrow> \<not> zero_byte page ps c" "later \<le> len \<longrightarrow> ps dvd len \<longrightarrow> c \<le> len"
    using assms(1) by (auto simp: zeros_until_def)
  moreover have "zero_byte page ps i" if "count \<le> i" "i < c" for i
    using assms(3) calculation(3) that by (cases "i < later") auto
  ultimately show ?thesis using assms(2,4) by (auto simp: zeros_until_def)
qed

text \<open>One byte of the page in \<open>buf\<close>.\<close>

definition buffered :: "(nat \<Rightarrow> byte list option) \<Rightarrow> nat \<Rightarrow> nat \<Rightarrow> byte list \<Rightarrow> bool" where
  "buffered page ps count ptr \<longleftrightarrow>
     (\<exists>b. page (count - count mod ps) = Some b \<and> length b = ps \<and> ptr = drop (count mod ps) b)"

lemma until_byte:
  assumes "buffered page ps count ptr" and "count < len" and "0 < ps"
    and go: "\<And>xs. (count + 1) mod ps \<noteq> 0 \<longrightarrow> buffered page ps (count + 1) xs \<Longrightarrow> ptr = 0 # xs \<Longrightarrow>
           zeros_until page len ps (count + 1) (rest xs)"
  shows "zeros_until page len ps count (case ptr of [] \<Rightarrow> Inl OutOfRange
     | x # xs \<Rightarrow> if x \<noteq> 0 then Inr count else rest xs)"
proof -
  obtain b where b: "page (count - count mod ps) = Some b" "length b = ps" "ptr = drop (count mod ps) b"
    using assms(1) by (auto simp: buffered_def)
  then have ptr: "ptr = b ! (count mod ps) # drop (Suc (count mod ps)) b"
    using assms(3) by (simp add: Cons_nth_drop_Suc)
  have z: "zero_byte page ps count \<longleftrightarrow> b ! (count mod ps) = 0" using b by (simp add: zero_byte_def)
  show ?thesis
  proof (cases "b ! (count mod ps) = 0")
    case True
    have "(count + 1) mod ps \<noteq> 0 \<longrightarrow> buffered page ps (count + 1) (drop (Suc (count mod ps)) b)"
      using b mod_Suc [of count ps] by (auto simp: buffered_def)
    then have "zeros_until page len ps (count + 1) (rest (drop (Suc (count mod ps)) b))"
      using go [of "drop (Suc (count mod ps)) b"] ptr True by simp
    moreover have "zero_byte page ps i" if "count \<le> i" "i < count + 1" for i
      using z True that by (cases "i = count") auto
    ultimately have "zeros_until page len ps count (rest (drop (Suc (count mod ps)) b))"
      using assms(2) by (auto intro: until_later)
    then show ?thesis using ptr True by simp
  qed (use ptr z in \<open>auto intro: until_here\<close>)
qed

lemma zeros_loop_exact:
  assumes "0 < ps" and "\<forall>i b. page i = Some b \<longrightarrow> length b = ps"
    and "count mod ps \<noteq> 0 \<longrightarrow> buffered page ps count ptr"
  shows "zeros_until page len ps count (zeros_loop page len ps count ptr)"
  using assms
proof (induction page len ps count ptr rule: zeros_loop.induct)
  case (1 page len ps count ptr)
  note pages = 1(4,5)
  show ?case
  proof (cases "count < len")
    case less: True
    consider (no_page) "count mod ps = 0" "page count = None"
      | (new_page) b where "count mod ps = 0" "page count = Some b"
      | (same) "count mod ps \<noteq> 0" by (metis option.exhaust)
    then show ?thesis
    proof cases
      case no_page
      have "zeros_until page len ps (count + ps) (zeros_loop page len ps (count + ps) ptr)"
        using 1(1) [OF less _ no_page pages] pages(1) no_page by simp
      moreover have "zero_byte page ps i" if "count \<le> i" "i < count + ps" for i
        using same_page [OF no_page(1) that] no_page(2) by (simp add: zero_byte_def)
      ultimately have "zeros_until page len ps count (zeros_loop page len ps (count + ps) ptr)"
        using next_page [OF _ no_page(1) less] by (auto intro: until_later)
      then show ?thesis using less no_page pages(1) by (simp add: zeros_loop.simps [of page len ps count])
    next
      case new_page
      have "buffered page ps count b" using new_page pages(2) by (simp add: buffered_def)
      from until_byte [OF this less pages(1), of "zeros_loop page len ps (count + 1)"]
      show ?thesis using 1(2) [OF less _ new_page _ _ pages] new_page pages(1) less
        by (simp add: zeros_loop.simps [of page len ps count])
    next
      case same
      then have "buffered page ps count ptr" using 1(6) by blast
      from until_byte [OF this less pages(1), of "zeros_loop page len ps (count + 1)"]
      show ?thesis using 1(3) [OF less _ same _ _ pages] same pages(1) less
        by (simp add: zeros_loop.simps [of page len ps count])
    qed
  qed (auto simp: zeros_loop.simps [of page len ps count] intro: until_here)
qed

text \<open>The number of leading zeros is exact: a whole number of pages, all of whose bytes are
  zero or cannot be read, and unless it is everything, the page after it has a byte that is
  readable and not zero.\<close>

theorem leading_zeros_exact:
  assumes "unat pagesize = 2 ^ k" and "2 ^ k dvd unat len"
    and "\<forall>i b. page i = Some b \<longrightarrow> length b = 2 ^ k"
  shows "\<exists>z. LeadingZeros page len pagesize = Inr z \<and> unat z \<le> unat len \<and> 2 ^ k dvd unat z \<and>
     (\<forall>i < unat z. zero_byte page (2 ^ k) i) \<and>
     (unat z < unat len \<longrightarrow> (\<exists>i. unat z \<le> i \<and> i < unat z + 2 ^ k \<and> \<not> zero_byte page (2 ^ k) i))"
proof -
  have "zeros_until page (unat len) (2 ^ k) 0 (zeros_loop page (unat len) (2 ^ k) 0 [])"
    by (rule zeros_loop_exact) (use assms(3) in auto)
  then obtain c where c: "zeros_loop page (unat len) (2 ^ k) 0 [] = Inr c" "\<forall>i < c. zero_byte page (2 ^ k) i"
      "c < unat len \<longrightarrow> \<not> zero_byte page (2 ^ k) c" "c \<le> unat len"
    using assms(2) by (auto simp: zeros_until_def)
  define z :: "64 word" where "z = of_nat c AND NOT (pagesize - 1)"
  have "(of_nat (unat pagesize) :: 64 word) = pagesize" by (simp add: of_nat_unat)
  then have "pagesize = of_nat (2 ^ k)" unfolding assms(1) by (rule sym)
  then have "pagesize = 2 ^ k" by (simp only: of_nat_power of_nat_numeral)
  then have m: "pagesize - 1 = mask k" by (simp add: mask_eq_exp_minus_1)
  have "unat (of_nat c :: 64 word) = c" using c(4) by (simp add: le_unat_uoi)
  then have uz: "unat z = c - c mod 2 ^ k" unfolding z_def m unat_and_not_mask by simp
  have dvd: "2 ^ k dvd unat z" unfolding uz by simp
  have "c mod 2 ^ k < 2 ^ k" by simp
  then have near: "c < unat z + 2 ^ k" unfolding uz by linarith
  moreover have "c < unat len" if "unat z < unat len"
    using next_page [OF assms(2) _ that] dvd near by (simp add: mod_eq_0_iff_dvd)
  moreover have "unat z \<le> c" unfolding uz by simp
  moreover have "LeadingZeros page len pagesize = Inr z" by (simp add: LeadingZeros_def assms(1) c(1) z_def)
  ultimately show ?thesis using c dvd by (intro exI [of _ z]) auto
qed

lemma leading_zeros_exact_witness:
  "\<exists>z. LeadingZeros (\<lambda>i. if i = 0 then None else Some [0, 0, 7, 0]) 12 4 = Inr z \<and> unat z = 4"
proof -
  let ?page = "\<lambda>i :: nat. if i = 0 then None else Some [0, 0, 7, 0 :: byte]"
  have "LeadingZeros ?page 12 4 = Inr 4"
    by (simp add: LeadingZeros_def zeros_loop.simps)
  moreover have "unat (4 :: 64 word) = 2 ^ 2" "2 ^ 2 dvd unat (12 :: 64 word)"
      "\<forall>i b. ?page i = Some b \<longrightarrow> length b = 2 ^ 2"
    by (auto split: if_splits)
  then have "\<exists>z. LeadingZeros ?page 12 4 = Inr z"
    using leading_zeros_exact [of 4 2 12 ?page] by blast
  ultimately show ?thesis by simp
qed

section \<open>The compressor gets every byte once, unless its input would block\<close>

lemma write_no_intr_answers:
  "write_no_intr bs s = (r, s') \<Longrightarrow> set (sk_answers s') \<subseteq> set (sk_answers s) \<and>
     (\<forall>e. r = Inl e \<longrightarrow> Fails e \<in> set (sk_answers s))"
proof (induction bs s rule: write_no_intr.induct)
  case (1 bs s)
  obtain q t where q: "sys_write bs s = (q, t)" by (cases "sys_write bs s")
  have one: "set (sk_answers t) \<subseteq> set (sk_answers s)" "\<forall>e. q = Inl e \<longrightarrow> Fails e \<in> set (sk_answers s)"
    using q by (auto simp: sys_write_def split: list.splits answer.splits)
  show ?case
  proof (cases "q = Inl EINTR")
    case True
    then have "write_no_intr bs t = (r, s')" using 1(2) q by (simp add: write_no_intr.simps [of bs s])
    then show ?thesis using 1(1) [OF q [symmetric] True refl] one by auto
  next
    case False
    then have "s' = t" "r = q" using 1(2) q by (auto simp: write_no_intr.simps [of bs s] split: sum.splits if_splits)
    then show ?thesis using one by simp
  qed
qed

lemma copy_compressed_input: "copy_compressed fds = (b, fds') \<Longrightarrow> write_fd fds' = write_fd fds"
proof (induction fds rule: copy_compressed.induct)
  case (1 fds)
  then show ?case
    by (auto simp: copy_compressed.simps [of fds] split: prod.splits sum.splits if_splits)
qed

lemma mem_bytes_add: "mem_bytes mem pos (m + n) = mem_bytes mem pos m @ mem_bytes mem (pos + int m) n"
  by (rule nth_equalityI) (auto simp: mem_bytes_def nth_append algebra_simps)

lemma take_mem_bytes: "k \<le> n \<Longrightarrow> take k (mem_bytes mem pos n) = mem_bytes mem pos k"
  by (simp add: mem_bytes_def take_map)

lemma pipe_send_exact:
  assumes "pipe_send mem pos len fds = (sent, fds')" and "Fails EAGAIN \<notin> set (sk_answers (write_fd fds))"
  shows "Fails EAGAIN \<notin> set (sk_answers (write_fd fds')) \<and>
     (\<forall>pos' len'. sent = Some (pos', len') \<longrightarrow> len' \<le> len \<and> pos' = pos + int (len - len') \<and>
        sk_data (write_fd fds') = sk_data (write_fd fds) @ mem_bytes mem pos (len - len'))"
proof -
  obtain r t where r: "write_no_intr (mem_bytes mem pos len) (write_fd fds) = (r, t)"
    by (cases "write_no_intr (mem_bytes mem pos len) (write_fd fds)")
  note answers = write_no_intr_answers [OF r]
  show ?thesis
  proof (cases r)
    case (Inl e)
    then have "e \<noteq> EAGAIN" using answers assms(2) by auto
    then show ?thesis using assms r Inl answers by (auto simp: pipe_send_def)
  next
    case (Inr rc)
    have "rc \<le> len" "sk_data t = sk_data (write_fd fds) @ mem_bytes mem pos rc"
      using write_no_intr_moves [OF r [unfolded Inr]] by (auto simp: mem_bytes_def take_map)
    then show ?thesis using assms r Inr answers by (auto simp: pipe_send_def)
  qed
qed

lemma pipe_loop_poll:
  assumes "max_length fds \<noteq> 0" and "len \<noteq> 0"
    and "(if readable then copy_compressed fds else (True, fds)) = (b, fds1)"
  shows "pipe_loop (Inr (readable, writable) # ps) mem pos len fds =
     (if \<not> b then (None, fds1\<lparr>polls := ps\<rparr>)
      else if writable
      then (case pipe_send mem pos len fds1 of
              (None, fds) \<Rightarrow> (None, fds\<lparr>polls := ps\<rparr>)
            | (Some (pos, len), fds) \<Rightarrow> pipe_loop ps mem pos len fds)
      else pipe_loop ps mem pos len fds1)"
  using assms by (subst pipe_loop.simps) (simp split: bool.splits)

lemma pipe_loop_exact:
  assumes "pipe_loop ps mem pos len fds = (left, fds')" and "Fails EAGAIN \<notin> set (sk_answers (write_fd fds))"
    and "left = Some len'"
  shows "len' \<le> len \<and> sk_data (write_fd fds') = sk_data (write_fd fds) @ mem_bytes mem pos (len - len')"
  using assms
proof (induction ps arbitrary: pos len fds)
  case Nil
  then show ?case by (auto simp: pipe_loop.simps [of "[]"] mem_bytes_def split: if_splits)
next
  case (Cons p ps)
  have stay: ?case if "left = Some len" "write_fd fds' = write_fd fds"
    using that Cons.prems(3) by (simp add: mem_bytes_def)
  show ?case
  proof (cases "max_length fds = 0 \<or> len = 0 \<or> (\<exists>e. p = Inl e)")
    case True
    then show ?thesis using Cons.prems(1) stay by (auto simp: pipe_loop.simps [of "p # ps"] split: if_splits)
  next
    case False
    then obtain readable writable where p: "p = Inr (readable, writable)" by (cases p) auto
    obtain b fds1 where copied: "(if readable then copy_compressed fds else (True, fds)) = (b, fds1)"
      by (cases "if readable then copy_compressed fds else (True, fds)")
    have same: "write_fd fds1 = write_fd fds"
      using copied by (auto dest: copy_compressed_input split: if_splits)
    note step = pipe_loop_poll [OF _ _ copied, of len writable ps mem pos]
    have b: b using Cons.prems(1,3) False p step by (auto split: if_splits)
    show ?thesis
    proof (cases writable)
      case True
      obtain sent fds2 where sent: "pipe_send mem pos len fds1 = (sent, fds2)" by (cases "pipe_send mem pos len fds1")
      note exact = pipe_send_exact [OF sent]
      obtain pos' len1 where s: "sent = Some (pos', len1)"
        using Cons.prems(1,3) False p step b True sent by (cases sent) auto
      have "pipe_loop ps mem pos' len1 fds2 = (left, fds')"
        using Cons.prems(1) False p step b True sent s by simp
      from Cons.IH [OF this _ Cons.prems(3)] exact s same Cons.prems(2)
      have "len' \<le> len1" "len1 \<le> len" "pos' = pos + int (len - len1)"
          "sk_data (write_fd fds') = sk_data (write_fd fds) @ mem_bytes mem pos (len - len1) @ mem_bytes mem pos' (len1 - len')"
        by auto
      then show ?thesis using mem_bytes_add [of mem pos "len - len1" "len1 - len'"] by simp
    next
      case no: False
      then have "pipe_loop ps mem pos len fds1 = (left, fds')"
        using Cons.prems(1) False p step b no by simp
      from Cons.IH [OF this _ Cons.prems(3)] show ?thesis using same Cons.prems(2) by simp
    qed
  qed
qed

text \<open>C36: As long as the compressor's input never answers \<open>EAGAIN\<close>, \<open>PipeWriter\<close> gives the
  compressor exactly the bytes it says it has written, in order, whatever else happens: short
  writes, interruptions, and any interleaving with the compressed output.\<close>

theorem pipe_writer_exact:
  assumes "PipeWriter mem n fds = (r, fds')" and "0 \<le> r"
    and "Fails EAGAIN \<notin> set (sk_answers (write_fd fds))"
  shows "r \<le> int n \<and> sk_data (write_fd fds') = sk_data (write_fd fds) @ mem_bytes mem 0 (nat r)"
proof -
  obtain left t where l: "pipe_loop (polls fds) mem 0 n fds = (left, t)" by (cases "pipe_loop (polls fds) mem 0 n fds")
  then obtain len' where "left = Some len'" "t = fds'" "r = int n - int len'"
    using assms(1,2) by (cases left) (auto simp: PipeWriter_def)
  with pipe_loop_exact [OF l assms(3)] show ?thesis by (auto simp: nat_diff_distrib)
qed

definition sample_pipe :: "answer list \<Rightarrow> writer_fds" where
  "sample_pipe answers =
     \<lparr>max_length = 100, write_fd = \<lparr>sk_data = [], sk_answers = answers\<rparr>,
      compressed_fd = \<lparr>sr_left = [], sr_answers = []\<rparr>, out_fd = \<lparr>sk_data = [], sk_answers = []\<rparr>,
      polls = [Inr (False, True), Inr (False, True)]\<rparr>"

lemma pipe_writer_exact_witness:
  "\<exists>fds'. PipeWriter (\<lambda>i. of_int i) 3 (sample_pipe [Fails EINTR, Moves 2]) = (3, fds') \<and>
     sk_data (write_fd fds') = [0, 1, 2]"
proof -
  obtain fds' where w: "PipeWriter (\<lambda>i. of_int i) 3 (sample_pipe [Fails EINTR, Moves 2]) = (3, fds')"
    by (simp add: PipeWriter_def sample_pipe_def pipe_loop.simps pipe_send_def write_no_intr.simps sys_write_def
        mem_bytes_def upt_rec)
  with pipe_writer_exact [OF w] have "sk_data (write_fd fds') = mem_bytes (\<lambda>i. of_int i) 0 3"
    by (simp add: sample_pipe_def)
  then show ?thesis using w by (simp add: mem_bytes_def upt_rec)
qed

text \<open>C37: When the compressor's input would block, \<open>PipeWriter\<close> moves its buffer pointer back
  by one: with the next write it sends the byte in front of the buffer as well, and still
  reports that all is well.\<close>

theorem pipe_writer_resends:
  assumes "polls fds = Inr (False, True) # Inr (False, True) # ps" and "max_length fds \<noteq> 0" and "0 < n"
    and "sk_answers (write_fd fds) = [Fails EAGAIN]"
  shows "\<exists>fds'. PipeWriter mem n fds = (int n, fds') \<and>
     sk_data (write_fd fds') = sk_data (write_fd fds) @ mem (-1) # mem_bytes mem 0 n"
proof -
  let ?w = "(write_fd fds)\<lparr>sk_answers := []\<rparr>"
  have "mem_bytes mem (-1) (n + 1) = mem (-1) # mem_bytes mem 0 n"
    using mem_bytes_add [of mem "-1" 1 n] by (simp add: mem_bytes_def add.commute)
  then have "pipe_loop (Inr (False, True) # Inr (False, True) # ps) mem 0 n fds =
      (Some 0, fds\<lparr>write_fd := ?w\<lparr>sk_data := sk_data ?w @ mem (-1) # mem_bytes mem 0 n\<rparr>, polls := ps\<rparr>)"
    using assms by (simp add: pipe_loop.simps pipe_send_def write_no_intr.simps sys_write_def)
      (simp add: mem_bytes_def)
  then show ?thesis by (simp add: PipeWriter_def assms(1))
qed

lemma pipe_writer_resends_witness:
  "\<exists>fds'. PipeWriter (\<lambda>i. if i < 0 then 9 else 1) 2 (sample_pipe [Fails EAGAIN]) = (2, fds') \<and>
     sk_data (write_fd fds') = [9, 1, 1]"
  using pipe_writer_resends [of "sample_pipe [Fails EAGAIN]" "[]" 2 "\<lambda>i. if i < 0 then 9 else 1"]
  by (simp add: sample_pipe_def mem_bytes_def upt_rec)

lemma limit_writer_bounds_witness:
  "\<exists>fds'. write_seq LimitWriter [[1, 2], [3, 4], [5]] ((sample_pipe [])\<lparr>max_length := 3\<rparr>) = (False, fds') \<and>
     length (sk_data (out_fd fds')) \<le> 3"
proof -
  obtain fds' where w: "write_seq LimitWriter [[1, 2], [3, 4], [5]] ((sample_pipe [])\<lparr>max_length := 3\<rparr>) = (False, fds')"
    by (simp add: limit_writer_all sample_pipe_def)
  with limit_writer_bounds [OF w] show ?thesis by (auto simp: sample_pipe_def)
qed

end
