(* ===== verification/CoreMaps.thy ===== *)
theory CoreMaps
  imports CoreIo
begin

text \<open>
  The memory mappings of the process as \<open>CreateElfCore\<close> (\<open>coredumper/elfcore.c\<close>) reads them
  from \<open>/proc/self/maps\<close>: counting the lines, parsing each, leaving out what needs no place in
  a core file, and cutting the largest mappings down when the file is limited by priority.
  \<open>None\<close> is the jump to \<open>read_error\<close>.
\<close>

unbundle bit_operations_syntax

section \<open>Lines\<close>

abbreviation (input) "PF_X \<equiv> (1 :: 32 word)"
abbreviation (input) "PF_W \<equiv> (2 :: 32 word)"
abbreviation (input) "PF_R \<equiv> (4 :: 32 word)"
abbreviation (input) "PF_MASK \<equiv> (7 :: 32 word)"
abbreviation (input) "PF_ANONYMOUS \<equiv> (0x80000000 :: 32 word)"

record mapping =
  start_address :: "64 word"
  end_address :: "64 word"
  map_offset :: "64 word"
  write_size :: "64 word"
  map_flags :: "32 word"

text \<open>The number of lines; the second component says that reading failed.\<close>

function count_lines :: "nat \<Rightarrow> maps_io \<Rightarrow> nat \<times> bool" where
  "count_lines n io =
     (let (ch, io') = GetChar io
      in if ch \<ge> 0 then count_lines (if ch = 10 then n + 1 else n) io' else (n, io_errno io' \<noteq> 0))"
  by pat_completeness auto

termination
  by (relation "measure (\<lambda>(n, io). io_left io)") (auto dest!: get_char_left [OF sym])

function read_flags :: "32 word \<Rightarrow> maps_io \<Rightarrow> (32 word \<times> maps_io) option" where
  "read_flags fl io =
     (let (ch, io') = GetChar io
      in if ch = 32 then Some (fl, io')
         else if ch < 0 then None
         else read_flags (push_bit 1 fl OR of_bool (ch \<noteq> 45)) io')"
  by pat_completeness auto

termination
  by (relation "measure (\<lambda>(fl, io). io_left io)") (auto dest!: get_char_left [OF sym])

text \<open>What a loop has left that reads a character into \<open>ch\<close> at the end of its body.\<close>

definition scan_left :: "int \<times> maps_io \<Rightarrow> nat" where
  "scan_left = (\<lambda>(ch, io). io_left io + (if ch < 0 then 0 else 1))"

lemma scan_left_less: "0 \<le> ch \<Longrightarrow> scan_left (GetChar io) < scan_left (ch, io)"
  using get_char_left [of io] get_char_left_le [of io] by (cases "GetChar io") (auto simp: scan_left_def)

text \<open>The three loops that skip the device and the inode, each from the character read last.\<close>

function skip_spaces :: "int \<Rightarrow> maps_io \<Rightarrow> int \<times> maps_io" where
  "skip_spaces ch io =
     (if ch = 32 then (let (ch, io) = GetChar io in skip_spaces ch io) else (ch, io))"
  by pat_completeness auto

termination
  by (relation "measure scan_left") (auto simp: scan_left_less)

function skip_word :: "int \<Rightarrow> maps_io \<Rightarrow> (int \<times> maps_io) option" where
  "skip_word ch io =
     (if ch \<noteq> 32 \<and> ch \<noteq> 10 then
        if ch < 0 then None
        else (let (ch, io) = GetChar io in skip_word ch io)
      else Some (ch, io))"
  by pat_completeness auto

termination
  by (relation "measure scan_left") (auto simp: scan_left_less)

function skip_line :: "int \<Rightarrow> maps_io \<Rightarrow> maps_io option" where
  "skip_line ch io =
     (if ch \<noteq> 10 then
        if ch < 0 then None
        else (let (ch, io) = GetChar io in skip_line ch io)
      else Some io)"
  by pat_completeness auto

termination
  by (relation "measure scan_left") (auto simp: scan_left_less)

declare count_lines.simps [simp del] read_flags.simps [simp del] skip_spaces.simps [simp del]
  skip_word.simps [simp del] skip_line.simps [simp del]

definition skip_field :: "int \<times> maps_io \<Rightarrow> (int \<times> maps_io) option" where
  "skip_field = (\<lambda>(ch, io).
     let (ch, io) = skip_spaces ch io
     in case skip_word ch io of
          None \<Rightarrow> None
        | Some (ch, io) \<Rightarrow>
            (let (ch, io) = skip_spaces ch io in if ch < 0 then None else Some (ch, io)))"

text \<open>\<open>"/dev/zero"\<close>, and how far the path agrees with it: the rest of \<open>dev\<close>.\<close>

definition dev_zero :: "int list" where
  "dev_zero = map of_char ''/dev/zero''"

fun match_dev :: "int list \<Rightarrow> int \<Rightarrow> maps_io \<Rightarrow> int list \<times> int \<times> maps_io" where
  "match_dev [] ch io = ([], ch, io)"
| "match_dev (d # dev) ch io =
     (if ch = d then (let (ch', io') = GetChar io in match_dev dev ch' io') else (d # dev, ch, io))"

text \<open>One line up to its end: the mapping, and whether it is one of a device.\<close>

definition parse_mapping :: "maps_io \<Rightarrow> (mapping \<times> bool \<times> maps_io) option" where
  "parse_mapping io =
     (let (ch, start, io) = GetHex io
      in if ch \<noteq> 45 then None
         else let (ch, end', io) = GetHex io
              in if ch \<noteq> 32 then None
                 else case read_flags 0 io of
                        None \<Rightarrow> None
                      | Some (fl, io) \<Rightarrow>
                          let (ch, offset, io) = GetHex io
                          in if ch \<noteq> 32 then None
                             else case Option.bind (skip_field (ch, io)) skip_field of
                                    None \<Rightarrow> None
                                  | Some (ch, io) \<Rightarrow>
                                      let is_anonymous = (ch = 10 \<or> ch = 91);
                                          (dev, ch, io) = match_dev dev_zero ch io;
                                          is_device = (length dev_zero - length dev \<ge> 5 \<and>
                                            ((ch \<noteq> 10 \<and> ch \<noteq> 32) \<or> dev \<noteq> []));
                                          fl = drop_bit 1 fl AND PF_MASK;
                                          fl = (if is_anonymous then fl OR PF_ANONYMOUS else fl)
                                      in case skip_line ch io of
                                           None \<Rightarrow> None
                                         | Some io \<Rightarrow>
                                             Some (\<lparr>start_address = start, end_address = end', map_offset = offset,
                                                    write_size = 0, map_flags = fl\<rparr>, is_device, io))"

section \<open>Which mappings are kept\<close>

text \<open>
  \<open>pages start i\<close> is the page at \<open>start + i\<close> as it comes through the pipe. Leading zeros are
  left out, mappings that are read-only have no contents, and mappings that are unreadable,
  empty or of a device are dropped (\<open>None\<close>).
\<close>

type_synonym pages = "64 word \<Rightarrow> nat \<Rightarrow> byte list option"

definition trim_mapping :: "pages \<Rightarrow> 64 word \<Rightarrow> mapping \<Rightarrow> bool \<Rightarrow> mapping option res" where
  "trim_mapping pages pagesize m is_device =
     bindr (if map_flags m AND PF_R \<noteq> 0 \<and> \<not> is_device
            then bindr (LeadingZeros (pages (start_address m)) (end_address m - start_address m) pagesize) (\<lambda>zeros.
                   Inr (m\<lparr>start_address := start_address m + zeros\<rparr>))
            else Inr m) (\<lambda>m.
     let m = m\<lparr>write_size := if map_flags m AND (PF_ANONYMOUS OR PF_W) = 0 then 0
                             else end_address m - start_address m\<rparr>
     in Inr (if map_flags m AND PF_R = 0 \<or> start_address m = end_address m \<or> is_device
             then None else Some m))"

fun read_mappings :: "pages \<Rightarrow> 64 word \<Rightarrow> nat \<Rightarrow> maps_io \<Rightarrow> mapping list option res" where
  "read_mappings pages pagesize 0 io = Inr (Some [])"
| "read_mappings pages pagesize (Suc n) io =
     (case parse_mapping io of
        None \<Rightarrow> Inr None
      | Some (m, is_device, io) \<Rightarrow>
          bindr (trim_mapping pages pagesize m is_device) (\<lambda>kept.
          bindr (read_mappings pages pagesize n io) (\<lambda>rest.
            Inr (map_option (\<lambda>ms. case kept of None \<Rightarrow> ms | Some m \<Rightarrow> m # ms) rest))))"

section \<open>Limiting by priority\<close>

text \<open>
  The loop that looks for the largest mapping (the first of them) and the sum; \<open>fixed\<close> is
  \<open>offset + filesz + vdso_size\<close>.
\<close>

definition largest_step :: "mapping list \<Rightarrow> nat \<Rightarrow> nat option \<Rightarrow> nat option" where
  "largest_step ms i largest =
     (case largest of
        None \<Rightarrow> Some i
      | Some k \<Rightarrow> if write_size (ms ! k) < write_size (ms ! i) then Some i else Some k)"

definition find_largest :: "mapping list \<Rightarrow> nat option" where
  "find_largest ms = fold (largest_step ms) [0..<length ms] None"

definition total_size :: "64 word \<Rightarrow> mapping list \<Rightarrow> 64 word" where
  "total_size fixed ms = fold (\<lambda>m total. total + write_size m) ms fixed"

lemma find_largest_spec:
  "case find_largest ms of None \<Rightarrow> ms = []
   | Some k \<Rightarrow> k < length ms \<and> (\<forall>i < length ms. write_size (ms ! i) \<le> write_size (ms ! k))"
proof -
  have "case fold (largest_step ms) [0..<n] None of None \<Rightarrow> n = 0
     | Some k \<Rightarrow> k < n \<and> (\<forall>i < n. write_size (ms ! i) \<le> write_size (ms ! k))" for n
  proof (induction n)
    case (Suc n)
    then show ?case
      by (auto simp: largest_step_def less_Suc_eq split: option.splits)
  qed simp
  from this [of "length ms"] show ?thesis by (simp add: find_largest_def split: option.splits)
qed

lemma find_largest_index: "find_largest ms = Some k \<Longrightarrow> k < length ms"
  using find_largest_spec [of ms] by simp

function prioritize :: "64 word \<Rightarrow> 64 word \<Rightarrow> mapping list \<Rightarrow> mapping list" where
  "prioritize max_len fixed ms =
     (case find_largest ms of
        None \<Rightarrow> ms
      | Some k \<Rightarrow>
          if total_size fixed ms > max_len then
            let space_needed = total_size fixed ms - max_len
            in if write_size (ms ! k) > 0 then
                 if space_needed > write_size (ms ! k)
                 then prioritize max_len fixed (ms[k := (ms ! k)\<lparr>write_size := 0\<rparr>])
                 else ms[k := (ms ! k)\<lparr>write_size := write_size (ms ! k) - space_needed\<rparr>]
               else ms
          else ms)"
  by pat_completeness auto

text \<open>Each round leaves one mapping less with contents.\<close>

termination
proof (relation "measure (\<lambda>(max_len, fixed, ms). length (filter (\<lambda>m. write_size m > 0) ms))")
  fix max_len fixed space :: "64 word" and ms k
  assume found: "find_largest ms = Some k" and pos: "0 < write_size (ms ! k)"
  have k: "k < length ms" by (rule find_largest_index [OF found])
  then have "ms = take k ms @ ms ! k # drop (Suc k) ms" by (rule id_take_nth_drop)
  then have "length (filter (\<lambda>m. write_size m > 0) ms) =
      length (filter (\<lambda>m. write_size m > 0) (take k ms)) + 1 + length (filter (\<lambda>m. write_size m > 0) (drop (Suc k) ms))"
    using pos by (metis (mono_tags, lifting) add.assoc filter.simps(2) filter_append length_Cons length_append plus_1_eq_Suc)
  then show "((max_len, fixed, ms[k := (ms ! k)\<lparr>write_size := 0\<rparr>]), max_len, fixed, ms)
      \<in> measure (\<lambda>(max_len, fixed, ms). length (filter (\<lambda>m. write_size m > 0) ms))"
    using k by (simp add: upd_conv_take_nth_drop)
qed simp

declare prioritize.simps [simp del]

section \<open>What limiting by priority guarantees\<close>

definition sizes_sum :: "mapping list \<Rightarrow> nat" where
  "sizes_sum ms = sum_list (map (\<lambda>m. unat (write_size m)) ms)"

lemma unat_add_small: "unat (a :: 64 word) + unat b < 2 ^ 64 \<Longrightarrow> unat (a + b) = unat a + unat b"
  by (simp add: unat_word_ariths)

lemma total_size_sum:
  "unat fixed + sizes_sum ms < 2 ^ 64 \<Longrightarrow> unat (total_size fixed ms) = unat fixed + sizes_sum ms"
proof (induction ms arbitrary: fixed)
  case (Cons m ms)
  then have "unat (fixed + write_size m) = unat fixed + unat (write_size m)"
    by (intro unat_add_small) (simp add: sizes_sum_def)
  then show ?case using Cons by (simp add: total_size_def sizes_sum_def)
qed (simp add: total_size_def sizes_sum_def)

lemma sizes_sum_update:
  "k < length ms \<Longrightarrow>
     sizes_sum (ms[k := (ms ! k)\<lparr>write_size := w\<rparr>]) + unat (write_size (ms ! k)) = sizes_sum ms + unat w"
proof (induction ms arbitrary: k)
  case (Cons m ms)
  then show ?case by (cases k) (auto simp: sizes_sum_def)
qed simp

text \<open>What becomes of the sizes: nothing else changes, and larger ones go first.\<close>

definition cut_down :: "mapping list \<Rightarrow> mapping list \<Rightarrow> bool" where
  "cut_down ms ms' \<longleftrightarrow> length ms' = length ms \<and>
     (\<forall>i < length ms. (ms' ! i)\<lparr>write_size := 0\<rparr> = (ms ! i)\<lparr>write_size := 0\<rparr> \<and>
        write_size (ms' ! i) \<le> write_size (ms ! i)) \<and>
     (\<forall>i < length ms. \<forall>j < length ms. write_size (ms' ! i) < write_size (ms ! i) \<longrightarrow>
        write_size (ms ! i) < write_size (ms ! j) \<longrightarrow> write_size (ms' ! j) = 0)"

lemma cut_down_refl: "cut_down ms ms"
  by (simp add: cut_down_def)

lemma cut_down_largest:
  assumes "find_largest ms = Some k" and "w \<le> write_size (ms ! k)"
  shows "cut_down ms (ms[k := (ms ! k)\<lparr>write_size := w\<rparr>])"
proof -
  have "k < length ms" "\<And>i. i < length ms \<Longrightarrow> write_size (ms ! i) \<le> write_size (ms ! k)"
    using find_largest_spec [of ms] assms(1) by auto
  then show ?thesis using assms(2) by (auto simp: cut_down_def nth_list_update not_less) (meson leD)
qed

lemma cut_down_zeroed:
  assumes "find_largest ms = Some k" and later: "cut_down (ms[k := (ms ! k)\<lparr>write_size := 0\<rparr>]) ms'"
  shows "cut_down ms ms'"
proof -
  let ?ms = "ms[k := (ms ! k)\<lparr>write_size := 0\<rparr>]"
  have k: "k < length ms" "\<And>i. i < length ms \<Longrightarrow> write_size (ms ! i) \<le> write_size (ms ! k)"
    using find_largest_spec [of ms] assms(1) by auto
  have len: "length ms' = length ms" using later by (simp add: cut_down_def)
  have l1: "(ms' ! i)\<lparr>write_size := 0\<rparr> = (?ms ! i)\<lparr>write_size := 0\<rparr> \<and> write_size (ms' ! i) \<le> write_size (?ms ! i)"
    if "i < length ms" for i
    using later that unfolding cut_down_def length_list_update by blast
  have l2: "write_size (ms' ! j) = 0" if "i < length ms" "j < length ms" "write_size (ms' ! i) < write_size (?ms ! i)"
      "write_size (?ms ! i) < write_size (?ms ! j)" for i j
    using later that unfolding cut_down_def length_list_update by blast
  have zero: "write_size (ms' ! k) = 0" "(ms' ! k)\<lparr>write_size := 0\<rparr> = (ms ! k)\<lparr>write_size := 0\<rparr>"
    using l1 [OF k(1)] k(1) by simp_all
  have other: "(ms' ! i)\<lparr>write_size := 0\<rparr> = (ms ! i)\<lparr>write_size := 0\<rparr> \<and> write_size (ms' ! i) \<le> write_size (ms ! i)"
    if "i < length ms" "i \<noteq> k" for i
    using l1 [OF that(1)] that by simp
  have first: "write_size (ms' ! j) = 0"
    if "i < length ms" "j < length ms" "write_size (ms' ! i) < write_size (ms ! i)" "write_size (ms ! i) < write_size (ms ! j)"
    for i j
  proof (cases "i = k \<or> j = k")
    case True
    then show ?thesis using that k(2) [of j] zero(1) by auto
  next
    case False
    then show ?thesis using l2 [OF that(1,2)] that by simp
  qed
  have "(ms' ! i)\<lparr>write_size := 0\<rparr> = (ms ! i)\<lparr>write_size := 0\<rparr> \<and> write_size (ms' ! i) \<le> write_size (ms ! i)"
    if "i < length ms" for i
    by (cases "i = k") (use that zero other in auto)
  then show ?thesis unfolding cut_down_def using len first by blast
qed

lemma prioritize_cuts: "cut_down ms (prioritize max_len fixed ms)"
proof (induction max_len fixed ms rule: prioritize.induct)
  case (1 max_len fixed ms)
  show ?case
  proof (cases "find_largest ms")
    case (Some k)
    let ?space = "total_size fixed ms - max_len"
    show ?thesis
    proof (cases "total_size fixed ms > max_len \<and> write_size (ms ! k) > 0")
      case True
      show ?thesis
      proof (cases "?space > write_size (ms ! k)")
        case zero: True
        then show ?thesis
          using 1 [OF Some _ refl _ zero] cut_down_zeroed [OF Some] True Some by (simp add: prioritize.simps [of max_len fixed ms])
      next
        case False
        then have "write_size (ms ! k) - ?space \<le> write_size (ms ! k)"
          by (simp add: word_sub_le not_less)
        then show ?thesis using cut_down_largest [OF Some] True False Some by (simp add: prioritize.simps [of max_len fixed ms])
      qed
    qed (auto simp: prioritize.simps [of max_len fixed ms] Some cut_down_refl)
  qed (simp add: prioritize.simps [of max_len fixed ms] cut_down_refl)
qed

lemma prioritize_total:
  assumes "unat fixed + sizes_sum ms < 2 ^ 64" and "unat fixed + sizes_sum ms > unat max_len"
  shows "if unat fixed \<le> unat max_len
         then unat fixed + sizes_sum (prioritize max_len fixed ms) = unat max_len
         else sizes_sum (prioritize max_len fixed ms) = 0"
  using assms
proof (induction max_len fixed ms rule: prioritize.induct)
  case (1 max_len fixed ms)
  note total = total_size_sum [OF 1(2)]
  have over: "total_size fixed ms > max_len" using total 1(3) by (simp add: word_less_nat_alt)
  show ?case
  proof (cases "find_largest ms")
    case None
    then have "ms = []" using find_largest_spec [of ms] by simp
    then show ?thesis using 1(3) None by (simp add: prioritize.simps [of max_len fixed "[]"] sizes_sum_def)
  next
    case (Some k)
    then have k: "k < length ms" "\<And>i. i < length ms \<Longrightarrow> write_size (ms ! i) \<le> write_size (ms ! k)"
      using find_largest_spec [of ms] by auto
    let ?space = "total_size fixed ms - max_len"
    have space: "unat ?space = unat fixed + sizes_sum ms - unat max_len"
      using over total by (simp add: unat_sub order_less_imp_le)
    show ?thesis
    proof (cases "write_size (ms ! k) > 0")
      case False
      then have "write_size m = 0" if "m \<in> set ms" for m
        using k(2) that by (metis in_set_conv_nth word_le_0_iff word_gt_0)
      then have "sizes_sum ms = 0" by (simp add: sizes_sum_def)
      then show ?thesis using False Some over 1(3) by (simp add: prioritize.simps [of max_len fixed ms])
    next
      case pos: True
      show ?thesis
      proof (cases "?space > write_size (ms ! k)")
        case True
        let ?ms = "ms[k := (ms ! k)\<lparr>write_size := 0\<rparr>]"
        have "unat (write_size (ms ! k)) < unat ?space" using True by (simp add: word_less_nat_alt)
        then have "unat fixed + sizes_sum ?ms < 2 ^ 64" "unat fixed + sizes_sum ?ms > unat max_len"
          using sizes_sum_update [OF k(1), of 0] 1(2) space by simp_all
        from 1(1) [OF Some over refl pos True this] show ?thesis
          using Some over pos True by (simp add: prioritize.simps [of max_len fixed ms])
      next
        case False
        then have le: "?space \<le> write_size (ms ! k)" "unat ?space \<le> unat (write_size (ms ! k))"
          by (simp_all add: not_less word_le_nat_alt)
        have "sizes_sum (ms[k := (ms ! k)\<lparr>write_size := write_size (ms ! k) - ?space\<rparr>]) + unat ?space = sizes_sum ms"
          using sizes_sum_update [OF k(1), of "write_size (ms ! k) - ?space"] le by (simp add: unat_sub)
        moreover have "unat (write_size (ms ! k)) \<le> sizes_sum ms"
          using sizes_sum_update [OF k(1), of 0] by simp
        moreover have "prioritize max_len fixed ms = ms[k := (ms ! k)\<lparr>write_size := write_size (ms ! k) - ?space\<rparr>]"
          using Some over pos False by (simp add: prioritize.simps [of max_len fixed ms])
        ultimately show ?thesis using space le(2) 1(3) by auto
      qed
    qed
  qed
qed

text \<open>C18: Limiting by priority always ends, and ends right: when everything fits nothing changes;
  otherwise the file becomes exactly as large as allowed, or, if even the headers and notes
  are too large, no memory is left in it. Only sizes are reduced, and a mapping is only cut
  when every larger one is already gone.\<close>

theorem prioritize_exact:
  assumes "unat fixed + sizes_sum ms < 2 ^ 64"
  shows "let ms' = prioritize max_len fixed ms in
     (unat fixed + sizes_sum ms \<le> unat max_len \<longrightarrow> ms' = ms) \<and>
     (unat fixed + sizes_sum ms > unat max_len \<longrightarrow>
        (if unat fixed \<le> unat max_len then unat fixed + sizes_sum ms' = unat max_len else sizes_sum ms' = 0)) \<and>
     cut_down ms ms'"
proof -
  have "prioritize max_len fixed ms = ms" if "unat fixed + sizes_sum ms \<le> unat max_len"
    using that total_size_sum [OF assms]
    by (simp add: prioritize.simps [of max_len fixed ms] word_less_nat_alt split: option.splits)
  then show ?thesis using prioritize_total [OF assms] prioritize_cuts by (simp add: Let_def)
qed

definition sized :: "64 word \<Rightarrow> mapping" where
  "sized n = \<lparr>start_address = 0, end_address = n, map_offset = 0, write_size = n, map_flags = 6\<rparr>"

lemma prioritize_exact_witness:
  "sizes_sum (prioritize 150 100 [sized 10, sized 500, sized 60]) = 50 \<and>
   cut_down [sized 10, sized 500, sized 60] (prioritize 150 100 [sized 10, sized 500, sized 60])"
proof -
  have "unat (100 :: 64 word) + sizes_sum [sized 10, sized 500, sized 60] = 670"
    by (simp add: sizes_sum_def sized_def)
  then show ?thesis
    using prioritize_exact [of 100 "[sized 10, sized 500, sized 60]" 150] by (simp add: Let_def)
qed

end
