(* ===== verification/CoreParams.thy ===== *)
theory CoreParams
  imports CList CoreIo
begin

text \<open>
  The interface of the core dumper (\<open>coredumper/coredumper.c\<close>, \<open>coredumper/coredumper.h\<close>):
  the descriptions of compressors, the parameters of a core dump with their setters, and the
  functions that start one. \<open>ListAllProcessThreads\<close> with its callback is a parameter.
\<close>

unbundle bit_operations_syntax

section \<open>Compressors\<close>

text \<open>An entry with no name ends a list, an empty name asks for no compression.\<close>

record CoredumperCompressor =
  compressor :: "string option"
  args :: "string list option"
  suffix :: "string option"

definition no_args_bzip2 :: "string list" where "no_args_bzip2 = [''bzip2'']"

definition no_args_gzip :: "string list" where "no_args_gzip = [''gzip'']"

definition no_args_compress :: "string list" where "no_args_compress = [''compress'']"

definition cc :: "string \<Rightarrow> string list \<Rightarrow> string \<Rightarrow> CoredumperCompressor" where
  "cc name arguments suf = \<lparr>compressor = Some name, args = Some arguments, suffix = Some suf\<rparr>"

definition no_compression :: CoredumperCompressor where
  "no_compression = \<lparr>compressor = Some [], args = None, suffix = Some []\<rparr>"

definition end_of_list :: CoredumperCompressor where
  "end_of_list = \<lparr>compressor = None, args = None, suffix = None\<rparr>"

definition COREDUMPER_COMPRESSED :: "CoredumperCompressor list" where
  "COREDUMPER_COMPRESSED =
     [cc ''/bin/bzip2'' no_args_bzip2 ''.bz2'', cc ''/usr/bin/bzip2'' no_args_bzip2 ''.bz2'',
      cc ''bzip2'' no_args_bzip2 ''.bz2'', cc ''/bin/gzip'' no_args_gzip ''.gz'',
      cc ''/usr/bin/gzip'' no_args_gzip ''.gz'', cc ''gzip'' no_args_gzip ''.gz'',
      cc ''/bin/compress'' no_args_compress ''.Z'', cc ''/usr/bin/compress'' no_args_compress ''.Z'',
      cc ''compress'' no_args_compress ''.Z'', no_compression, end_of_list]"

definition COREDUMPER_BZIP2_COMPRESSED :: "CoredumperCompressor list" where
  "COREDUMPER_BZIP2_COMPRESSED =
     [cc ''/bin/bzip2'' no_args_bzip2 ''.bz2'', cc ''/usr/bin/bzip2'' no_args_bzip2 ''.bz2'',
      cc ''bzip2'' no_args_bzip2 ''.bz2'', end_of_list]"

definition COREDUMPER_GZIP_COMPRESSED :: "CoredumperCompressor list" where
  "COREDUMPER_GZIP_COMPRESSED =
     [cc ''/bin/gzip'' no_args_gzip ''.gz'', cc ''/usr/bin/gzip'' no_args_gzip ''.gz'',
      cc ''gzip'' no_args_gzip ''.gz'', end_of_list]"

definition COREDUMPER_COMPRESS_COMPRESSED :: "CoredumperCompressor list" where
  "COREDUMPER_COMPRESS_COMPRESSED =
     [cc ''/bin/compress'' no_args_compress ''.Z'', cc ''/usr/bin/compress'' no_args_compress ''.Z'',
      cc ''compress'' no_args_compress ''.Z'', end_of_list]"

definition COREDUMPER_TRY_BZIP2_COMPRESSED :: "CoredumperCompressor list" where
  "COREDUMPER_TRY_BZIP2_COMPRESSED =
     [cc ''/bin/bzip2'' no_args_bzip2 ''.bz2'', cc ''/usr/bin/bzip2'' no_args_bzip2 ''.bz2'',
      cc ''bzip2'' no_args_bzip2 ''.bz2'', no_compression, end_of_list]"

definition COREDUMPER_TRY_GZIP_COMPRESSED :: "CoredumperCompressor list" where
  "COREDUMPER_TRY_GZIP_COMPRESSED =
     [cc ''/bin/gzip'' no_args_gzip ''.gz'', cc ''/usr/bin/gzip'' no_args_gzip ''.gz'',
      cc ''gzip'' no_args_gzip ''.gz'', no_compression, end_of_list]"

definition COREDUMPER_TRY_COMPRESS_COMPRESSED :: "CoredumperCompressor list" where
  "COREDUMPER_TRY_COMPRESS_COMPRESSED =
     [cc ''/bin/compress'' no_args_compress ''.Z'', cc ''/usr/bin/compress'' no_args_compress ''.Z'',
      cc ''compress'' no_args_compress ''.Z'', no_compression, end_of_list]"

definition COREDUMPER_UNCOMPRESSED :: "CoredumperCompressor list" where
  "COREDUMPER_UNCOMPRESSED = [no_compression, end_of_list]"

section \<open>Parameters\<close>

record CoredumperNote =
  note_name :: string
  note_type :: "32 word"
  description_size :: "32 word"
  description :: "byte list"

text \<open>
  \<open>compressors\<close> and \<open>selected_compressor\<close> are pointers, \<open>None\<close> is \<open>NULL\<close>; the second is an
  address. The fields stand in the order of the structure, which \<open>size\<close> is the size of.
\<close>

record CoreDumpParameters =
  param_size :: "64 word"
  flags :: "32 word"
  param_max_length :: "64 word"
  compressors :: "CoredumperCompressor list option"
  selected_compressor :: ptr
  note_list :: "CoredumperNote list"
  note_count :: "32 word"

abbreviation (input) "COREDUMPER_FLAG_LIMITED \<equiv> (1 :: 32 word)"
abbreviation (input) "COREDUMPER_FLAG_LIMITED_BY_PRIORITY \<equiv> (2 :: 32 word)"

text \<open>\<open>offsetof (struct CoreDumpParameters, f) + sizeof (p->f)\<close> on a 64-bit machine.\<close>

datatype parameter = P_flags | P_max_length | P_compressors | P_selected_compressor | P_notes | P_note_count

fun parameter_end :: "parameter \<Rightarrow> 64 word" where
  "parameter_end P_flags = 12"
| "parameter_end P_max_length = 24"
| "parameter_end P_compressors = 32"
| "parameter_end P_selected_compressor = 40"
| "parameter_end P_notes = 48"
| "parameter_end P_note_count = 52"

definition sizeof_CoreDumpParameters :: "64 word" where
  "sizeof_CoreDumpParameters = 56"

definition CoreDumpParametersHas :: "CoreDumpParameters \<Rightarrow> parameter \<Rightarrow> bool" where
  "CoreDumpParametersHas p f \<longleftrightarrow> param_size p \<ge> parameter_end f"

text \<open>The macro \<open>SetCoreDumpParameter\<close>; the assignment is the third argument.\<close>

definition SetCoreDumpParameter ::
  "CoreDumpParameters \<Rightarrow> parameter \<Rightarrow> (CoreDumpParameters \<Rightarrow> CoreDumpParameters) \<Rightarrow> CoreDumpParameters res" where
  "SetCoreDumpParameter p f assign =
     (if \<not> CoreDumpParametersHas p f then Inl AssertAbort else Inr (assign p))"

definition GetCoreDumpParameter ::
  "CoreDumpParameters \<Rightarrow> parameter \<Rightarrow> (CoreDumpParameters \<Rightarrow> 'a) \<Rightarrow> 'a \<Rightarrow> 'a" where
  "GetCoreDumpParameter p f field zero = (if CoreDumpParametersHas p f then field p else zero)"

definition ClearCoreDumpParametersInternal :: "64 word \<Rightarrow> CoreDumpParameters res" where
  "ClearCoreDumpParametersInternal sz =
     (let params = \<lparr>param_size = sz, flags = 0, param_max_length = 0, compressors = None,
                    selected_compressor = NULL, note_list = [], note_count = 0\<rparr>
      in SetCoreDumpParameter params P_max_length (\<lambda>p. p\<lparr>param_max_length := -1\<rparr>))"

definition ClearCoreDumpParameters :: "CoreDumpParameters res" where
  "ClearCoreDumpParameters = ClearCoreDumpParametersInternal sizeof_CoreDumpParameters"

text \<open>A setter gives the parameters and what it returns; \<open>errno\<close> is \<open>EINVAL\<close> after \<open>-1\<close>.\<close>

type_synonym setter_result = "(CoreDumpParameters \<times> int) res"

definition SetCoreDumpLimited :: "CoreDumpParameters \<Rightarrow> 64 word \<Rightarrow> setter_result" where
  "SetCoreDumpLimited params max_len =
     (if flags params AND COREDUMPER_FLAG_LIMITED_BY_PRIORITY \<noteq> 0 then Inr (params, -1)
      else
        bindr (SetCoreDumpParameter (params\<lparr>flags := flags params OR COREDUMPER_FLAG_LIMITED\<rparr>)
                 P_max_length (\<lambda>p. p\<lparr>param_max_length := max_len\<rparr>)) (\<lambda>params.
          Inr (params, 0)))"

definition SetCoreDumpCompressed ::
  "CoreDumpParameters \<Rightarrow> CoredumperCompressor list option \<Rightarrow> ptr \<Rightarrow> setter_result" where
  "SetCoreDumpCompressed params comps selected =
     (if flags params AND COREDUMPER_FLAG_LIMITED_BY_PRIORITY \<noteq> 0 then Inr (params, -1)
      else
        bindr (SetCoreDumpParameter params P_compressors (\<lambda>p. p\<lparr>compressors := comps\<rparr>)) (\<lambda>params.
        bindr (SetCoreDumpParameter params P_selected_compressor (\<lambda>p. p\<lparr>selected_compressor := selected\<rparr>)) (\<lambda>params.
          Inr (params, 0))))"

definition SetCoreDumpLimitedByPriority :: "CoreDumpParameters \<Rightarrow> 64 word \<Rightarrow> setter_result" where
  "SetCoreDumpLimitedByPriority params max_len =
     (if (flags params AND COREDUMPER_FLAG_LIMITED \<noteq> 0 \<and> flags params AND COREDUMPER_FLAG_LIMITED_BY_PRIORITY = 0)
         \<or> compressors params \<noteq> None
      then Inr (params, -1)
      else
        bindr (SetCoreDumpParameter params P_flags
                 (\<lambda>p. p\<lparr>flags := flags p OR COREDUMPER_FLAG_LIMITED OR COREDUMPER_FLAG_LIMITED_BY_PRIORITY\<rparr>)) (\<lambda>params.
        bindr (SetCoreDumpParameter params P_max_length (\<lambda>p. p\<lparr>param_max_length := max_len\<rparr>)) (\<lambda>params.
          Inr (params, 0))))"

definition SetCoreDumpNotes :: "CoreDumpParameters \<Rightarrow> CoredumperNote list \<Rightarrow> 32 word \<Rightarrow> setter_result" where
  "SetCoreDumpNotes params ns count =
     bindr (SetCoreDumpParameter params P_notes (\<lambda>p. p\<lparr>note_list := ns\<rparr>)) (\<lambda>params.
     bindr (SetCoreDumpParameter params P_note_count (\<lambda>p. p\<lparr>note_count := count\<rparr>)) (\<lambda>params.
       Inr (params, 0)))"

section \<open>Starting a core dump\<close>

text \<open>
  \<open>ListAllProcessThreads\<close> with \<open>InternalGetCoreDump\<close> and its arguments: the parameters and
  the name of the file, \<open>NULL\<close> for a pipe; the answer is the result and \<open>errno\<close>, and what
  becomes of the world \<open>'w\<close> outside.
\<close>

type_synonym 'w dump_fn = "CoreDumpParameters \<Rightarrow> string option \<Rightarrow> 'w \<Rightarrow> ((int \<times> int) \<times> 'w) res"

definition GetCoreDumpFunction :: "'w dump_fn \<Rightarrow> CoreDumpParameters \<Rightarrow> 'w \<Rightarrow> ((int \<times> int) \<times> 'w) res" where
  "GetCoreDumpFunction dump params w = dump params None w"

definition WriteCoreDumpFunction ::
  "'w dump_fn \<Rightarrow> CoreDumpParameters \<Rightarrow> string \<Rightarrow> 'w \<Rightarrow> ((int \<times> int) \<times> 'w) res" where
  "WriteCoreDumpFunction dump params file_name w = dump params (Some file_name) w"

definition GetCoreDump :: "'w dump_fn \<Rightarrow> 'w \<Rightarrow> ((int \<times> int) \<times> 'w) res" where
  "GetCoreDump dump w = bindr ClearCoreDumpParameters (\<lambda>params. GetCoreDumpFunction dump params w)"

definition GetCoreDumpWith :: "'w dump_fn \<Rightarrow> CoreDumpParameters \<Rightarrow> 'w \<Rightarrow> ((int \<times> int) \<times> 'w) res" where
  "GetCoreDumpWith dump params w =
     (if flags params AND COREDUMPER_FLAG_LIMITED \<noteq> 0 \<or> flags params AND COREDUMPER_FLAG_LIMITED_BY_PRIORITY \<noteq> 0
      then Inr ((-1, EINVAL), w)
      else GetCoreDumpFunction dump params w)"

definition GetCompressedCoreDump ::
  "'w dump_fn \<Rightarrow> CoredumperCompressor list option \<Rightarrow> ptr \<Rightarrow> 'w \<Rightarrow> ((int \<times> int) \<times> 'w) res" where
  "GetCompressedCoreDump dump comps selected w =
     bindr ClearCoreDumpParameters (\<lambda>params.
     bindr (SetCoreDumpCompressed params comps selected) (\<lambda>(params, _).
       GetCoreDumpFunction dump params w))"

definition WriteCoreDump :: "'w dump_fn \<Rightarrow> string \<Rightarrow> 'w \<Rightarrow> ((int \<times> int) \<times> 'w) res" where
  "WriteCoreDump dump file_name w =
     bindr ClearCoreDumpParameters (\<lambda>params. WriteCoreDumpFunction dump params file_name w)"

definition WriteCoreDumpWith ::
  "'w dump_fn \<Rightarrow> CoreDumpParameters \<Rightarrow> string \<Rightarrow> 'w \<Rightarrow> ((int \<times> int) \<times> 'w) res" where
  "WriteCoreDumpWith dump params file_name w = WriteCoreDumpFunction dump params file_name w"

definition WriteCoreDumpLimited :: "'w dump_fn \<Rightarrow> string \<Rightarrow> 64 word \<Rightarrow> 'w \<Rightarrow> ((int \<times> int) \<times> 'w) res" where
  "WriteCoreDumpLimited dump file_name max_len w =
     bindr ClearCoreDumpParameters (\<lambda>params.
     bindr (SetCoreDumpLimited params max_len) (\<lambda>(params, _).
       WriteCoreDumpFunction dump params file_name w))"

definition WriteCoreDumpLimitedByPriority ::
  "'w dump_fn \<Rightarrow> string \<Rightarrow> 64 word \<Rightarrow> 'w \<Rightarrow> ((int \<times> int) \<times> 'w) res" where
  "WriteCoreDumpLimitedByPriority dump file_name max_len w =
     bindr ClearCoreDumpParameters (\<lambda>params.
     bindr (SetCoreDumpLimitedByPriority params max_len) (\<lambda>(params, _).
       WriteCoreDumpFunction dump params file_name w))"

definition WriteCompressedCoreDump ::
  "'w dump_fn \<Rightarrow> string \<Rightarrow> 64 word \<Rightarrow> CoredumperCompressor list option \<Rightarrow> ptr \<Rightarrow> 'w \<Rightarrow> ((int \<times> int) \<times> 'w) res" where
  "WriteCompressedCoreDump dump file_name max_len comps selected w =
     bindr ClearCoreDumpParameters (\<lambda>params.
     bindr (SetCoreDumpCompressed params comps selected) (\<lambda>(params, _).
     bindr (SetCoreDumpLimited params max_len) (\<lambda>(params, _).
       WriteCoreDumpFunction dump params file_name w)))"

section \<open>The setters keep the parameters consistent\<close>

text \<open>Parameters that a caller can build with the functions of the interface.\<close>

inductive params_reach :: "CoreDumpParameters \<Rightarrow> bool" where
  reach_clear: "ClearCoreDumpParameters = Inr p \<Longrightarrow> params_reach p"
| reach_limited: "params_reach p \<Longrightarrow> SetCoreDumpLimited p n = Inr (p', r) \<Longrightarrow> params_reach p'"
| reach_compressed: "params_reach p \<Longrightarrow> SetCoreDumpCompressed p cs sel = Inr (p', r) \<Longrightarrow> params_reach p'"
| reach_priority: "params_reach p \<Longrightarrow> SetCoreDumpLimitedByPriority p n = Inr (p', r) \<Longrightarrow> params_reach p'"
| reach_notes: "params_reach p \<Longrightarrow> SetCoreDumpNotes p ns k = Inr (p', r) \<Longrightarrow> params_reach p'"

definition has_limit :: "CoreDumpParameters \<Rightarrow> bool" where
  "has_limit p \<longleftrightarrow> flags p AND COREDUMPER_FLAG_LIMITED \<noteq> 0"

definition has_priority :: "CoreDumpParameters \<Rightarrow> bool" where
  "has_priority p \<longleftrightarrow> flags p AND COREDUMPER_FLAG_LIMITED_BY_PRIORITY \<noteq> 0"

definition params_ok :: "CoreDumpParameters \<Rightarrow> bool" where
  "params_ok p \<longleftrightarrow> param_size p = sizeof_CoreDumpParameters \<and>
     (has_priority p \<longrightarrow> has_limit p \<and> compressors p = None) \<and>
     (\<not> has_limit p \<longrightarrow> param_max_length p = -1)"

lemma flag_laws [simp]:
  "(f OR 1) AND 1 = (1 :: 32 word)" "(f OR 1) AND 2 = f AND (2 :: 32 word)"
  "(f OR 1 OR 2) AND 2 = (2 :: 32 word)" "(f OR 1 OR 2) AND 1 = (1 :: 32 word)"
  "(f OR 3) AND 2 = (2 :: 32 word)" "(f OR 3) AND 1 = (1 :: 32 word)"
  by (simp_all add: bit.conj_disj_distrib2 or_eq_0_iff)

lemmas setter_defs = SetCoreDumpLimited_def SetCoreDumpCompressed_def SetCoreDumpLimitedByPriority_def
  SetCoreDumpNotes_def SetCoreDumpParameter_def CoreDumpParametersHas_def sizeof_CoreDumpParameters_def

lemma params_reach_ok: "params_reach p \<Longrightarrow> params_ok p"
  by (induction rule: params_reach.induct)
     (auto simp: params_ok_def has_limit_def has_priority_def setter_defs ClearCoreDumpParameters_def
        ClearCoreDumpParametersInternal_def Let_def res_simps split: if_splits)

text \<open>C33: However the parameters are built, a limit by priority is never combined with a
  compressor, is always a limit as well, and parameters without a limit have the largest
  maximum; no setter ever aborts on them.\<close>

theorem params_consistent:
  assumes "params_reach p"
  shows "(has_priority p \<longrightarrow> has_limit p \<and> compressors p = None) \<and> (\<not> has_limit p \<longrightarrow> param_max_length p = -1) \<and>
     (\<exists>q r. SetCoreDumpLimited p n = Inr (q, r)) \<and> (\<exists>q r. SetCoreDumpCompressed p cs sel = Inr (q, r)) \<and>
     (\<exists>q r. SetCoreDumpLimitedByPriority p n = Inr (q, r)) \<and> (\<exists>q r. SetCoreDumpNotes p ns k = Inr (q, r))"
  using params_reach_ok [OF assms] by (simp add: params_ok_def setter_defs)

text \<open>Parameters that were limited, then compressed: both are kept.\<close>

definition sample_params :: CoreDumpParameters where
  "sample_params =
     \<lparr>param_size = sizeof_CoreDumpParameters, flags = 1, param_max_length = 4096,
      compressors = Some COREDUMPER_TRY_GZIP_COMPRESSED, selected_compressor = 7,
      note_list = [], note_count = 0\<rparr>"

lemma sample_params_reach: "params_reach sample_params"
proof -
  let ?p = "\<lparr>param_size = sizeof_CoreDumpParameters, flags = 0, param_max_length = -1, compressors = None,
     selected_compressor = NULL, note_list = [], note_count = 0\<rparr>"
  have "params_reach ?p"
    by (rule reach_clear) (simp add: ClearCoreDumpParameters_def ClearCoreDumpParametersInternal_def setter_defs)
  moreover have "SetCoreDumpLimited ?p 4096 = Inr (?p\<lparr>flags := 1, param_max_length := 4096\<rparr>, 0)"
    by (simp add: setter_defs)
  ultimately have "params_reach (?p\<lparr>flags := 1, param_max_length := 4096\<rparr>)" by (rule reach_limited)
  moreover have "SetCoreDumpCompressed (?p\<lparr>flags := 1, param_max_length := 4096\<rparr>)
      (Some COREDUMPER_TRY_GZIP_COMPRESSED) 7 = Inr (sample_params, 0)"
    by (simp add: setter_defs sample_params_def)
  ultimately show ?thesis by (rule reach_compressed)
qed

lemma params_consistent_witness:
  "\<not> has_priority sample_params \<and> SetCoreDumpLimitedByPriority sample_params 5 = Inr (sample_params, -1)"
  using params_consistent [OF sample_params_reach]
  by (auto simp: sample_params_def has_priority_def setter_defs)

text \<open>A core dump into a pipe never has a limit it would silently ignore: it is refused with
  \<open>EINVAL\<close> exactly if a limit was set, and the parameters that do reach the dumper have the
  largest maximum length.\<close>

theorem pipe_dump_unlimited:
  assumes "params_reach p"
  shows "GetCoreDumpWith dump p w = (if has_limit p then Inr ((-1, EINVAL), w) else dump p None w) \<and>
     (\<not> has_limit p \<longrightarrow> param_max_length p = -1)"
  using params_reach_ok [OF assms]
  by (auto simp: GetCoreDumpWith_def GetCoreDumpFunction_def params_ok_def has_limit_def has_priority_def)

lemma pipe_dump_unlimited_witness: "GetCoreDumpWith (\<lambda>p f w. Inr ((3, 0), True # w)) sample_params [] = Inr ((-1, EINVAL), [])"
  using pipe_dump_unlimited [OF sample_params_reach, of "\<lambda>p f w. Inr ((3, 0), True # w)" "[]"]
  by (simp add: has_limit_def sample_params_def)

end
