(* ===== verification/CoreElf.thy ===== *)
theory CoreElf
  imports CoreMaps CoreParams
begin

text \<open>
  The core file itself (\<open>CreateElfCore\<close> and its helpers in \<open>coredumper/elfcore.c\<close>) on a
  64-bit x86 machine: the structures as bytes, the vdso, the notes, the program headers and the
  memory. A structure is encoded field by field as the ABI lays it out, padding included. The
  vectors of registers and \<open>struct core_user\<close> are the bytes the kernel gave.
\<close>

unbundle bit_operations_syntax

section \<open>Structures\<close>

text \<open>The bytes of a number, the lowest first.\<close>

definition le :: "nat \<Rightarrow> 'a::len word \<Rightarrow> byte list" where
  "le n w = map (\<lambda>i. ucast (drop_bit (8 * i) w)) [0..<n]"

lemma length_le [simp]: "length (le n w) = n"
  by (simp add: le_def)

text \<open>\<open>sex\<close> looks at the first byte of an \<open>int\<close> that is 1.\<close>

definition sex :: bool where
  "sex \<longleftrightarrow> hd (le 4 (1 :: 32 word)) = 0"

record Ehdr =
  e_ident :: "byte list"
  e_type :: "16 word"
  e_machine :: "16 word"
  e_version :: "32 word"
  e_entry :: "64 word"
  e_phoff :: "64 word"
  e_shoff :: "64 word"
  e_flags :: "32 word"
  e_ehsize :: "16 word"
  e_phentsize :: "16 word"
  e_phnum :: "16 word"
  e_shentsize :: "16 word"
  e_shnum :: "16 word"
  e_shstrndx :: "16 word"

definition ehdr_bytes :: "Ehdr \<Rightarrow> byte list" where
  "ehdr_bytes h = e_ident h @ le 2 (e_type h) @ le 2 (e_machine h) @ le 4 (e_version h) @ le 8 (e_entry h) @
     le 8 (e_phoff h) @ le 8 (e_shoff h) @ le 4 (e_flags h) @ le 2 (e_ehsize h) @ le 2 (e_phentsize h) @
     le 2 (e_phnum h) @ le 2 (e_shentsize h) @ le 2 (e_shnum h) @ le 2 (e_shstrndx h)"

record Phdr =
  p_type :: "32 word"
  p_flags :: "32 word"
  p_offset :: "64 word"
  p_vaddr :: "64 word"
  p_paddr :: "64 word"
  p_filesz :: "64 word"
  p_memsz :: "64 word"
  p_align :: "64 word"

definition phdr_bytes :: "Phdr \<Rightarrow> byte list" where
  "phdr_bytes p = le 4 (p_type p) @ le 4 (p_flags p) @ le 8 (p_offset p) @ le 8 (p_vaddr p) @ le 8 (p_paddr p) @
     le 8 (p_filesz p) @ le 8 (p_memsz p) @ le 8 (p_align p)"

record Nhdr =
  n_namesz :: "32 word"
  n_descsz :: "32 word"
  n_type :: "32 word"

definition nhdr_bytes :: "Nhdr \<Rightarrow> byte list" where
  "nhdr_bytes n = le 4 (n_namesz n) @ le 4 (n_descsz n) @ le 4 (n_type n)"

abbreviation (input) "sizeof_Ehdr \<equiv> (64 :: nat)"
abbreviation (input) "sizeof_Phdr \<equiv> (56 :: nat)"
abbreviation (input) "sizeof_Shdr \<equiv> (64 :: nat)"
abbreviation (input) "sizeof_Nhdr \<equiv> (12 :: nat)"
abbreviation (input) "sizeof_prpsinfo \<equiv> (136 :: nat)"
abbreviation (input) "sizeof_prstatus \<equiv> (336 :: nat)"
abbreviation (input) "sizeof_regs \<equiv> (216 :: nat)"
abbreviation (input) "sizeof_fpregs \<equiv> (512 :: nat)"
abbreviation (input) "sizeof_core_user \<equiv> (928 :: nat)"
abbreviation (input) "sizeof_auxv_t \<equiv> (16 :: nat)"

abbreviation (input) "PT_LOAD \<equiv> (1 :: 32 word)"
abbreviation (input) "PT_NOTE \<equiv> (4 :: 32 word)"
abbreviation (input) "NT_PRSTATUS \<equiv> (1 :: 32 word)"
abbreviation (input) "NT_FPREGSET \<equiv> (2 :: 32 word)"
abbreviation (input) "NT_PRPSINFO \<equiv> (3 :: 32 word)"
abbreviation (input) "NT_PRXREG \<equiv> (4 :: 32 word)"
abbreviation (input) "NT_AUXV \<equiv> (6 :: 32 word)"

record elf_timeval =
  tv_sec :: "64 word"
  tv_usec :: "64 word"

definition timeval_bytes :: "elf_timeval \<Rightarrow> byte list" where
  "timeval_bytes t = le 8 (tv_sec t) @ le 8 (tv_usec t)"

record elf_siginfo =
  si_signo :: "32 word"
  si_code :: "32 word"
  si_errno :: "32 word"

definition siginfo_bytes :: "elf_siginfo \<Rightarrow> byte list" where
  "siginfo_bytes s = le 4 (si_signo s) @ le 4 (si_code s) @ le 4 (si_errno s)"

record prstatus =
  pr_info :: elf_siginfo
  pr_cursig :: "16 word"
  pr_sigpend :: "64 word"
  pr_sighold :: "64 word"
  pr_pid :: "32 word"
  pr_ppid :: "32 word"
  pr_pgrp :: "32 word"
  pr_sid :: "32 word"
  pr_utime :: elf_timeval
  pr_stime :: elf_timeval
  pr_cutime :: elf_timeval
  pr_cstime :: elf_timeval
  pr_reg :: "byte list"
  pr_fpvalid :: "32 word"

definition prstatus_bytes :: "prstatus \<Rightarrow> byte list" where
  "prstatus_bytes p = siginfo_bytes (pr_info p) @ le 2 (pr_cursig p) @ replicate 2 0 @ le 8 (pr_sigpend p) @
     le 8 (pr_sighold p) @ le 4 (pr_pid p) @ le 4 (pr_ppid p) @ le 4 (pr_pgrp p) @ le 4 (pr_sid p) @
     timeval_bytes (pr_utime p) @ timeval_bytes (pr_stime p) @ timeval_bytes (pr_cutime p) @
     timeval_bytes (pr_cstime p) @ pr_reg p @ le 4 (pr_fpvalid p) @ replicate 4 0"

record prpsinfo =
  pr_state :: byte
  pr_sname :: byte
  pr_zomb :: byte
  pr_nice :: byte
  pr_flag :: "64 word"
  ps_uid :: "32 word"
  ps_gid :: "32 word"
  ps_pid :: "32 word"
  ps_ppid :: "32 word"
  ps_pgrp :: "32 word"
  ps_sid :: "32 word"
  pr_fname :: "byte list"
  pr_psargs :: "byte list"

definition prpsinfo_bytes :: "prpsinfo \<Rightarrow> byte list" where
  "prpsinfo_bytes p = [pr_state p, pr_sname p, pr_zomb p, pr_nice p] @ replicate 4 0 @ le 8 (pr_flag p) @
     le 4 (ps_uid p) @ le 4 (ps_gid p) @ le 4 (ps_pid p) @ le 4 (ps_ppid p) @ le 4 (ps_pgrp p) @ le 4 (ps_sid p) @
     pr_fname p @ pr_psargs p"

lemma structure_sizes [simp]:
  "length (phdr_bytes p) = 56" "length (nhdr_bytes n) = 12"
  "length (e_ident h) = 16 \<Longrightarrow> length (ehdr_bytes h) = 64"
  "length (pr_reg ps) = 216 \<Longrightarrow> length (prstatus_bytes ps) = 336"
  "length (pr_fname pi) = 16 \<Longrightarrow> length (pr_psargs pi) = 80 \<Longrightarrow> length (prpsinfo_bytes pi) = 136"
  by (simp_all add: phdr_bytes_def nhdr_bytes_def ehdr_bytes_def prstatus_bytes_def prpsinfo_bytes_def
      siginfo_bytes_def timeval_bytes_def)

section \<open>The notes of the threads\<close>

definition core_name :: "byte list" where
  "core_name = map of_char ''CORE'' @ [0, 0, 0, 0]"

record thread =
  t_pid :: "32 word"
  t_regs :: "byte list"
  t_fpregs :: "byte list"

definition WriteThreadRegs :: "'s core_writer_fn \<Rightarrow> prstatus \<Rightarrow> thread \<Rightarrow> 's \<Rightarrow> bool \<times> 's" where
  "WriteThreadRegs writer ps t s =
     (let nhdr = \<lparr>n_namesz = 5, n_descsz = of_nat sizeof_prstatus, n_type = NT_PRSTATUS\<rparr>;
          ps = ps\<lparr>pr_pid := t_pid t, pr_reg := t_regs t\<rparr>;
          (ok, s) = write_seq writer [nhdr_bytes nhdr, core_name, prstatus_bytes ps] s
      in if \<not> ok then (False, s)
         else (let nhdr = nhdr\<lparr>n_descsz := of_nat sizeof_fpregs, n_type := NT_FPREGSET\<rparr>
               in write_seq writer [nhdr_bytes nhdr, core_name, t_fpregs t] s))"

section \<open>The auxiliary vector and the vdso\<close>

text \<open>The entries of \<open>/proc/self/auxv\<close>, \<open>None\<close> if it cannot be opened.\<close>

type_synonym auxv = "64 word \<times> 64 word"

abbreviation (input) "AT_SYSINFO_EHDR \<equiv> (33 :: 64 word)"
abbreviation (input) "AT_NULL \<equiv> (0 :: 64 word)"

fun count_entries :: "auxv list \<Rightarrow> nat \<Rightarrow> 64 word \<Rightarrow> nat \<times> 64 word" where
  "count_entries [] n vdso = (n, vdso)"
| "count_entries ((a_type, a_val) # es) n vdso =
     (let vdso = (if a_type = AT_SYSINFO_EHDR then a_val else vdso)
      in if a_type \<noteq> AT_NULL then count_entries es (n + 1) vdso else (n + 1, vdso))"

definition CountAUXV :: "auxv list option \<Rightarrow> nat \<times> 64 word" where
  "CountAUXV fd = (case fd of None \<Rightarrow> (0, 0) | Some es \<Rightarrow> count_entries es 0 0)"

definition auxv_bytes :: "auxv \<Rightarrow> byte list" where
  "auxv_bytes = (\<lambda>(a_type, a_val). le 8 a_type @ le 8 a_val)"

text \<open>Memory, and a number or a program header read from it.\<close>

type_synonym memory = "64 word \<Rightarrow> byte"

definition load :: "memory \<Rightarrow> 64 word \<Rightarrow> nat \<Rightarrow> 'a::len word" where
  "load mem a n = foldr (\<lambda>i w. push_bit 8 w OR ucast (mem (a + of_nat i))) [0..<n] 0"

definition bytes_at :: "memory \<Rightarrow> 64 word \<Rightarrow> nat \<Rightarrow> byte list" where
  "bytes_at mem a n = map (\<lambda>i. mem (a + of_nat i)) [0..<n]"

lemma length_bytes_at [simp]: "length (bytes_at mem a n) = n"
  by (simp add: bytes_at_def)

definition load_phdr :: "memory \<Rightarrow> 64 word \<Rightarrow> Phdr" where
  "load_phdr mem a =
     \<lparr>p_type = load mem a 4, p_flags = load mem (a + 4) 4, p_offset = load mem (a + 8) 8,
      p_vaddr = load mem (a + 16) 8, p_paddr = load mem (a + 24) 8, p_filesz = load mem (a + 32) 8,
      p_memsz = load mem (a + 40) 8, p_align = load mem (a + 48) 8\<rparr>"

definition vdso_phoff :: "memory \<Rightarrow> 64 word \<Rightarrow> 64 word" where
  "vdso_phoff mem vdso = load mem (vdso + 32) 8"

definition vdso_phnum :: "memory \<Rightarrow> 64 word \<Rightarrow> nat" where
  "vdso_phnum mem vdso = unat (load mem (vdso + 56) 2 :: 16 word)"

definition vdso_phdr :: "memory \<Rightarrow> 64 word \<Rightarrow> nat \<Rightarrow> Phdr" where
  "vdso_phdr mem vdso i = load_phdr mem (vdso + vdso_phoff mem vdso + of_nat (sizeof_Phdr * i))"

text \<open>The address of the header, or \<open>NULL\<close>.\<close>

definition SanitizeVDSO :: "memory \<Rightarrow> 64 word \<Rightarrow> 64 word \<Rightarrow> 64 word \<Rightarrow> 64 word" where
  "SanitizeVDSO mem ehdr start end' =
     (let phdrs = ehdr + vdso_phoff mem ehdr; n = vdso_phnum mem ehdr; phdr = vdso_phdr mem ehdr
      in if ehdr = 0 \<or> ehdr AND 7 \<noteq> 0 then 0
         else if end' \<le> ehdr + of_nat sizeof_Ehdr then 0
         else if vdso_phoff mem ehdr AND 7 \<noteq> 0 then 0
         else if phdrs \<le> start \<or> end' \<le> phdrs + of_nat (sizeof_Phdr * n) then 0
         else if p_type (phdr 0) \<noteq> PT_LOAD \<or> p_vaddr (phdr 0) \<noteq> start \<or> p_vaddr (phdr 0) + p_memsz (phdr 0) \<ge> end' then 0
         else if list_ex (\<lambda>i. p_type (phdr i) = PT_LOAD \<or> p_vaddr (phdr i) AND 7 \<noteq> 0 \<or>
                   p_vaddr (phdr i) \<le> start \<or> end' \<le> p_vaddr (phdr i) + p_filesz (phdr i)) [1..<n] then 0
         else ehdr)"

definition check_vdso :: "memory \<Rightarrow> mapping list \<Rightarrow> 64 word \<Rightarrow> 64 word" where
  "check_vdso mem ms vdso =
     (if vdso = 0 then 0
      else case List.find (\<lambda>m. map_flags m AND PF_R \<noteq> 0 \<and> start_address m \<le> vdso \<and> vdso < end_address m) ms of
             None \<Rightarrow> 0
           | Some m \<Rightarrow> SanitizeVDSO mem vdso (start_address m) (end_address m))"

text \<open>The headers of the vdso that are dumped besides the mappings.\<close>

definition vdso_extra :: "memory \<Rightarrow> 64 word \<Rightarrow> Phdr list" where
  "vdso_extra mem vdso =
     (if vdso = 0 then []
      else filter (\<lambda>p. p_type p \<noteq> PT_LOAD) (map (vdso_phdr mem vdso) [0..<vdso_phnum mem vdso]))"

end
