(* ===== verification/CoreFile.thy ===== *)
theory CoreFile
  imports CoreElf
begin

text \<open>
  \<open>CreateElfCore\<close> in \<open>coredumper/elfcore.c\<close>: what it asks the process, the headers, the notes and
  the memory, written in the order of the file. A step returns whether to go on; \<open>False\<close> is
  \<open>goto done\<close>. What the process looks like is a parameter: its memory, the two readings of
  \<open>/proc/self/maps\<close> and the two of \<open>/proc/self/auxv\<close>.
\<close>

unbundle bit_operations_syntax

section \<open>Arguments\<close>

text \<open>The arrays \<open>pids\<close>, \<open>regs\<close> and \<open>fpregs\<close> are one list of threads; \<open>fpxregs\<close> is only used on i386.\<close>

record core_args =
  arg_prpsinfo :: prpsinfo
  arg_user :: "byte list option"
  arg_prstatus :: prstatus
  arg_threads :: "thread list"
  arg_pagesize :: "64 word"
  arg_prioritize :: "64 word"
  arg_main_pid :: "32 word"
  arg_notes :: "CoredumperNote list"

record core_env =
  env_memory :: memory
  env_pages :: pages
  env_pipe :: bool
  env_maps :: "maps_io option"
  env_maps_again :: "maps_io option"
  env_auxv :: "auxv list option"
  env_auxv_again :: "auxv list option"

section \<open>Gathering\<close>

text \<open>
  The mappings, the address of the vdso (\<open>0\<close> for none) and the number of entries of the
  auxiliary vector, \<open>None\<close> when something cannot be read.
\<close>

definition gather :: "core_env \<Rightarrow> 64 word \<Rightarrow> (mapping list \<times> 64 word \<times> nat) option res" where
  "gather env pagesize =
     (if \<not> env_pipe env then Inr None
      else case env_maps env of
             None \<Rightarrow> Inr None
           | Some io \<Rightarrow>
               (case count_lines 0 io of
                  (num_mappings, failed) \<Rightarrow>
                    if failed then Inr None
                    else (case CountAUXV (env_auxv env) of
                            (num_auxv, vdso) \<Rightarrow>
                              (case env_maps_again env of
                                 None \<Rightarrow> Inr None
                               | Some io \<Rightarrow>
                                   bindr (read_mappings (env_pages env) pagesize num_mappings io) (\<lambda>mappings.
                                     Inr (map_option (\<lambda>ms. (ms, check_vdso (env_memory env) ms vdso, num_auxv))
                                       mappings))))))"

section \<open>Headers\<close>

text \<open>\<open>e_phnum\<close> has 16 bits.\<close>

definition core_ehdr :: "nat \<Rightarrow> nat \<Rightarrow> Ehdr" where
  "core_ehdr num_mappings num_extra_phdrs =
     \<lparr>e_ident = [127, of_char CHR ''E'', of_char CHR ''L'', of_char CHR ''F'', 2, if sex then 2 else 1, 1] @ replicate 9 0,
      e_type = 4, e_machine = 62, e_version = 1, e_entry = 0, e_phoff = of_nat sizeof_Ehdr, e_shoff = 0, e_flags = 0,
      e_ehsize = of_nat sizeof_Ehdr, e_phentsize = of_nat sizeof_Phdr,
      e_phnum = of_nat (num_mappings + num_extra_phdrs + 1),
      e_shentsize = of_nat sizeof_Shdr, e_shnum = 0, e_shstrndx = 0\<rparr>"

text \<open>Names and descriptions are aligned to four bytes.\<close>

definition padding :: "nat \<Rightarrow> nat" where
  "padding n = (if n mod 4 \<noteq> 0 then 4 - n mod 4 else 0)"

definition extra_note_size :: "CoredumperNote \<Rightarrow> 64 word" where
  "extra_note_size n =
     (let name_size = length (note_name n) + 1; desc_size = unat (description_size n)
      in of_nat (sizeof_Nhdr + name_size + desc_size + padding name_size + padding desc_size))"

definition notes_size :: "core_args \<Rightarrow> nat \<Rightarrow> 64 word" where
  "notes_size ca num_auxv =
     of_nat (sizeof_Nhdr + 8 + sizeof_prpsinfo +
       (if arg_user ca \<noteq> None then sizeof_Nhdr + 8 + sizeof_core_user else 0) +
       length (arg_threads ca) * (sizeof_Nhdr + 8 + sizeof_prstatus + sizeof_Nhdr + 8 + sizeof_fpregs)) +
     sum_list (map extra_note_size (arg_notes ca)) +
     (if num_auxv \<noteq> 0 then of_nat (8 + sizeof_Nhdr + num_auxv * sizeof_auxv_t) else 0)"

definition note_phdr :: "64 word \<Rightarrow> 64 word \<Rightarrow> Phdr" where
  "note_phdr offset filesz =
     \<lparr>p_type = PT_NOTE, p_flags = 0, p_offset = offset, p_vaddr = 0, p_paddr = 0, p_filesz = filesz,
      p_memsz = 0, p_align = 0\<rparr>"

definition note_align :: "64 word \<Rightarrow> 64 word \<Rightarrow> 64 word \<Rightarrow> 64 word res" where
  "note_align pagesize offset filesz =
     (if pagesize = 0 then Inl (KilledBy 8)
      else let align = pagesize - (offset + filesz) mod pagesize
           in Inr (if align = pagesize then 0 else align))"

definition vdso_size :: "Phdr list \<Rightarrow> 64 word" where
  "vdso_size extra = fold (\<lambda>p sz. sz + p_filesz p) extra 0"

definition limit_mappings :: "core_args \<Rightarrow> 64 word \<Rightarrow> 64 word \<Rightarrow> Phdr list \<Rightarrow> mapping list \<Rightarrow> mapping list" where
  "limit_mappings ca offset filesz extra ms =
     (if arg_prioritize ca > 0
      then prioritize (arg_prioritize ca) (offset + filesz + vdso_size extra) ms else ms)"

text \<open>The headers of the segments, each behind the one before it, with the last offset and size.\<close>

definition mapping_phdr :: "64 word \<Rightarrow> 64 word \<Rightarrow> mapping \<Rightarrow> Phdr" where
  "mapping_phdr pagesize offset m =
     \<lparr>p_type = PT_LOAD, p_flags = map_flags m AND PF_MASK, p_offset = offset, p_vaddr = start_address m,
      p_paddr = 0, p_filesz = write_size m, p_memsz = end_address m - start_address m, p_align = pagesize\<rparr>"

fun load_phdrs :: "64 word \<Rightarrow> 64 word \<Rightarrow> 64 word \<Rightarrow> mapping list \<Rightarrow> Phdr list \<times> 64 word \<times> 64 word" where
  "load_phdrs pagesize offset filesz [] = ([], offset, filesz)"
| "load_phdrs pagesize offset filesz (m # ms) =
     (let offset = offset + filesz;
          phdr = mapping_phdr pagesize offset m;
          (phdrs, offset, filesz) = load_phdrs pagesize offset (write_size m) ms
      in (phdr # phdrs, offset, filesz))"

fun vdso_phdrs :: "64 word \<Rightarrow> 64 word \<Rightarrow> Phdr list \<Rightarrow> Phdr list" where
  "vdso_phdrs offset filesz [] = []"
| "vdso_phdrs offset filesz (p # ps) =
     (let offset = offset + filesz in p\<lparr>p_offset := offset, p_paddr := 0\<rparr> # vdso_phdrs offset (p_filesz p) ps)"

section \<open>Notes\<close>

definition and_then :: "bool \<times> 's \<Rightarrow> ('s \<Rightarrow> bool \<times> 's) \<Rightarrow> bool \<times> 's" where
  "and_then r f = (case r of (ok, s) \<Rightarrow> if ok then f s else (False, s))"

fun each :: "('a \<Rightarrow> 's \<Rightarrow> bool \<times> 's) \<Rightarrow> 'a list \<Rightarrow> 's \<Rightarrow> bool \<times> 's" where
  "each f [] s = (True, s)"
| "each f (x # xs) s = and_then (f x s) (each f xs)"

definition write_process :: "'s core_writer_fn \<Rightarrow> core_args \<Rightarrow> 's \<Rightarrow> bool \<times> 's" where
  "write_process writer ca s =
     (let nhdr = \<lparr>n_namesz = 5, n_descsz = of_nat sizeof_prpsinfo, n_type = NT_PRPSINFO\<rparr>
      in and_then (write_seq writer [nhdr_bytes nhdr, core_name, prpsinfo_bytes (arg_prpsinfo ca)] s) (\<lambda>s.
         case arg_user ca of
           None \<Rightarrow> (True, s)
         | Some user \<Rightarrow>
             let nhdr = nhdr\<lparr>n_descsz := of_nat sizeof_core_user, n_type := NT_PRXREG\<rparr>
             in write_seq writer [nhdr_bytes nhdr, core_name, user] s))"

text \<open>The vector is read a second time; it may be missing or end too early.\<close>

definition write_auxv :: "'s core_writer_fn \<Rightarrow> auxv list option \<Rightarrow> nat \<Rightarrow> 's \<Rightarrow> bool \<times> 's" where
  "write_auxv writer fd num_auxv s =
     (if num_auxv = 0 then (True, s)
      else case fd of
             None \<Rightarrow> (False, s)
           | Some es \<Rightarrow>
               let nhdr = \<lparr>n_namesz = 5, n_descsz = of_nat (num_auxv * sizeof_auxv_t), n_type = NT_AUXV\<rparr>
               in and_then (write_seq writer [nhdr_bytes nhdr, core_name] s) (\<lambda>s.
                  and_then (write_seq writer (map auxv_bytes (take num_auxv es)) s) (\<lambda>s.
                    (num_auxv \<le> length es, s))))"

definition crashed_thread :: "core_args \<Rightarrow> thread option" where
  "crashed_thread ca = List.find (\<lambda>t. t_pid t = arg_main_pid ca) (rev (arg_threads ca))"

definition other_threads :: "core_args \<Rightarrow> thread list" where
  "other_threads ca = filter (\<lambda>t. t_pid t \<noteq> arg_main_pid ca) (rev (arg_threads ca))"

definition write_threads :: "'s core_writer_fn \<Rightarrow> core_args \<Rightarrow> 's \<Rightarrow> bool \<times> 's" where
  "write_threads writer ca s =
     and_then (case crashed_thread ca of
                 None \<Rightarrow> (True, s)
               | Some t \<Rightarrow> WriteThreadRegs writer (arg_prstatus ca) t s)
       (each (WriteThreadRegs writer (arg_prstatus ca)) (other_threads ca))"

text \<open>A string has a terminator; \<open>description\<close> is the memory at the pointer.\<close>

definition write_extra_note :: "'s core_writer_fn \<Rightarrow> CoredumperNote \<Rightarrow> 's \<Rightarrow> bool \<times> 's" where
  "write_extra_note writer n s =
     (let nhdr = \<lparr>n_namesz = of_nat (length (note_name n) + 1), n_descsz = description_size n, n_type = note_type n\<rparr>
      in write_seq writer
           [nhdr_bytes nhdr,
            take (unat (n_namesz nhdr)) (map of_char (note_name n) @ [0]), replicate (padding (unat (n_namesz nhdr))) 0,
            take (unat (n_descsz nhdr)) (description n), replicate (padding (unat (n_descsz nhdr))) 0] s)"

definition write_notes :: "'s core_writer_fn \<Rightarrow> core_env \<Rightarrow> core_args \<Rightarrow> nat \<Rightarrow> 's \<Rightarrow> bool \<times> 's" where
  "write_notes writer env ca num_auxv s =
     and_then (write_process writer ca s) (\<lambda>s.
     and_then (write_auxv writer (env_auxv_again env) num_auxv s) (\<lambda>s.
     and_then (write_threads writer ca s) (each (write_extra_note writer) (arg_notes ca))))"

section \<open>Memory\<close>

definition write_padding :: "'s core_writer_fn \<Rightarrow> 64 word \<Rightarrow> 's \<Rightarrow> bool \<times> 's" where
  "write_padding writer align s =
     (if align \<noteq> 0 then write_seq writer [replicate (unat align) 0] s else (True, s))"

definition write_mapping :: "'s core_writer_fn \<Rightarrow> memory \<Rightarrow> mapping \<Rightarrow> 's \<Rightarrow> bool \<times> 's" where
  "write_mapping writer mem m s =
     (if write_size m > 0 then write_seq writer [bytes_at mem (start_address m) (unat (write_size m))] s else (True, s))"

definition write_vdso :: "'s core_writer_fn \<Rightarrow> memory \<Rightarrow> Phdr \<Rightarrow> 's \<Rightarrow> bool \<times> 's" where
  "write_vdso writer mem p s = write_seq writer [bytes_at mem (p_vaddr p) (unat (p_filesz p))] s"

section \<open>The file\<close>

definition write_body ::
  "'s core_writer_fn \<Rightarrow> core_env \<Rightarrow> core_args \<Rightarrow> Phdr list \<Rightarrow> nat \<Rightarrow> 64 word \<Rightarrow> 64 word \<Rightarrow> 64 word \<Rightarrow>
     mapping list \<Rightarrow> 's \<Rightarrow> bool \<times> 's" where
  "write_body writer env ca extra num_auxv offset filesz align ms s =
     (let mem = env_memory env; offset = offset + align;
          ms = limit_mappings ca offset filesz extra ms;
          (loads, offset, filesz) = load_phdrs (arg_pagesize ca) offset filesz ms
      in and_then (write_seq writer (map phdr_bytes loads) s) (\<lambda>s.
         and_then (write_seq writer (map phdr_bytes (vdso_phdrs offset filesz extra)) s) (\<lambda>s.
         and_then (write_notes writer env ca num_auxv s) (\<lambda>s.
         and_then (write_padding writer align s) (\<lambda>s.
         and_then (each (write_mapping writer mem) ms s) (each (write_vdso writer mem) extra))))))"

definition write_core ::
  "'s core_writer_fn \<Rightarrow> core_env \<Rightarrow> core_args \<Rightarrow> mapping list \<Rightarrow> 64 word \<Rightarrow> nat \<Rightarrow> 's \<Rightarrow> (bool \<times> 's) res" where
  "write_core writer env ca ms vdso num_auxv s =
     (let extra = vdso_extra (env_memory env) vdso;
          offset = of_nat (sizeof_Ehdr + (length ms + length extra + 1) * sizeof_Phdr);
          filesz = notes_size ca num_auxv
      in case write_seq writer [ehdr_bytes (core_ehdr (length ms) (length extra)), phdr_bytes (note_phdr offset filesz)] s of
           (ok, s) \<Rightarrow>
             if \<not> ok then Inr (False, s)
             else bindr (note_align (arg_pagesize ca) offset filesz) (\<lambda>align.
               Inr (write_body writer env ca extra num_auxv offset filesz align ms s)))"

definition CreateElfCore ::
  "'s core_writer_fn \<Rightarrow> ('s \<Rightarrow> bool) \<Rightarrow> core_env \<Rightarrow> core_args \<Rightarrow> 's \<Rightarrow> (int \<times> 's) res" where
  "CreateElfCore writer is_done env ca s =
     bindr (gather env (arg_pagesize ca)) (\<lambda>found.
     bindr (case found of
              None \<Rightarrow> Inr (False, s)
            | Some (ms, vdso, num_auxv) \<Rightarrow> write_core writer env ca ms vdso num_auxv s) (\<lambda>(ok, s).
       Inr (if ok \<or> is_done s then 0 else -1, s)))"

end
