(* ===== verification/CoreLayout.thy ===== *)
theory CoreLayout
  imports CoreFile
begin

text \<open>
  What a debugger finds in the files \<open>CreateElfCore\<close> writes: the bytes of the file as one list
  of chunks, a reader of the program headers and of the notes, and the theorems that the reader
  gets back the memory, the registers and the notes. With a limit, the file is a prefix.
\<close>

unbundle bit_operations_syntax

section \<open>The chunks of a file\<close>

lemma and_then_simps [simp]: "and_then (True, s) f = f s" "and_then (False, s) f = (False, s)"
  by (simp_all add: and_then_def)

lemma and_then_assoc: "and_then (and_then r f) g = and_then r (\<lambda>s. and_then (f s) g)"
  by (auto simp: and_then_def split: prod.splits)

lemma seq_append: "write_seq writer (a @ b) s = and_then (write_seq writer a s) (write_seq writer b)"
  by (induction a arbitrary: s) (auto simp: and_then_def split: prod.splits sum.splits)

lemma seq_append_fun: "write_seq writer (a @ b) = (\<lambda>s. and_then (write_seq writer a s) (write_seq writer b))"
  by (rule ext) (rule seq_append)

lemma and_then_fails:
  "\<not> fst r \<Longrightarrow> \<not> fst (and_then r f)" "(\<And>s. \<not> fst (f s)) \<Longrightarrow> \<not> fst (and_then r f)"
  by (auto simp: and_then_def split: prod.splits)

lemma and_then_done: "and_then r (\<lambda>s. (True, s)) = r"
  by (auto simp: and_then_def split: prod.splits)

lemma each_seq:
  "(\<And>x s. x \<in> set xs \<Longrightarrow> f x s = write_seq writer (chunks x) s) \<Longrightarrow>
     each f xs = write_seq writer (concat (map chunks xs))"
  by (induction xs) (auto simp: seq_append intro: ext)

text \<open>A note as a reader sees it: the name with its terminator, the type and the description.\<close>

type_synonym core_note = "byte list \<times> 32 word \<times> byte list"

definition note_chunks :: "core_note \<Rightarrow> byte list list" where
  "note_chunks = (\<lambda>(name, type, desc).
     [nhdr_bytes \<lparr>n_namesz = of_nat (length name), n_descsz = of_nat (length desc), n_type = type\<rparr>,
      name @ replicate (padding (length name)) 0, desc @ replicate (padding (length desc)) 0])"

definition note_bytes :: "core_note \<Rightarrow> byte list" where
  "note_bytes n = concat (note_chunks n)"

definition CORE :: "byte list" where
  "CORE = map of_char ''CORE'' @ [0]"

definition thread_notes :: "prstatus \<Rightarrow> thread \<Rightarrow> core_note list" where
  "thread_notes ps t =
     [(CORE, NT_PRSTATUS, prstatus_bytes (ps\<lparr>pr_pid := t_pid t, pr_reg := t_regs t\<rparr>)),
      (CORE, NT_FPREGSET, t_fpregs t)]"

definition process_notes :: "core_args \<Rightarrow> core_note list" where
  "process_notes ca =
     (CORE, NT_PRPSINFO, prpsinfo_bytes (arg_prpsinfo ca)) #
     (case arg_user ca of None \<Rightarrow> [] | Some user \<Rightarrow> [(CORE, NT_PRXREG, user)])"

definition auxv_notes :: "auxv list \<Rightarrow> core_note list" where
  "auxv_notes es = (if es = [] then [] else [(CORE, NT_AUXV, concat (map auxv_bytes es))])"

definition extra_note :: "CoredumperNote \<Rightarrow> core_note" where
  "extra_note n = (map of_char (note_name n) @ [0], note_type n, take (unat (description_size n)) (description n))"

text \<open>The threads in the order of the file: the one that crashed first.\<close>

definition dump_order :: "core_args \<Rightarrow> thread list" where
  "dump_order ca = (case crashed_thread ca of None \<Rightarrow> [] | Some t \<Rightarrow> [t]) @ other_threads ca"

definition core_notes :: "core_args \<Rightarrow> auxv list \<Rightarrow> core_note list" where
  "core_notes ca es =
     process_notes ca @ auxv_notes es @ concat (map (thread_notes (arg_prstatus ca)) (dump_order ca)) @
     map extra_note (arg_notes ca)"

text \<open>The lengths the structures have in C; at most one thread has the identifier of the crash.\<close>

definition args_ok :: "core_args \<Rightarrow> bool" where
  "args_ok ca \<longleftrightarrow>
     length (pr_fname (arg_prpsinfo ca)) = 16 \<and> length (pr_psargs (arg_prpsinfo ca)) = 80 \<and>
     (\<forall>u. arg_user ca = Some u \<longrightarrow> length u = 928) \<and>
     list_all (\<lambda>t. length (t_regs t) = 216 \<and> length (t_fpregs t) = 512) (arg_threads ca) \<and>
     length (filter (\<lambda>t. t_pid t = arg_main_pid ca) (arg_threads ca)) \<le> 1 \<and>
     list_all (\<lambda>n. length (note_name n) + 1 < 2 ^ 32 \<and> unat (description_size n) \<le> length (description n)) (arg_notes ca) \<and>
     arg_pagesize ca \<noteq> 0"

text \<open>The entries of the vector that are written, if the second reading gives enough of them.\<close>

definition auxv_entries :: "core_env \<Rightarrow> nat \<Rightarrow> auxv list" where
  "auxv_entries env num_auxv = (case env_auxv_again env of None \<Rightarrow> [] | Some es \<Rightarrow> take num_auxv es)"

section \<open>The writes are those of the chunks\<close>

lemma seq_bytes:
  "fst (write_seq writer a s) \<Longrightarrow> fst (write_seq writer b (snd (write_seq writer a s))) \<Longrightarrow> fst (write_seq writer (a @ b) s)"
  by (auto simp: seq_append and_then_def split: prod.splits)

text \<open>The pieces in the code are finer than the chunks: what matters is the bytes.\<close>

definition WriteThreadRegs_chunks :: "prstatus \<Rightarrow> thread \<Rightarrow> byte list list" where
  "WriteThreadRegs_chunks ps t =
     [nhdr_bytes \<lparr>n_namesz = 5, n_descsz = 336, n_type = NT_PRSTATUS\<rparr>, core_name,
      prstatus_bytes (ps\<lparr>pr_pid := t_pid t, pr_reg := t_regs t\<rparr>),
      nhdr_bytes \<lparr>n_namesz = 5, n_descsz = 512, n_type = NT_FPREGSET\<rparr>, core_name, t_fpregs t]"

lemma thread_seq: "WriteThreadRegs writer ps t s = write_seq writer (WriteThreadRegs_chunks ps t) s"
  by (simp add: WriteThreadRegs_def WriteThreadRegs_chunks_def Let_def split: sum.splits prod.splits)

definition process_chunks :: "core_args \<Rightarrow> byte list list" where
  "process_chunks ca =
     [nhdr_bytes \<lparr>n_namesz = 5, n_descsz = 136, n_type = NT_PRPSINFO\<rparr>, core_name, prpsinfo_bytes (arg_prpsinfo ca)] @
     (case arg_user ca of None \<Rightarrow> []
      | Some u \<Rightarrow> [nhdr_bytes \<lparr>n_namesz = 5, n_descsz = 928, n_type = NT_PRXREG\<rparr>, core_name, u])"

lemma process_seq: "write_process writer ca s = write_seq writer (process_chunks ca) s"
  by (simp add: write_process_def process_chunks_def Let_def and_then_def split: option.splits sum.splits prod.splits)

definition extra_chunks :: "CoredumperNote \<Rightarrow> byte list list" where
  "extra_chunks n =
     (let nhdr = \<lparr>n_namesz = of_nat (length (note_name n) + 1), n_descsz = description_size n, n_type = note_type n\<rparr>
      in [nhdr_bytes nhdr,
          take (unat (n_namesz nhdr)) (map of_char (note_name n) @ [0]), replicate (padding (unat (n_namesz nhdr))) 0,
          take (unat (n_descsz nhdr)) (description n), replicate (padding (unat (n_descsz nhdr))) 0])"

lemma extra_seq: "write_extra_note writer n s = write_seq writer (extra_chunks n) s"
  by (simp only: write_extra_note_def extra_chunks_def Let_def)

definition auxv_chunks :: "auxv list \<Rightarrow> byte list list" where
  "auxv_chunks es =
     (if es = [] then []
      else [nhdr_bytes \<lparr>n_namesz = 5, n_descsz = of_nat (length es * 16), n_type = NT_AUXV\<rparr>, core_name] @ map auxv_bytes es)"

text \<open>With too few entries the dump is abandoned.\<close>

lemma auxv_seq:
  assumes "num_auxv \<le> length (auxv_entries env num_auxv)"
  shows "write_auxv writer (env_auxv_again env) num_auxv = write_seq writer (auxv_chunks (auxv_entries env num_auxv))"
proof (rule ext)
  fix s
  show "write_auxv writer (env_auxv_again env) num_auxv s = write_seq writer (auxv_chunks (auxv_entries env num_auxv)) s"
  proof (cases "num_auxv = 0 \<or> env_auxv_again env = None")
    case True
    then show ?thesis using assms by (auto simp: write_auxv_def auxv_entries_def auxv_chunks_def split: option.splits)
  next
    case False
    then obtain es where es: "env_auxv_again env = Some es" "num_auxv \<noteq> 0" by blast
    then have n: "num_auxv \<le> length es" "take num_auxv es \<noteq> []" using assms by (auto simp: auxv_entries_def)
    then have "auxv_chunks (auxv_entries env num_auxv) =
        [nhdr_bytes \<lparr>n_namesz = 5, n_descsz = of_nat (num_auxv * 16), n_type = NT_AUXV\<rparr>, core_name] @ map auxv_bytes (take num_auxv es)"
      by (simp add: auxv_chunks_def auxv_entries_def es(1) min_absorb2)
    then show ?thesis
      using es(2) n(1) by (simp only: write_auxv_def es(1) seq_append and_then_done Let_def option.case if_False simp_thms)
  qed
qed

lemma threads_seq:
  "write_threads writer ca = write_seq writer (concat (map (WriteThreadRegs_chunks (arg_prstatus ca)) (dump_order ca)))"
proof (rule ext)
  fix s
  have "each (WriteThreadRegs writer (arg_prstatus ca)) (other_threads ca) =
      write_seq writer (concat (map (WriteThreadRegs_chunks (arg_prstatus ca)) (other_threads ca)))"
    by (rule each_seq) (rule thread_seq)
  then show "write_threads writer ca s =
      write_seq writer (concat (map (WriteThreadRegs_chunks (arg_prstatus ca)) (dump_order ca))) s"
    by (cases "crashed_thread ca")
      (simp_all add: write_threads_def dump_order_def thread_seq seq_append del: write_seq.simps(2))
qed

definition notes_chunks :: "core_args \<Rightarrow> auxv list \<Rightarrow> byte list list" where
  "notes_chunks ca es =
     process_chunks ca @ auxv_chunks es @ concat (map (WriteThreadRegs_chunks (arg_prstatus ca)) (dump_order ca)) @
     concat (map extra_chunks (arg_notes ca))"

lemma notes_seq:
  assumes "num_auxv \<le> length (auxv_entries env num_auxv)"
  shows "write_notes writer env ca num_auxv = write_seq writer (notes_chunks ca (auxv_entries env num_auxv))"
proof (rule ext)
  fix s
  have "each (write_extra_note writer) (arg_notes ca) = write_seq writer (concat (map extra_chunks (arg_notes ca)))"
    by (rule each_seq) (rule extra_seq)
  then show "write_notes writer env ca num_auxv s = write_seq writer (notes_chunks ca (auxv_entries env num_auxv)) s"
    by (simp add: write_notes_def notes_chunks_def process_seq auxv_seq [OF assms] threads_seq seq_append_fun
        and_then_assoc)
qed

definition mapping_chunks :: "memory \<Rightarrow> mapping \<Rightarrow> byte list list" where
  "mapping_chunks mem m = (if write_size m > 0 then [bytes_at mem (start_address m) (unat (write_size m))] else [])"

definition vdso_chunks :: "memory \<Rightarrow> Phdr \<Rightarrow> byte list list" where
  "vdso_chunks mem p = [bytes_at mem (p_vaddr p) (unat (p_filesz p))]"

definition segments_chunks :: "memory \<Rightarrow> 64 word \<Rightarrow> mapping list \<Rightarrow> Phdr list \<Rightarrow> byte list list" where
  "segments_chunks mem align ms extra =
     (if align \<noteq> 0 then [replicate (unat align) 0] else []) @ concat (map (mapping_chunks mem) ms) @
     concat (map (vdso_chunks mem) extra)"

lemma segments_seq:
  "and_then (write_padding writer align s) (\<lambda>s.
     and_then (each (write_mapping writer mem) ms s) (each (write_vdso writer mem) extra)) =
   write_seq writer (segments_chunks mem align ms extra) s"
proof -
  have "each (write_mapping writer mem) ms = write_seq writer (concat (map (mapping_chunks mem) ms))"
    by (rule each_seq) (simp add: write_mapping_def mapping_chunks_def)
  moreover have "each (write_vdso writer mem) extra = write_seq writer (concat (map (vdso_chunks mem) extra))"
    by (rule each_seq) (simp add: write_vdso_def vdso_chunks_def)
  ultimately show ?thesis
    by (simp add: write_padding_def segments_chunks_def seq_append_fun del: write_seq.simps(2))
qed

text \<open>All the program headers of a file, and all its chunks.\<close>

definition all_phdrs :: "core_args \<Rightarrow> 64 word \<Rightarrow> 64 word \<Rightarrow> 64 word \<Rightarrow> mapping list \<Rightarrow> Phdr list \<Rightarrow> Phdr list" where
  "all_phdrs ca offset filesz align ms extra =
     (case load_phdrs (arg_pagesize ca) (offset + align) filesz ms of
        (loads, offset', filesz') \<Rightarrow> note_phdr offset filesz # loads @ vdso_phdrs offset' filesz' extra)"

definition core_chunks ::
  "memory \<Rightarrow> core_args \<Rightarrow> auxv list \<Rightarrow> 64 word \<Rightarrow> 64 word \<Rightarrow> 64 word \<Rightarrow> mapping list \<Rightarrow> Phdr list \<Rightarrow> byte list list" where
  "core_chunks mem ca es offset filesz align ms extra =
     ehdr_bytes (core_ehdr (length ms) (length extra)) # map phdr_bytes (all_phdrs ca offset filesz align ms extra) @
     notes_chunks ca es @ segments_chunks mem align ms extra"

lemma body_seq:
  assumes "num_auxv \<le> length (auxv_entries env num_auxv)"
    and "final = limit_mappings ca (offset + align) filesz extra ms"
  shows "write_body writer env ca extra num_auxv offset filesz align ms s =
     write_seq writer (tl (map phdr_bytes (all_phdrs ca offset filesz align final extra)) @
       notes_chunks ca (auxv_entries env num_auxv) @ segments_chunks (env_memory env) align final extra) s"
  by (cases "load_phdrs (arg_pagesize ca) (offset + align) filesz final")
    (simp add: write_body_def Let_def assms(2) [symmetric] all_phdrs_def notes_seq [OF assms(1)] segments_seq
      seq_append_fun and_then_assoc)

lemma limit_mappings_length [simp]: "length (limit_mappings ca offset filesz extra ms) = length ms"
  using prioritize_cuts by (auto simp: limit_mappings_def cut_down_def)

text \<open>Without enough entries of the auxiliary vector the file is not finished.\<close>

lemma body_unfinished:
  assumes "\<not> num_auxv \<le> length (auxv_entries env num_auxv)"
  shows "\<not> fst (write_body writer env ca extra num_auxv offset filesz align ms s)"
proof -
  have "\<not> fst (write_auxv writer (env_auxv_again env) num_auxv s)" for s :: 'a
    using assms by (cases "env_auxv_again env")
      (auto simp: write_auxv_def auxv_entries_def Let_def intro!: and_then_fails(2))
  then have "\<not> fst (write_notes writer env ca num_auxv s)" for s :: 'a
    by (simp add: write_notes_def and_then_fails)
  then show ?thesis
    unfolding write_body_def Let_def
    by (cases "load_phdrs (arg_pagesize ca) (offset + align) filesz (limit_mappings ca (offset + align) filesz extra ms)")
      (simp add: and_then_fails)
qed

lemma all_phdrs_hd: "all_phdrs ca offset filesz align ms extra =
    note_phdr offset filesz # tl (all_phdrs ca offset filesz align ms extra)"
  by (simp add: all_phdrs_def split: prod.splits)

definition first_offset :: "mapping list \<Rightarrow> Phdr list \<Rightarrow> 64 word" where
  "first_offset ms extra = of_nat (64 + (length ms + length extra + 1) * 56)"

lemma core_seq:
  assumes "num_auxv \<le> length (auxv_entries env num_auxv)"
    and "note_align (arg_pagesize ca) (first_offset ms extra) (notes_size ca num_auxv) = Inr align"
    and "final = limit_mappings ca (first_offset ms extra + align) (notes_size ca num_auxv) extra ms"
    and "extra = vdso_extra (env_memory env) vdso"
  shows "write_core writer env ca ms vdso num_auxv s =
     Inr (write_seq writer (core_chunks (env_memory env) ca (auxv_entries env num_auxv) (first_offset ms extra)
       (notes_size ca num_auxv) align final extra) s)"
proof -
  let ?heads = "[ehdr_bytes (core_ehdr (length ms) (length extra)),
    phdr_bytes (note_phdr (first_offset ms extra) (notes_size ca num_auxv))]"
  let ?rest = "tl (map phdr_bytes (all_phdrs ca (first_offset ms extra) (notes_size ca num_auxv) align final extra)) @
       notes_chunks ca (auxv_entries env num_auxv) @ segments_chunks (env_memory env) align final extra"
  have len: "length final = length ms" by (simp add: assms(3))
  have chunks: "core_chunks (env_memory env) ca (auxv_entries env num_auxv) (first_offset ms extra)
       (notes_size ca num_auxv) align final extra = ?heads @ ?rest"
    using arg_cong [OF all_phdrs_hd [of ca "first_offset ms extra" "notes_size ca num_auxv" align final extra], of "map phdr_bytes"]
    by (simp add: core_chunks_def len map_tl)
  obtain ok s1 where heads: "write_seq writer ?heads s = (ok, s1)" by (cases "write_seq writer ?heads s")
  show ?thesis
    unfolding chunks seq_append [of writer ?heads] heads
    by (simp only: write_core_def Let_def assms(4) [symmetric] first_offset_def [symmetric] heads)
      (simp add: assms(2) body_seq [OF assms(1,3)])
qed

section \<open>The bytes of the notes\<close>

lemma core_name_padded: "core_name = CORE @ replicate (padding 5) 0" "length CORE = 5"
  by (simp_all add: core_name_def CORE_def padding_def numeral_3_eq_3)

lemma length_core_name [simp]: "length core_name = 8"
  by (simp add: core_name_def)

lemma padding_none: "4 dvd n \<Longrightarrow> padding n = 0"
  by (simp add: padding_def mod_eq_0_iff_dvd)

lemma core_note_bytes:
  "4 dvd length desc \<Longrightarrow>
     note_bytes (CORE, type, desc) = nhdr_bytes \<lparr>n_namesz = 5, n_descsz = of_nat (length desc), n_type = type\<rparr> @ core_name @ desc"
  by (simp add: note_bytes_def note_chunks_def core_name_padded padding_none)

lemma process_bytes:
  assumes "args_ok ca"
  shows "concat (process_chunks ca) = concat (map note_bytes (process_notes ca))"
proof -
  have "length (prpsinfo_bytes (arg_prpsinfo ca)) = 136" using assms by (simp add: args_ok_def)
  moreover have "length u = 928" if "arg_user ca = Some u" for u using assms that by (simp add: args_ok_def)
  ultimately show ?thesis
    by (auto simp: process_chunks_def process_notes_def core_note_bytes split: option.splits)
qed

lemma length_auxv_bytes: "length (concat (map auxv_bytes es)) = 16 * length es"
  by (induction es) (simp_all add: auxv_bytes_def split_beta)

lemma auxv_note_bytes: "concat (auxv_chunks es) = concat (map note_bytes (auxv_notes es))"
  by (simp add: auxv_chunks_def auxv_notes_def core_note_bytes length_auxv_bytes mult.commute)

lemma thread_note_bytes:
  assumes "length (t_regs t) = 216" and "length (t_fpregs t) = 512"
  shows "concat (WriteThreadRegs_chunks ps t) = concat (map note_bytes (thread_notes ps t))"
proof -
  have "length (prstatus_bytes (ps\<lparr>pr_pid := t_pid t, pr_reg := t_regs t\<rparr>)) = 336" using assms by simp
  then show ?thesis using assms by (simp add: WriteThreadRegs_chunks_def thread_notes_def core_note_bytes)
qed

lemma extra_note_bytes:
  assumes "length (note_name n) + 1 < 2 ^ 32" and "unat (description_size n) \<le> length (description n)"
  shows "concat (extra_chunks n) = note_bytes (extra_note n)"
proof -
  have "unat (of_nat (length (note_name n) + 1) :: 32 word) = length (note_name n) + 1"
    using assms(1) by (intro le_unat_uoi [of _ "0xFFFFFFFF"]) simp
  then show ?thesis
    using assms(2) by (simp add: extra_chunks_def note_bytes_def note_chunks_def extra_note_def Let_def min_absorb2)
qed

lemma find_in_set: "List.find P xs = Some x \<Longrightarrow> x \<in> set xs \<and> P x"
  by (metis find_Some_iff nth_mem)

lemma dump_order_threads: "set (dump_order ca) \<subseteq> set (arg_threads ca)"
  using find_in_set [of _ "rev (arg_threads ca)"]
  by (auto simp: dump_order_def crashed_thread_def other_threads_def split: option.splits)

lemma notes_bytes:
  assumes "args_ok ca"
  shows "concat (notes_chunks ca es) = concat (map note_bytes (core_notes ca es))"
proof -
  have "concat (concat (map (WriteThreadRegs_chunks ps) ts)) =
      concat (map note_bytes (concat (map (thread_notes ps) ts)))"
    if "set ts \<subseteq> set (arg_threads ca)" for ps ts
    using that
  proof (induction ts)
    case (Cons t ts)
    then have "length (t_regs t) = 216" "length (t_fpregs t) = 512" using assms by (auto simp: args_ok_def list_all_iff)
    from thread_note_bytes [OF this] show ?case using Cons by simp
  qed simp
  note threads = this [OF dump_order_threads]
  have "concat (concat (map extra_chunks ns)) = concat (map note_bytes (map extra_note ns))"
    if "set ns \<subseteq> set (arg_notes ca)" for ns
    using that
  proof (induction ns)
    case (Cons n ns)
    then have "concat (extra_chunks n) = note_bytes (extra_note n)"
      using assms by (intro extra_note_bytes) (auto simp: args_ok_def list_all_iff)
    then show ?case using Cons by simp
  qed simp
  from this [OF order_refl] threads show ?thesis
    by (simp add: notes_chunks_def core_notes_def process_bytes [OF assms] auxv_note_bytes)
qed

definition notes_length :: "core_note list \<Rightarrow> nat" where
  "notes_length ns = length (concat (map note_bytes ns))"

lemma notes_length_simps [simp]:
  "notes_length [] = 0" "notes_length (n # ns) = length (note_bytes n) + notes_length ns"
  "notes_length (as @ bs) = notes_length as + notes_length bs"
  by (simp_all add: notes_length_def)

lemma length_core_note: "4 dvd length desc \<Longrightarrow> length (note_bytes (CORE, type, desc)) = 20 + length desc"
  by (simp add: core_note_bytes)

lemma threads_length:
  "\<forall>t \<in> set ts. length (t_regs t) = 216 \<and> length (t_fpregs t) = 512 \<Longrightarrow>
     notes_length (concat (map (thread_notes ps) ts)) = length ts * 888"
  by (induction ts) (simp_all add: thread_notes_def length_core_note)

lemma filter_partition: "length (filter P xs) + length (filter (\<lambda>x. \<not> P x) xs) = length xs"
  by (induction xs) simp_all

lemma dump_order_length: "args_ok ca \<Longrightarrow> length (dump_order ca) = length (arg_threads ca)"
proof -
  let ?P = "\<lambda>t. t_pid t = arg_main_pid ca"
  assume "args_ok ca"
  then have "length (filter ?P (arg_threads ca)) \<le> 1" by (simp add: args_ok_def)
  moreover have "length (filter ?P (arg_threads ca)) = 0 \<longleftrightarrow> crashed_thread ca = None"
    by (auto simp: crashed_thread_def find_None_iff filter_empty_conv)
  ultimately have "length (filter ?P (arg_threads ca)) = (if crashed_thread ca = None then 0 else 1)"
    by (cases "length (filter ?P (arg_threads ca))") (simp_all del: length_0_conv)
  then show ?thesis
    using filter_partition [of ?P "arg_threads ca"]
    by (cases "crashed_thread ca") (simp_all add: dump_order_def other_threads_def rev_filter [symmetric])
qed

lemma extra_length: "length (note_name n) + 1 < 2 ^ 32 \<Longrightarrow> unat (description_size n) \<le> length (description n) \<Longrightarrow>
   of_nat (length (note_bytes (extra_note n))) = extra_note_size n"
  by (simp add: note_bytes_def note_chunks_def extra_note_def extra_note_size_def Let_def min_absorb2 add_ac)

lemma notes_size_length:
  assumes "args_ok ca"
  shows "of_nat (notes_length (core_notes ca es)) = notes_size ca (length es)"
proof -
  have "of_nat (notes_length (map extra_note ns)) = sum_list (map extra_note_size ns)"
    if "set ns \<subseteq> set (arg_notes ca)" for ns
    using that
  proof (induction ns)
    case (Cons n ns)
    then have "of_nat (length (note_bytes (extra_note n))) = extra_note_size n"
      using assms by (intro extra_length) (auto simp: args_ok_def list_all_iff)
    then show ?case using Cons by simp
  qed simp
  moreover have "notes_length (concat (map (thread_notes (arg_prstatus ca)) (dump_order ca))) = length (arg_threads ca) * 888"
    using threads_length [of "dump_order ca"] dump_order_threads [of ca] assms
    by (subst threads_length) (auto simp: args_ok_def list_all_iff dump_order_length [OF assms])
  moreover have "notes_length (auxv_notes es) = (if es = [] then 0 else 20 + length es * 16)"
    by (simp add: auxv_notes_def length_core_note length_auxv_bytes)
  moreover have "notes_length (process_notes ca) = 156 + (if arg_user ca = None then 0 else 948)"
    using assms by (auto simp: process_notes_def length_core_note args_ok_def split: option.splits)
  ultimately show ?thesis
    by (simp add: core_notes_def notes_size_def algebra_simps)
qed

section \<open>Reading a file\<close>

text \<open>A debugger maps the file and reads program headers and contents from it.\<close>

definition file_memory :: "byte list \<Rightarrow> memory" where
  "file_memory f a = (if unat a < length f then f ! unat a else 0)"

definition core_phdr :: "byte list \<Rightarrow> nat \<Rightarrow> Phdr" where
  "core_phdr f i = load_phdr (file_memory f) (of_nat (64 + 56 * i))"

definition core_contents :: "byte list \<Rightarrow> Phdr \<Rightarrow> byte list" where
  "core_contents f p = take (unat (p_filesz p)) (drop (unat (p_offset p)) f)"

lemma bytes_at_Suc: "bytes_at mem a (Suc n) = mem a # bytes_at mem (a + 1) n"
  by (rule nth_equalityI) (auto simp: bytes_at_def nth_Cons' algebra_simps simp del: upt_Suc split: nat.splits)

lemma le_Suc: "le (Suc n) w = ucast w # le n (drop_bit 8 w)"
  by (rule nth_equalityI) (auto simp: le_def nth_Cons' algebra_simps simp del: upt_Suc split: nat.splits)

lemma load_Suc: "load mem a (Suc n) = (push_bit 8 (load mem (a + 1) n) OR ucast (mem a) :: 'a::len word)"
proof -
  have "[0..<Suc n] = 0 # map Suc [0..<n]" by (simp add: upt_conv_Cons map_Suc_upt del: upt_Suc)
  then show ?thesis by (simp add: load_def foldr_map comp_def algebra_simps)
qed

lemma load_le: "bytes_at mem a n = le n w \<Longrightarrow> load mem a n = (take_bit (8 * n) w :: 'a::len word)"
proof (induction n arbitrary: a w)
  case (Suc n)
  then have "mem a = ucast w" "bytes_at mem (a + 1) n = le n (drop_bit 8 w)" by (simp_all add: bytes_at_Suc le_Suc)
  then show ?case
    using Suc.IH [of "a + 1" "drop_bit 8 w"]
    by (intro bit_word_eqI) (auto simp: load_Suc bit_simps)
qed (simp add: load_def)

lemma bytes_at_append: "bytes_at mem a (m + n) = bytes_at mem a m @ bytes_at mem (a + of_nat m) n"
  by (rule nth_equalityI) (auto simp: bytes_at_def nth_append algebra_simps)

lemma file_bytes_at:
  assumes "k + n \<le> length f" and "length f < 2 ^ 64"
  shows "bytes_at (file_memory f) (of_nat k) n = take n (drop k f)"
proof (rule nth_equalityI)
  fix i assume "i < length (bytes_at (file_memory f) (of_nat k) n)"
  then have "i < n" by simp
  moreover have "(of_nat k :: 64 word) + of_nat i = of_nat (k + i)" by simp
  moreover have "unat (of_nat (k + i) :: 64 word) = k + i"
    using assms \<open>i < n\<close> by (intro le_unat_uoi [of _ "0xFFFFFFFFFFFFFFFF"]) simp
  ultimately show "bytes_at (file_memory f) (of_nat k) n ! i = take n (drop k f) ! i"
    using assms by (simp add: bytes_at_def file_memory_def)
qed (use assms in simp)

lemma load_phdr_bytes: "bytes_at mem a 56 = phdr_bytes p \<Longrightarrow> load_phdr mem a = p"
proof -
  assume b: "bytes_at mem a 56 = phdr_bytes p"
  have s: "(56 :: nat) = 4 + (4 + (8 + (8 + (8 + (8 + (8 + 8))))))" by simp
  have e: "bytes_at mem a 4 = le 4 (p_type p)" "bytes_at mem (a + 4) 4 = le 4 (p_flags p)"
      "bytes_at mem (a + 8) 8 = le 8 (p_offset p)" "bytes_at mem (a + 16) 8 = le 8 (p_vaddr p)"
      "bytes_at mem (a + 24) 8 = le 8 (p_paddr p)" "bytes_at mem (a + 32) 8 = le 8 (p_filesz p)"
      "bytes_at mem (a + 40) 8 = le 8 (p_memsz p)" "bytes_at mem (a + 48) 8 = le 8 (p_align p)"
    using b unfolding s bytes_at_append phdr_bytes_def by (simp_all add: add.assoc)
  show ?thesis
    by (cases p) (use e in \<open>simp add: load_phdr_def load_le take_bit_word_eq_self\<close>)
qed

lemma core_phdr_at:
  assumes "f = hdr @ concat (map phdr_bytes ps) @ rest" and "length hdr = 64" and "length f < 2 ^ 64" and "i < length ps"
  shows "core_phdr f i = ps ! i"
proof -
  have len: "length (concat (map phdr_bytes qs)) = 56 * length qs" for qs
    by (induction qs) simp_all
  have ps: "ps = take i ps @ ps ! i # drop (Suc i) ps" by (rule id_take_nth_drop [OF assms(4)])
  have "f = (hdr @ concat (map phdr_bytes (take i ps))) @ phdr_bytes (ps ! i) @ concat (map phdr_bytes (drop (Suc i) ps)) @ rest"
    unfolding assms(1) by (subst ps) simp
  moreover have "length (hdr @ concat (map phdr_bytes (take i ps))) = 64 + 56 * i"
    using assms(2,4) len [of "take i ps"] by simp
  ultimately have "take 56 (drop (64 + 56 * i) f) = phdr_bytes (ps ! i)" "64 + 56 * i + 56 \<le> length f"
    by (auto simp: append_eq_conv_conj [symmetric] simp del: append_assoc)
  then show ?thesis
    unfolding core_phdr_def using file_bytes_at [of "64 + 56 * i" 56 f] assms(3) by (intro load_phdr_bytes) simp
qed


section \<open>Where the segments are\<close>

definition segment :: "memory \<Rightarrow> mapping \<Rightarrow> byte list" where
  "segment mem m = bytes_at mem (start_address m) (unat (write_size m))"

definition vdso_segment :: "memory \<Rightarrow> Phdr \<Rightarrow> byte list" where
  "vdso_segment mem p = bytes_at mem (p_vaddr p) (unat (p_filesz p))"

lemma segment_chunks: "concat (concat (map (mapping_chunks mem) ms)) = concat (map (segment mem) ms)"
proof (induction ms)
  case (Cons m ms)
  then show ?case by (cases "write_size m = 0") (simp_all add: mapping_chunks_def segment_def bytes_at_def word_gt_0)
qed simp

lemma vdso_segment_chunks: "concat (concat (map (vdso_chunks mem) ps)) = concat (map (vdso_segment mem) ps)"
  by (induction ps) (simp_all add: vdso_chunks_def vdso_segment_def)

lemma segments_size: "of_nat (length (concat (map (segment mem) ms))) = sum_list (map write_size ms)"
  by (induction ms) (simp_all add: segment_def of_nat_unat)

lemma vdso_segments_size: "of_nat (length (concat (map (vdso_segment mem) ps))) = sum_list (map p_filesz ps)"
  by (induction ps) (simp_all add: vdso_segment_def of_nat_unat)

lemma load_phdrs_spec:
  assumes "load_phdrs pagesize offset filesz ms = (loads, offset', filesz')"
  shows "length loads = length ms" and "offset' + filesz' = offset + filesz + sum_list (map write_size ms)"
    and "i < length ms \<Longrightarrow>
      loads ! i = mapping_phdr pagesize (offset + filesz + sum_list (map write_size (take i ms))) (ms ! i)"
proof -
  have "length loads = length ms \<and> offset' + filesz' = offset + filesz + sum_list (map write_size ms) \<and>
      (\<forall>i < length ms. loads ! i = mapping_phdr pagesize (offset + filesz + sum_list (map write_size (take i ms))) (ms ! i))"
    using assms
  proof (induction ms arbitrary: offset filesz loads)
    case (Cons m ms)
    obtain loads' where l: "load_phdrs pagesize (offset + filesz) (write_size m) ms = (loads', offset', filesz')"
        "loads = mapping_phdr pagesize (offset + filesz) m # loads'"
      using Cons.prems by (auto simp: Let_def split: prod.splits)
    from Cons.IH [OF l(1)] show ?case
      unfolding l(2) by (auto simp: nth_Cons' take_Cons' add.assoc)
  qed simp
  then show "length loads = length ms" "offset' + filesz' = offset + filesz + sum_list (map write_size ms)"
    "i < length ms \<Longrightarrow>
      loads ! i = mapping_phdr pagesize (offset + filesz + sum_list (map write_size (take i ms))) (ms ! i)"
    by blast+
qed

lemma length_vdso_phdrs [simp]: "length (vdso_phdrs offset filesz ps) = length ps"
  by (induction offset filesz ps rule: vdso_phdrs.induct) (simp_all add: Let_def)

lemma vdso_phdrs_nth:
  "i < length ps \<Longrightarrow> vdso_phdrs offset filesz ps ! i =
     (ps ! i)\<lparr>p_offset := offset + filesz + sum_list (map p_filesz (take i ps)), p_paddr := 0\<rparr>"
  by (induction offset filesz ps arbitrary: i rule: vdso_phdrs.induct)
    (auto simp: Let_def nth_Cons' take_Cons' add.assoc)

lemma core_contents_at:
  assumes "f = a @ concat (map seg xs) @ rest" and "length f < 2 ^ 64" and "i < length xs"
    and "p_offset p = of_nat (length a) + of_nat (length (concat (map seg (take i xs))))"
    and "unat (p_filesz p) = length (seg (xs ! i))"
  shows "core_contents f p = seg (xs ! i) \<and> unat (p_offset p) + unat (p_filesz p) \<le> length f"
proof -
  have "xs = take i xs @ xs ! i # drop (Suc i) xs" by (rule id_take_nth_drop [OF assms(3)])
  then have f: "f = (a @ concat (map seg (take i xs))) @ seg (xs ! i) @ concat (map seg (drop (Suc i) xs)) @ rest"
    unfolding assms(1) by (metis append.assoc concat.simps(2) concat_append list.simps(9) map_append)
  let ?k = "length (a @ concat (map seg (take i xs)))"
  have "?k \<le> length f" unfolding f by simp
  then have "unat (of_nat ?k :: 64 word) = ?k" using assms(2) by (intro le_unat_uoi [of _ "0xFFFFFFFFFFFFFFFF"]) simp
  then have o: "unat (p_offset p) = ?k" unfolding assms(4) by simp
  have "take (length (seg (xs ! i))) (drop ?k f) = seg (xs ! i)" by (subst f) simp
  moreover have "?k + length (seg (xs ! i)) \<le> length f" by (subst f) simp
  ultimately show ?thesis by (simp add: core_contents_def assms(5) o del: length_append)
qed

text \<open>The parts of a file in order.\<close>

definition core_bytes ::
  "memory \<Rightarrow> core_args \<Rightarrow> auxv list \<Rightarrow> 64 word \<Rightarrow> 64 word \<Rightarrow> 64 word \<Rightarrow> mapping list \<Rightarrow> Phdr list \<Rightarrow> byte list" where
  "core_bytes mem ca es offset filesz align ms extra =
     ehdr_bytes (core_ehdr (length ms) (length extra)) @
     concat (map phdr_bytes (all_phdrs ca offset filesz align ms extra)) @
     concat (map note_bytes (core_notes ca es)) @ replicate (unat align) 0 @
     concat (map (segment mem) ms) @ concat (map (vdso_segment mem) extra)"

lemma core_chunks_bytes:
  "args_ok ca \<Longrightarrow> concat (core_chunks mem ca es offset filesz align ms extra) = core_bytes mem ca es offset filesz align ms extra"
  by (simp add: core_chunks_def core_bytes_def notes_bytes segments_chunks_def segment_chunks vdso_segment_chunks)

lemma all_phdrs_length [simp]: "length (all_phdrs ca offset filesz align ms extra) = length ms + length extra + 1"
  by (auto simp: all_phdrs_def load_phdrs_spec(1) split: prod.splits)

lemma all_phdrs_nth:
  "all_phdrs ca offset filesz align ms extra ! 0 = note_phdr offset filesz"
  "i < length ms \<Longrightarrow> all_phdrs ca offset filesz align ms extra ! (i + 1) =
     mapping_phdr (arg_pagesize ca) (offset + align + filesz + sum_list (map write_size (take i ms))) (ms ! i)"
  "i < length extra \<Longrightarrow> all_phdrs ca offset filesz align ms extra ! (length ms + 1 + i) =
     (extra ! i)\<lparr>p_offset := offset + align + filesz + sum_list (map write_size ms) + sum_list (map p_filesz (take i extra)),
       p_paddr := 0\<rparr>"
proof -
  obtain loads offset' filesz' where l: "load_phdrs (arg_pagesize ca) (offset + align) filesz ms = (loads, offset', filesz')"
    by (cases "load_phdrs (arg_pagesize ca) (offset + align) filesz ms")
  show "all_phdrs ca offset filesz align ms extra ! 0 = note_phdr offset filesz" by (simp add: all_phdrs_def l)
  show "i < length ms \<Longrightarrow> all_phdrs ca offset filesz align ms extra ! (i + 1) =
      mapping_phdr (arg_pagesize ca) (offset + align + filesz + sum_list (map write_size (take i ms))) (ms ! i)"
    by (simp add: all_phdrs_def l nth_append load_phdrs_spec [OF l])
  show "i < length extra \<Longrightarrow> all_phdrs ca offset filesz align ms extra ! (length ms + 1 + i) =
     (extra ! i)\<lparr>p_offset := offset + align + filesz + sum_list (map write_size ms) + sum_list (map p_filesz (take i extra)),
       p_paddr := 0\<rparr>"
    by (simp add: all_phdrs_def l nth_append load_phdrs_spec(1) [OF l] vdso_phdrs_nth load_phdrs_spec(2) [OF l])
qed


lemma length_core_ehdr [simp]: "length (ehdr_bytes (core_ehdr n e)) = 64"
  by (simp add: core_ehdr_def)

lemma phdrs_length: "length (concat (map phdr_bytes ps)) = 56 * length ps"
  by (induction ps) simp_all

lemma core_bytes_phdr:
  assumes "f = core_bytes mem ca es offset filesz align ms extra" and "length f < 2 ^ 64"
    and "i < length ms + length extra + 1"
  shows "core_phdr f i = all_phdrs ca offset filesz align ms extra ! i"
  by (rule core_phdr_at [OF _ length_core_ehdr assms(2)]) (use assms in \<open>simp_all add: core_bytes_def\<close>)

lemma core_bytes_head:
  "f = core_bytes mem ca es offset filesz align ms extra \<Longrightarrow> take 64 f = ehdr_bytes (core_ehdr (length ms) (length extra))"
  by (simp add: core_bytes_def)

definition core_file :: "memory \<Rightarrow> core_args \<Rightarrow> auxv list \<Rightarrow> 64 word \<Rightarrow> mapping list \<Rightarrow> Phdr list \<Rightarrow> byte list" where
  "core_file mem ca es align ms extra =
     core_bytes mem ca es (first_offset ms extra) (notes_size ca (length es)) align ms extra"

lemma core_file_notes:
  assumes f: "f = core_file mem ca es align ms extra" and len: "length f < 2 ^ 64" and ok: "args_ok ca"
  shows "core_phdr f 0 = note_phdr (first_offset ms extra) (notes_size ca (length es)) \<and>
     core_contents f (core_phdr f 0) = concat (map note_bytes (core_notes ca es))"
proof -
  let ?notes = "concat (map note_bytes (core_notes ca es))"
  let ?pre = "ehdr_bytes (core_ehdr (length ms) (length extra)) @
    concat (map phdr_bytes (all_phdrs ca (first_offset ms extra) (notes_size ca (length es)) align ms extra))"
  have p: "core_phdr f 0 = note_phdr (first_offset ms extra) (notes_size ca (length es))"
    using core_bytes_phdr [OF f [unfolded core_file_def] len, of 0] by (simp add: all_phdrs_nth)
  have split: "f = ?pre @ concat (map (\<lambda>_. ?notes) [()]) @
      (replicate (unat align) 0 @ concat (map (segment mem) ms) @ concat (map (vdso_segment mem) extra))"
    by (simp add: f core_file_def core_bytes_def)
  have "length ?notes \<le> length f" unfolding split by simp
  then have n: "unat (notes_size ca (length es)) = length ?notes"
    unfolding notes_size_length [OF ok, symmetric] notes_length_def using len
    by (intro le_unat_uoi [of _ "0xFFFFFFFFFFFFFFFF"]) simp
  have "length ?pre = 64 + (length ms + length extra + 1) * 56" by (simp add: phdrs_length)
  then show ?thesis
    using core_contents_at [OF split len, of 0 "core_phdr f 0"]
    by (simp add: p note_phdr_def n first_offset_def del: length_append)
qed

text \<open>The first segment starts where the headers, the notes and the padding end.\<close>

lemma core_file_segments:
  assumes f: "f = core_file mem ca es align ms extra" and len: "length f < 2 ^ 64" and ok: "args_ok ca"
  shows "i < length ms \<Longrightarrow>
       core_phdr f (i + 1) = mapping_phdr (arg_pagesize ca) (p_offset (core_phdr f (i + 1))) (ms ! i) \<and>
       core_contents f (core_phdr f (i + 1)) = segment mem (ms ! i)"
    and "i < length extra \<Longrightarrow>
       core_phdr f (length ms + 1 + i) =
         (extra ! i)\<lparr>p_offset := p_offset (core_phdr f (length ms + 1 + i)), p_paddr := 0\<rparr> \<and>
       core_contents f (core_phdr f (length ms + 1 + i)) = vdso_segment mem (extra ! i)"
proof -
  let ?notes = "concat (map note_bytes (core_notes ca es))"
  let ?pre = "ehdr_bytes (core_ehdr (length ms) (length extra)) @
    concat (map phdr_bytes (all_phdrs ca (first_offset ms extra) (notes_size ca (length es)) align ms extra)) @
    ?notes @ replicate (unat align) 0"
  let ?segs = "concat (map (segment mem) ms)"
  have one: "f = ?pre @ concat (map (segment mem) ms) @ concat (map (vdso_segment mem) extra)"
    by (simp add: f core_file_def core_bytes_def)
  then have two: "f = (?pre @ ?segs) @ concat (map (vdso_segment mem) extra) @ []" by simp
  note phdr = core_bytes_phdr [OF f [unfolded core_file_def] len]
  have "length ?pre = (64 + (length ms + length extra + 1) * 56) + notes_length (core_notes ca es) + unat align"
    by (simp add: phdrs_length notes_length_def)
  then have base: "of_nat (length ?pre) = first_offset ms extra + align + notes_size ca (length es)"
    by (simp only: of_nat_add notes_size_length [OF ok] first_offset_def of_nat_unat ucast_id ac_simps)
  {
    assume i: "i < length ms"
    have p: "core_phdr f (i + 1) = mapping_phdr (arg_pagesize ca)
        (of_nat (length ?pre) + sum_list (map write_size (take i ms))) (ms ! i)"
      unfolding base using phdr [of "i + 1"] i all_phdrs_nth(2) [OF i] by simp
    show "core_phdr f (i + 1) = mapping_phdr (arg_pagesize ca) (p_offset (core_phdr f (i + 1))) (ms ! i) \<and>
       core_contents f (core_phdr f (i + 1)) = segment mem (ms ! i)"
      using core_contents_at [OF one len i, of "core_phdr f (i + 1)"]
      unfolding p segments_size by (simp add: mapping_phdr_def segment_def del: length_append)
  }
  assume i: "i < length extra"
  have p: "core_phdr f (length ms + 1 + i) = (extra ! i)
      \<lparr>p_offset := of_nat (length (?pre @ ?segs)) + sum_list (map p_filesz (take i extra)), p_paddr := 0\<rparr>"
    unfolding length_append [of ?pre] of_nat_add base segments_size
    using phdr [of "length ms + 1 + i"] i all_phdrs_nth(3) [OF i] by simp
  show "core_phdr f (length ms + 1 + i) =
         (extra ! i)\<lparr>p_offset := p_offset (core_phdr f (length ms + 1 + i)), p_paddr := 0\<rparr> \<and>
       core_contents f (core_phdr f (length ms + 1 + i)) = vdso_segment mem (extra ! i)"
    using core_contents_at [OF two len i, of "core_phdr f (length ms + 1 + i)"]
    unfolding p vdso_segments_size by (simp add: vdso_segment_def del: length_append)
qed


end
