(* ===== verification/MapsText.thy ===== *)
theory MapsText
  imports CoreMaps
begin

text \<open>
  The text of \<open>/proc/self/maps\<close> as the kernel prints it, and the proof that the reader of
  \<open>CoreMaps\<close> reads it back exactly, however the file arrives in pieces.
\<close>

unbundle bit_operations_syntax

section \<open>The reader and what is before it\<close>

text \<open>
  The reader stands before \<open>s\<close>: the buffered bytes and the rest of the file, of which the
  kernel always gives something. With one character already in \<open>ch\<close>: \<open>at ch io s\<close>.
\<close>

definition gives :: "answer \<Rightarrow> bool" where
  "gives a = (case a of Moves k \<Rightarrow> k > 0 | Fails e \<Rightarrow> e = EINTR)"

definition reads :: "maps_io \<Rightarrow> byte list \<Rightarrow> bool" where
  "reads io s \<longleftrightarrow> io_unread io @ sr_left (io_fd io) = s \<and> list_all gives (sr_answers (io_fd io))"

definition at :: "int \<Rightarrow> maps_io \<Rightarrow> byte list \<Rightarrow> bool" where
  "at ch io s \<longleftrightarrow> (\<exists>c r. s = c # r \<and> ch = uint c \<and> reads io r)"

lemma read_no_intr_gives:
  assumes "list_all gives (sr_answers s)" and "0 < n"
  shows "\<exists>bs s'. read_no_intr n s = (Inr bs, s') \<and> sr_left s = bs @ sr_left s' \<and>
     list_all gives (sr_answers s') \<and> (bs = [] \<longrightarrow> sr_left s = [])"
  using assms
proof (induction n s rule: read_no_intr.induct)
  case (1 n s)
  consider (all) "sr_answers s = []" | (some) k as where "sr_answers s = Moves k # as" "0 < k"
    | (interrupted) as where "sr_answers s = Fails EINTR # as"
    using 1(2) by (cases "sr_answers s"; cases "hd (sr_answers s)") (auto simp: gives_def)
  then show ?case
  proof cases
    case interrupted
    then have s: "sys_read n s = (Inl EINTR, s\<lparr>sr_answers := as\<rparr>)" by (simp add: sys_read_def)
    show ?thesis using 1(1) [OF s [symmetric]] 1(2,3) interrupted by (simp add: read_no_intr.simps [of n s] s)
  qed (use 1(2,3) in \<open>auto simp: read_no_intr.simps [of n s] sys_read_def\<close>)
qed

lemma get_char_reads: "reads io (b # s) \<Longrightarrow> \<exists>io'. GetChar io = (uint b, io') \<and> reads io' s"
proof (cases "io_unread io")
  case Nil
  assume r: "reads io (b # s)"
  then obtain bs fd where "read_no_intr 4096 (io_fd io) = (Inr bs, fd)" "sr_left (io_fd io) = bs @ sr_left fd"
      "list_all gives (sr_answers fd)" "bs \<noteq> []"
    using read_no_intr_gives [of "io_fd io" 4096] Nil by (auto simp: reads_def)
  then show ?thesis using r Nil by (cases bs) (auto simp: GetChar_def c_read_def reads_def)
qed (auto simp: GetChar_def reads_def)

lemma get_char_end: "reads io [] \<Longrightarrow> \<exists>io'. GetChar io = (-1, io') \<and> io_errno io' = 0 \<and> reads io' []"
  using read_no_intr_gives [of "io_fd io" 4096]
  by (auto simp: reads_def GetChar_def c_read_def split: list.splits)

lemma get_char_at:
  assumes "reads io s" and "s \<noteq> []"
  obtains ch io' where "GetChar io = (ch, io')" "at ch io' s"
  using assms get_char_reads [of io "hd s" "tl s"] by (cases s) (auto simp: at_def)

lemma at_Cons [simp]: "at ch io (c # s) \<longleftrightarrow> ch = uint c \<and> reads io s"
  by (auto simp: at_def)

lemma uint_char [simp]:
  "uint (c :: byte) = 32 \<longleftrightarrow> c = 32" "uint c = 10 \<longleftrightarrow> c = 10" "uint c = 45 \<longleftrightarrow> c = 45" "uint c = 91 \<longleftrightarrow> c = 91"
  by (auto simp: word_uint_eq_iff)

subsection \<open>Numbers\<close>

definition hex_byte :: "nat \<Rightarrow> byte" where
  "hex_byte d = of_char (digit_char False d)"

lemma less_16: "d < (16 :: nat) \<longleftrightarrow> d \<in> {0,1,2,3,4,5,6,7,8,9,10,11,12,13,14,15}"
  by simp presburger

lemma hex_byte_digit: "d < 16 \<Longrightarrow> is_hex (uint (hex_byte d)) \<and> hex_digit (uint (hex_byte d)) = of_nat d"
  unfolding less_16 by (auto simp: hex_byte_def digit_char_def is_hex_def hex_digit_def)

lemma shift_or: "d < 16 \<Longrightarrow> push_bit 4 h OR of_nat d = 16 * h + (of_nat d :: 64 word)"
proof -
  assume "d < 16"
  then have "take_bit 4 d = d" by (intro take_bit_nat_eq_self) simp
  then have "\<not> bit (of_nat d :: 64 word) n" if "n \<ge> 4" for n
    using that bit_take_bit_iff [of 4 d n] by (auto simp: bit_simps)
  then have "push_bit 4 h OR of_nat d = push_bit 4 h + (of_nat d :: 64 word)"
    by (intro disjunctive_add [symmetric]) (auto simp: bit_simps not_le)
  then show ?thesis by (simp add: push_bit_eq_mult mult.commute)
qed

definition hex_value :: "nat list \<Rightarrow> nat" where
  "hex_value ds = foldl (\<lambda>a d. 16 * a + d) 0 ds"

lemma get_hex_loop_reads:
  assumes "list_all (\<lambda>d. d < 16) ds" and "\<not> is_hex (uint c)" and "reads io (map hex_byte ds @ c # s)"
  shows "\<exists>io'. get_hex_loop (of_nat a) io = (uint c, of_nat (foldl (\<lambda>a d. 16 * a + d) a ds), io') \<and> reads io' s"
  using assms
proof (induction ds arbitrary: a io)
  case Nil
  then obtain io' where "GetChar io = (uint c, io')" "reads io' s" using get_char_reads by fastforce
  then show ?case using Nil by (simp add: get_hex_loop.simps [of _ io])
next
  case (Cons d ds)
  then obtain io' where io': "GetChar io = (uint (hex_byte d), io')" "reads io' (map hex_byte ds @ c # s)"
    using get_char_reads by fastforce
  have "get_hex_loop (of_nat a) io = get_hex_loop (of_nat (16 * a + d)) io'"
    using Cons.prems(1) io'(1) hex_byte_digit [of d] shift_or [of d "of_nat a"]
    by (simp add: get_hex_loop.simps [of _ io])
  then show ?case using Cons.IH [OF _ Cons.prems(2) io'(2), of "16 * a + d"] Cons.prems(1) by simp
qed

lemma render_hex_value:
  "\<exists>ds. render_nat False 16 n = map (digit_char False) ds \<and> list_all (\<lambda>d. d < 16) ds \<and> hex_value ds = n"
proof (induction n rule: less_induct)
  case (less n)
  show ?case
  proof (cases "n < 16")
    case True
    then show ?thesis by (intro exI [of _ "[n]"]) (simp add: render_nat.simps [of False 16 n] hex_value_def)
  next
    case False
    then have "n div 16 < n" by simp
    from less.IH [OF this] obtain ds where ds: "render_nat False 16 (n div 16) = map (digit_char False) ds"
        "list_all (\<lambda>d. d < 16) ds" "hex_value ds = n div 16" by blast
    then show ?thesis using False
      by (intro exI [of _ "ds @ [n mod 16]"]) (simp add: render_nat.simps [of False 16 n] hex_value_def)
  qed
qed

definition hex_text :: "64 word \<Rightarrow> byte list" where
  "hex_text w = map of_char (render_nat False 16 (unat w))"

lemma get_hex_reads:
  assumes "reads io (hex_text w @ c # s)" and "\<not> is_hex (uint c)"
  obtains io' where "GetHex io = (uint c, w, io')" "reads io' s"
proof -
  obtain ds where ds: "render_nat False 16 (unat w) = map (digit_char False) ds" "list_all (\<lambda>d. d < 16) ds"
      "hex_value ds = unat w"
    using render_hex_value by blast
  have "hex_text w = map hex_byte ds" by (simp add: hex_text_def ds(1) hex_byte_def)
  then show thesis
    using get_hex_loop_reads [OF ds(2) assms(2), of io s 0] assms(1) that ds(3)
    by (auto simp: GetHex_def hex_value_def)
qed

subsection \<open>The fields of a line\<close>

text \<open>A line as the kernel prints it; the path may be empty and is preceded by spaces.\<close>

record maps_line =
  ml_start :: "64 word"
  ml_end :: "64 word"
  ml_read :: bool
  ml_write :: bool
  ml_exec :: bool
  ml_shared :: bool
  ml_offset :: "64 word"
  ml_device :: "byte list"
  ml_inode :: "byte list"
  ml_pad :: nat
  ml_path :: "byte list"

definition perm_bytes :: "maps_line \<Rightarrow> byte list" where
  "perm_bytes l =
     [if ml_read l then of_char CHR ''r'' else 45, if ml_write l then of_char CHR ''w'' else 45,
      if ml_exec l then of_char CHR ''x'' else 45, if ml_shared l then of_char CHR ''s'' else of_char CHR ''p'']"

definition line_text :: "maps_line \<Rightarrow> byte list" where
  "line_text l = hex_text (ml_start l) @ 45 # hex_text (ml_end l) @ 32 # perm_bytes l @ 32 #
     hex_text (ml_offset l) @ 32 # ml_device l @ 32 # ml_inode l @ 32 # replicate (ml_pad l) 32 @ ml_path l @ [10]"

definition is_word :: "byte list \<Rightarrow> bool" where
  "is_word w \<longleftrightarrow> w \<noteq> [] \<and> 32 \<notin> set w \<and> 10 \<notin> set w"

definition line_ok :: "maps_line \<Rightarrow> bool" where
  "line_ok l \<longleftrightarrow> is_word (ml_device l) \<and> is_word (ml_inode l) \<and> 10 \<notin> set (ml_path l) \<and>
     (ml_path l \<noteq> [] \<longrightarrow> hd (ml_path l) \<noteq> 32)"

definition line_flags :: "maps_line \<Rightarrow> 32 word" where
  "line_flags l = (if ml_read l then PF_R else 0) + (if ml_write l then PF_W else 0) + (if ml_exec l then PF_X else 0)"

definition line_anonymous :: "maps_line \<Rightarrow> bool" where
  "line_anonymous l \<longleftrightarrow> ml_path l = [] \<or> hd (ml_path l) = 91"

definition line_is_device :: "maps_line \<Rightarrow> bool" where
  "line_is_device l \<longleftrightarrow>
     map uint (take 5 (ml_path l)) = map of_char ''/dev/'' \<and>
     \<not> (map uint (take 9 (ml_path l)) = map of_char ''/dev/zero'' \<and>
        (length (ml_path l) = 9 \<or> ml_path l ! 9 = 32))"

definition line_mapping :: "maps_line \<Rightarrow> mapping" where
  "line_mapping l =
     \<lparr>start_address = ml_start l, end_address = ml_end l, map_offset = ml_offset l, write_size = 0,
      map_flags = if line_anonymous l then line_flags l OR PF_ANONYMOUS else line_flags l\<rparr>"

lemma read_flags_word:
  assumes "reads io (cs @ 32 # s)" and "32 \<notin> set cs"
  shows "\<exists>io'. read_flags fl io = Some (foldl (\<lambda>f c. push_bit 1 f OR of_bool (c \<noteq> 45)) fl cs, io') \<and> reads io' s"
  using assms
proof (induction cs arbitrary: fl io)
  case Nil
  then obtain io' where "GetChar io = (32, io')" "reads io' s" using get_char_reads by fastforce
  then show ?case by (simp add: read_flags.simps [of fl io])
next
  case (Cons c cs)
  then obtain io' where io': "GetChar io = (uint c, io')" "reads io' (cs @ 32 # s)" using get_char_reads by fastforce
  then show ?case using Cons.IH [OF io'(2)] Cons.prems(2) by (simp add: read_flags.simps [of fl io])
qed

lemma read_flags_reads:
  assumes "reads io (perm_bytes l @ 32 # s)"
  shows "\<exists>fl io'. read_flags 0 io = Some (fl, io') \<and> drop_bit 1 fl AND PF_MASK = line_flags l \<and> reads io' s"
proof -
  let ?fl = "foldl (\<lambda>f c. push_bit 1 f OR of_bool (c \<noteq> 45)) (0 :: 32 word) (perm_bytes l)"
  have "32 \<notin> set (perm_bytes l)" by (simp add: perm_bytes_def)
  from read_flags_word [OF assms this, of 0] obtain io' where "read_flags 0 io = Some (?fl, io')" "reads io' s"
    by blast
  moreover have "drop_bit 1 ?fl AND PF_MASK = line_flags l"
    by (cases "ml_read l"; cases "ml_write l"; cases "ml_exec l"; cases "ml_shared l")
      (simp_all add: line_flags_def perm_bytes_def)
  ultimately show ?thesis by blast
qed

lemma skip_spaces_at:
  assumes "at ch io (replicate n 32 @ c # s)" and "c \<noteq> 32"
  shows "\<exists>io'. skip_spaces ch io = (uint c, io') \<and> reads io' s"
  using assms
proof (induction n arbitrary: ch io)
  case (Suc n)
  then have r: "ch = 32" "reads io (replicate n 32 @ c # s)" by simp_all
  obtain ch' io' where "GetChar io = (ch', io')" "at ch' io' (replicate n 32 @ c # s)"
    using get_char_at [OF r(2)] by auto
  then show ?case using Suc.IH [of ch' io'] Suc.prems(2) r(1) by (simp add: skip_spaces.simps [of 32 io])
qed (auto simp: skip_spaces.simps)

lemma skip_word_at:
  assumes "at ch io (w @ c # s)" and "32 \<notin> set w" and "10 \<notin> set w" and "c = 32 \<or> c = 10"
  shows "\<exists>io'. skip_word ch io = Some (uint c, io') \<and> reads io' s"
  using assms
proof (induction w arbitrary: ch io)
  case Nil
  then show ?case by (auto simp: skip_word.simps)
next
  case (Cons b w)
  then have r: "ch = uint b" "reads io (w @ c # s)" by simp_all
  obtain ch' io' where "GetChar io = (ch', io')" "at ch' io' (w @ c # s)" using get_char_at [OF r(2)] by auto
  then show ?case using Cons.IH [of ch' io'] Cons.prems r(1) by (simp add: skip_word.simps [of "uint b" io])
qed

lemma skip_line_at:
  assumes "at ch io (w @ 10 # s)" and "10 \<notin> set w"
  shows "\<exists>io'. skip_line ch io = Some io' \<and> reads io' s"
  using assms
proof (induction w arbitrary: ch io)
  case Nil
  then show ?case by (auto simp: skip_line.simps)
next
  case (Cons b w)
  then have r: "ch = uint b" "reads io (w @ 10 # s)" by simp_all
  obtain ch' io' where "GetChar io = (ch', io')" "at ch' io' (w @ 10 # s)" using get_char_at [OF r(2)] by auto
  then show ?case using Cons.IH [of ch' io'] Cons.prems r(1) by (simp add: skip_line.simps [of "uint b" io])
qed

text \<open>A field, the spaces before it and those after it.\<close>

lemma skip_field_at:
  assumes "at ch io (replicate m 32 @ w @ 32 # replicate n 32 @ c # s)" and "is_word w" and "c \<noteq> 32"
  shows "\<exists>io'. skip_field (ch, io) = Some (uint c, io') \<and> reads io' s"
proof -
  obtain b v where w: "w = b # v" "b \<noteq> 32" using assms(2) by (cases w) (auto simp: is_word_def)
  obtain i1 where 1: "skip_spaces ch io = (uint b, i1)" "reads i1 (v @ 32 # replicate n 32 @ c # s)"
    using skip_spaces_at [of ch io m b] assms(1) w by auto
  obtain i2 where 2: "skip_word (uint b) i1 = Some (32, i2)" "reads i2 (replicate n 32 @ c # s)"
    using skip_word_at [of "uint b" i1 w 32] 1(2) assms(2) w by (auto simp: is_word_def)
  have "at 32 i2 (replicate (Suc n) 32 @ c # s)" using 2(2) by simp
  from skip_spaces_at [OF this assms(3)] obtain i3 where "skip_spaces 32 i2 = (uint c, i3)" "reads i3 s"
    by blast
  then show ?thesis using 1 2 by (simp add: skip_field_def)
qed

subsection \<open>Devices\<close>

fun match_list :: "int list \<Rightarrow> byte list \<Rightarrow> int list \<times> byte list" where
  "match_list [] s = ([], s)"
| "match_list (d # dev) [] = (d # dev, [])"
| "match_list (d # dev) (c # s) = (if uint c = d then match_list dev s else (d # dev, c # s))"

lemma match_dev_at:
  assumes "at ch io (p @ 10 # r)" and "10 \<notin> set dev"
  shows "\<exists>ch' io'. match_dev dev ch io = (fst (match_list dev (p @ 10 # r)), ch', io') \<and>
     at ch' io' (snd (match_list dev (p @ 10 # r)))"
  using assms
proof (induction dev arbitrary: p ch io)
  case (Cons d dev)
  show ?case
  proof (cases p)
    case Nil
    then show ?thesis using Cons.prems by auto
  next
    case p: (Cons c p')
    then have ch: "ch = uint c" "reads io (p' @ 10 # r)" using Cons.prems(1) by simp_all
    obtain ch' io' where io': "GetChar io = (ch', io')" "at ch' io' (p' @ 10 # r)" using get_char_at [OF ch(2)] by auto
    then show ?thesis using Cons.IH [OF io'(2)] Cons.prems p ch by auto
  qed
qed simp

lemma match_list_shorter: "length (fst (match_list dev s)) \<le> length dev"
  by (induction dev s rule: match_list.induct) auto

lemma match_list_prefix:
  "n \<le> length dev \<Longrightarrow> length dev - length (fst (match_list dev s)) \<ge> n \<longleftrightarrow> map uint (take n s) = take n dev"
proof (induction dev s arbitrary: n rule: match_list.induct)
  case (2 d dev)
  then show ?case by (cases n) auto
next
  case (3 d dev c s)
  then show ?case using match_list_shorter [of dev s] by (cases n) (auto simp: Suc_diff_le)
qed simp

lemma match_list_rest:
  "snd (match_list dev s) = drop (length dev - length (fst (match_list dev s))) s"
  by (induction dev s rule: match_list.induct) (auto simp: Suc_diff_le match_list_shorter)

lemma take_before_newline:
  assumes "10 \<notin> set xs" and "length xs = n"
  shows "map uint (take n (p @ (10 :: byte) # r)) = xs \<longleftrightarrow> map uint (take n p) = xs"
proof (cases "n \<le> length p")
  case False
  then have "10 \<in> set (take n (p @ 10 # r))" by (simp add: take_Cons')
  then have "map uint (take n (p @ (10 :: byte) # r)) \<noteq> xs" using assms(1) by force
  moreover have "map uint (take n p) \<noteq> xs" using False assms(2) by auto
  ultimately show ?thesis by simp
qed simp

lemma dev_zero_laws: "length dev_zero = 9" "10 \<notin> set dev_zero" "10 \<notin> set (take 5 dev_zero)"
  "take 5 dev_zero = map of_char ''/dev/''" "dev_zero = map of_char ''/dev/zero''"
  by (simp_all add: dev_zero_def)

lemma match_dev_prefix:
  assumes "at ch io (p @ 10 # r)" and "10 \<notin> set p"
  shows "\<exists>dev ch' io' k. match_dev dev_zero ch io = (dev, ch', io') \<and> k = length dev_zero - length dev \<and>
     k \<le> length p \<and> at ch' io' (drop k p @ 10 # r) \<and> (dev = [] \<longleftrightarrow> k = 9) \<and>
     (\<forall>n \<le> 9. n \<le> k \<longleftrightarrow> map uint (take n p) = take n dev_zero)"
proof -
  define s where "s = p @ 10 # r"
  define dev where "dev = fst (match_list dev_zero s)"
  define k where "k = length dev_zero - length dev"
  have k9: "k \<le> 9" by (simp add: k_def dev_zero_laws(1))
  obtain ch' io' where m: "match_dev dev_zero ch io = (dev, ch', io')" "at ch' io' (drop k s)"
    using match_dev_at [OF assms(1) dev_zero_laws(2)] match_list_rest [of dev_zero s]
    by (auto simp: s_def dev_def k_def)
  have prefix: "n \<le> k \<longleftrightarrow> map uint (take n p) = take n dev_zero" if "n \<le> 9" for n
  proof -
    have "10 \<notin> set (take n dev_zero)" using dev_zero_laws(2) in_set_takeD by fast
    moreover have "length (take n dev_zero) = n" using that by (simp add: dev_zero_laws(1))
    moreover have "n \<le> k \<longleftrightarrow> map uint (take n s) = take n dev_zero"
      using match_list_prefix [of n dev_zero s] that by (simp add: dev_zero_laws(1) k_def dev_def)
    ultimately show ?thesis using take_before_newline [of "take n dev_zero" n p r] by (simp add: s_def)
  qed
  have "length (map uint (take k p)) = length (take k dev_zero)" using prefix [of k] k9 by simp
  then have "k \<le> length p" using k9 by (simp add: dev_zero_laws(1))
  moreover have "length dev \<le> 9" using match_list_shorter [of dev_zero s] by (simp add: dev_def dev_zero_laws(1))
  then have "length dev = 0 \<longleftrightarrow> k = 9" unfolding k_def dev_zero_laws(1) by linarith
  then have "dev = [] \<longleftrightarrow> k = 9" by simp
  ultimately show ?thesis using m prefix k_def by (intro exI [of _ dev] exI [of _ ch'] exI [of _ io'] exI [of _ k])
      (simp add: s_def)
qed

lemma match_dev_device:
  assumes "at ch io (ml_path l @ 10 # r)" and "10 \<notin> set (ml_path l)"
  shows "\<exists>dev ch' io' w. match_dev dev_zero ch io = (dev, ch', io') \<and> at ch' io' (w @ 10 # r) \<and> 10 \<notin> set w \<and>
     (length dev_zero - length dev \<ge> 5 \<and> ((ch' \<noteq> 10 \<and> ch' \<noteq> 32) \<or> dev \<noteq> []) \<longleftrightarrow> line_is_device l)"
proof -
  let ?p = "ml_path l"
  obtain dev ch' io' k where m: "match_dev dev_zero ch io = (dev, ch', io')" "k = length dev_zero - length dev"
      "k \<le> length ?p" "at ch' io' (drop k ?p @ 10 # r)" "dev = [] \<longleftrightarrow> k = 9"
      "\<forall>n \<le> 9. n \<le> k \<longleftrightarrow> map uint (take n ?p) = take n dev_zero"
    using match_dev_prefix [OF assms] by blast
  have stop: "(ch' = 10 \<or> ch' = 32) \<longleftrightarrow> length ?p = 9 \<or> ?p ! 9 = 32" if "k = 9"
  proof (cases "length ?p = 9")
    case True
    then show ?thesis using m(4) that by simp
  next
    case False
    then have l: "9 < length ?p" using m(3) that by simp
    then have "drop k ?p = ?p ! 9 # drop 10 ?p" using that by (simp add: Cons_nth_drop_Suc [symmetric])
    moreover have "?p ! 9 \<noteq> 10" using l assms(2) nth_mem by metis
    ultimately show ?thesis using m(4) False by simp
  qed
  have five: "5 \<le> k \<longleftrightarrow> map uint (take 5 ?p) = map of_char ''/dev/''" using m(6) by (simp add: dev_zero_laws(4))
  have "k = 9 \<longleftrightarrow> 9 \<le> k" using m(2) by (auto simp: dev_zero_laws(1))
  then have nine: "k = 9 \<longleftrightarrow> map uint (take 9 ?p) = map of_char ''/dev/zero''"
    using m(6) by (simp add: dev_zero_laws(1) dev_zero_laws(5))
  have "(k \<ge> 5 \<and> ((ch' \<noteq> 10 \<and> ch' \<noteq> 32) \<or> dev \<noteq> [])) \<longleftrightarrow> line_is_device l"
    unfolding line_is_device_def m(5) five [symmetric] nine [symmetric] using stop by blast
  moreover have "10 \<notin> set (drop k ?p)" using assms(2) in_set_dropD by fast
  ultimately show ?thesis using m(1,2,4)
    by (intro exI [of _ dev] exI [of _ ch'] exI [of _ io'] exI [of _ "drop k ?p"]) simp
qed

subsection \<open>Whole files\<close>

lemma not_hex: "\<not> is_hex (uint (45 :: byte))" "\<not> is_hex (uint (32 :: byte))"
  by (simp_all add: is_hex_def)

lemma parse_mapping_reads:
  assumes "reads io (line_text l @ s)" and "line_ok l"
  shows "\<exists>io'. parse_mapping io = Some (line_mapping l, line_is_device l, io') \<and> reads io' s"
proof -
  let ?tail = "ml_path l @ 10 # s"
  let ?fields = "ml_device l @ 32 # ml_inode l @ 32 # replicate (ml_pad l) 32 @ ?tail"
  have r: "reads io (hex_text (ml_start l) @ 45 # hex_text (ml_end l) @ 32 # perm_bytes l @ 32 #
      hex_text (ml_offset l) @ 32 # ?fields)"
    using assms(1) by (simp add: line_text_def)
  obtain i1 where 1: "GetHex io = (45, ml_start l, i1)" "reads i1 (hex_text (ml_end l) @ 32 # perm_bytes l @ 32 #
      hex_text (ml_offset l) @ 32 # ?fields)"
    using get_hex_reads [OF r not_hex(1)] by auto
  obtain i2 where 2: "GetHex i1 = (32, ml_end l, i2)" "reads i2 (perm_bytes l @ 32 # hex_text (ml_offset l) @ 32 # ?fields)"
    using get_hex_reads [OF 1(2) not_hex(2)] by auto
  obtain fl i3 where 3: "read_flags 0 i2 = Some (fl, i3)" "drop_bit 1 fl AND PF_MASK = line_flags l"
      "reads i3 (hex_text (ml_offset l) @ 32 # ?fields)"
    using read_flags_reads [OF 2(2)] by blast
  obtain i4 where 4: "GetHex i3 = (32, ml_offset l, i4)" "reads i4 ?fields"
    using get_hex_reads [OF 3(3) not_hex(2)] by auto
  have ok: "is_word (ml_device l)" "is_word (ml_inode l)" "10 \<notin> set (ml_path l)" "hd ?tail \<noteq> 32"
    using assms(2) by (auto simp: line_ok_def hd_append)
  obtain b v where inode: "ml_inode l = b # v" "b \<noteq> 32" using ok(2) by (cases "ml_inode l") (auto simp: is_word_def)
  obtain c w where tail: "?tail = c # w" "c \<noteq> 32" using ok(4) by (cases ?tail) auto
  have "at 32 i4 (replicate 1 32 @ ml_device l @ 32 # replicate 0 32 @ b # v @ 32 # replicate (ml_pad l) 32 @ c # w)"
    using 4(2) inode tail by simp
  from skip_field_at [OF this ok(1) inode(2)] obtain i5 where
    5: "skip_field (32, i4) = Some (uint b, i5)" "reads i5 (v @ 32 # replicate (ml_pad l) 32 @ c # w)" by blast
  then have "at (uint b) i5 (replicate 0 32 @ ml_inode l @ 32 # replicate (ml_pad l) 32 @ c # w)" using inode by simp
  from skip_field_at [OF this ok(2) tail(2)] obtain i6 where
    6: "skip_field (uint b, i5) = Some (uint c, i6)" "reads i6 w" by blast
  have "at (uint c) i6 ?tail" using 6(2) tail by simp
  from match_dev_device [OF this ok(3)] obtain dev ch' i7 x where
    7: "match_dev dev_zero (uint c) i6 = (dev, ch', i7)" "at ch' i7 (x @ 10 # s)" "10 \<notin> set x"
      "length dev_zero - length dev \<ge> 5 \<and> ((ch' \<noteq> 10 \<and> ch' \<noteq> 32) \<or> dev \<noteq> []) \<longleftrightarrow> line_is_device l"
    by blast
  obtain i8 where 8: "skip_line ch' i7 = Some i8" "reads i8 s" using skip_line_at [OF 7(2,3)] by blast
  have anon: "(uint c = 10 \<or> uint c = 91) \<longleftrightarrow> line_anonymous l"
    using tail(1) ok(3) by (cases "ml_path l") (auto simp: line_anonymous_def)
  show ?thesis
    using 1(1) 2(1) 3(1,2) 4(1) 5(1) 6(1) 7(1,4) 8 anon
    by (intro exI [of _ i8]) (simp add: parse_mapping_def line_mapping_def)
qed

text \<open>The mappings that are kept, in terms of the lines.\<close>

fun kept_mappings :: "pages \<Rightarrow> 64 word \<Rightarrow> maps_line list \<Rightarrow> mapping list res" where
  "kept_mappings pages pagesize [] = Inr []"
| "kept_mappings pages pagesize (l # ls) =
     bindr (trim_mapping pages pagesize (line_mapping l) (line_is_device l)) (\<lambda>kept.
     bindr (kept_mappings pages pagesize ls) (\<lambda>ms.
       Inr (case kept of None \<Rightarrow> ms | Some m \<Rightarrow> m # ms)))"

lemma line_text_newlines: "line_ok l \<Longrightarrow> length (filter (\<lambda>b. b = 10) (line_text l)) = 1"
proof -
  assume ok: "line_ok l"
  have hex: "10 \<notin> set (hex_text w)" for w
  proof -
    obtain ds where ds: "render_nat False 16 (unat w) = map (digit_char False) ds" "list_all (\<lambda>d. d < 16) ds"
      using render_hex_value by blast
    have "of_char (digit_char False d) \<noteq> (10 :: byte)" if "d < 16" for d
      using that unfolding less_16 by (auto simp: digit_char_def)
    then show ?thesis using ds(2) by (auto simp: hex_text_def ds(1) list_all_iff)
  qed
  have none: "filter (\<lambda>b. b = 10) w = []" if "10 \<notin> set w" for w :: "byte list"
    using that by (simp add: filter_empty_conv) blast
  have "10 \<notin> set (perm_bytes l)" by (simp add: perm_bytes_def)
  moreover have "10 \<notin> set (ml_device l)" "10 \<notin> set (ml_inode l)" "10 \<notin> set (ml_path l)"
    using ok by (auto simp: line_ok_def is_word_def)
  moreover have "10 \<notin> set (replicate (ml_pad l) (32 :: byte))" by simp
  ultimately show ?thesis by (simp add: line_text_def none hex)
qed

lemma count_lines_reads:
  "reads io s \<Longrightarrow> count_lines n io = (n + length (filter (\<lambda>b. b = 10) s), False)"
proof (induction s arbitrary: n io)
  case Nil
  then obtain io' where "GetChar io = (-1, io')" "io_errno io' = 0" using get_char_end by blast
  then show ?case by (simp add: count_lines.simps [of n io])
next
  case (Cons b s)
  obtain io' where "GetChar io = (uint b, io')" "reads io' s" using get_char_reads [OF Cons.prems] by blast
  then show ?case using Cons.IH by (simp add: count_lines.simps [of n io])
qed

lemma count_maps:
  assumes "reads io (concat (map line_text ls))" and "list_all line_ok ls"
  shows "count_lines 0 io = (length ls, False)"
proof -
  have "length (filter (\<lambda>b. b = 10) (concat (map line_text ls))) = length ls"
    using assms(2) by (induction ls) (simp_all add: line_text_newlines)
  then show ?thesis using count_lines_reads [OF assms(1), of 0] by simp
qed

lemma read_mappings_reads:
  assumes "reads io (concat (map line_text ls))" and "list_all line_ok ls"
  shows "read_mappings pages pagesize (length ls) io = bindr (kept_mappings pages pagesize ls) (\<lambda>ms. Inr (Some ms))"
  using assms
proof (induction ls arbitrary: io)
  case (Cons l ls)
  then have r: "reads io (line_text l @ concat (map line_text ls))" and ok: "line_ok l" "list_all line_ok ls" by simp_all
  obtain io' where io': "parse_mapping io = Some (line_mapping l, line_is_device l, io')"
      "reads io' (concat (map line_text ls))"
    using parse_mapping_reads [OF r ok(1)] by blast
  show ?case
    by (cases "trim_mapping pages pagesize (line_mapping l) (line_is_device l)"; cases "kept_mappings pages pagesize ls")
      (simp_all add: io'(1) Cons.IH [OF io'(2) ok(2)])
qed simp

text \<open>C15: The lines the kernel prints are read back exactly, however the file arrives in pieces: as
  many are counted as there are, and the mappings are those of the lines with their addresses,
  access bits and offsets, leaving out what cannot or need not be dumped.\<close>

theorem maps_read_back:
  assumes "reads io (concat (map line_text ls))" and "list_all line_ok ls"
  shows "count_lines 0 io = (length ls, False) \<and>
     read_mappings pages pagesize (length ls) io = bindr (kept_mappings pages pagesize ls) (\<lambda>ms. Inr (Some ms))"
  using count_maps [OF assms] read_mappings_reads [OF assms] by blast

definition sample_lines :: "maps_line list" where
  "sample_lines =
     [\<lparr>ml_start = 0x1000, ml_end = 0x3000, ml_read = True, ml_write = True, ml_exec = False, ml_shared = False,
       ml_offset = 0, ml_device = map of_char ''00:00'', ml_inode = [48], ml_pad = 3, ml_path = map of_char ''[heap]''\<rparr>,
      \<lparr>ml_start = 0x5000, ml_end = 0x6000, ml_read = True, ml_write = True, ml_exec = False, ml_shared = True,
       ml_offset = 0, ml_device = map of_char ''03:00'', ml_inode = [55], ml_pad = 1, ml_path = map of_char ''/dev/dri''\<rparr>]"

definition sample_maps :: "answer list \<Rightarrow> maps_io" where
  "sample_maps answers =
     \<lparr>io_fd = \<lparr>sr_left = concat (map line_text sample_lines), sr_answers = answers\<rparr>, io_unread = [], io_errno = 0\<rparr>"

lemma maps_read_back_witness:
  "count_lines 0 (sample_maps [Moves 5, Fails EINTR, Moves 1]) = (2, False) \<and>
   read_mappings (\<lambda>a i. Some [1, 1, 1, 1]) 4 2 (sample_maps [Moves 5, Fails EINTR, Moves 1]) =
     Inr (Some [\<lparr>start_address = 0x1000, end_address = 0x3000, map_offset = 0, write_size = 0x2000,
                 map_flags = 0x80000006\<rparr>])"
proof -
  let ?io = "sample_maps [Moves 5, Fails EINTR, Moves 1]"
  have r: "reads ?io (concat (map line_text sample_lines))" by (simp add: reads_def sample_maps_def gives_def)
  have ok: "list_all line_ok sample_lines" by (simp add: sample_lines_def line_ok_def is_word_def)
  have "kept_mappings (\<lambda>a i. Some [1, 1, 1, 1]) 4 sample_lines =
      Inr [\<lparr>start_address = 0x1000, end_address = 0x3000, map_offset = 0, write_size = 0x2000, map_flags = 0x80000006\<rparr>]"
    by (simp add: sample_lines_def line_mapping_def line_flags_def line_anonymous_def line_is_device_def
        trim_mapping_def LeadingZeros_def zeros_loop.simps)
  moreover have "length sample_lines = 2" by (simp add: sample_lines_def)
  ultimately show ?thesis using maps_read_back [OF r ok] by simp
qed

end
