(* ===== verification/CoreDump.thy ===== *)
theory CoreDump
  imports CoreLayout MapsText
    "HOL-Library.Multiset"
begin

text \<open>
  Whole core dumps: the file a successful \<open>CreateElfCore\<close> leaves and what a debugger reads back
  from it, the files of limited dumps, and when a dump succeeds.
\<close>

unbundle bit_operations_syntax

section \<open>What is written\<close>

lemma length_auxv_entries: "length (auxv_entries env n) \<le> n"
  by (simp add: auxv_entries_def split: option.splits)

text \<open>The mappings as they are written, and the padding in front of them.\<close>

definition final_mappings :: "core_args \<Rightarrow> nat \<Rightarrow> Phdr list \<Rightarrow> 64 word \<Rightarrow> mapping list \<Rightarrow> mapping list" where
  "final_mappings ca num_auxv extra align ms =
     limit_mappings ca (first_offset ms extra + align) (notes_size ca num_auxv) extra ms"

definition complete_chunks :: "core_env \<Rightarrow> core_args \<Rightarrow> nat \<Rightarrow> Phdr list \<Rightarrow> 64 word \<Rightarrow> mapping list \<Rightarrow> byte list list" where
  "complete_chunks env ca num_auxv extra align ms =
     core_chunks (env_memory env) ca (auxv_entries env num_auxv) (first_offset ms extra) (notes_size ca num_auxv) align
       (final_mappings ca num_auxv extra align ms) extra"

definition complete_file :: "core_env \<Rightarrow> core_args \<Rightarrow> nat \<Rightarrow> Phdr list \<Rightarrow> 64 word \<Rightarrow> mapping list \<Rightarrow> byte list" where
  "complete_file env ca num_auxv extra align ms =
     core_file (env_memory env) ca (auxv_entries env num_auxv) align (final_mappings ca num_auxv extra align ms) extra"

lemma first_offset_final [simp]: "first_offset (final_mappings ca n extra align ms) extra = first_offset ms extra"
  by (simp add: first_offset_def final_mappings_def)

lemma complete_bytes:
  assumes "args_ok ca" and "num_auxv \<le> length (auxv_entries env num_auxv)"
  shows "concat (complete_chunks env ca num_auxv extra align ms) = complete_file env ca num_auxv extra align ms"
proof -
  have "length (auxv_entries env num_auxv) = num_auxv" using assms(2) length_auxv_entries by (rule le_antisym [rotated])
  then show ?thesis by (simp add: complete_chunks_def complete_file_def core_chunks_bytes [OF assms(1)] core_file_def)
qed

lemma create_seq:
  assumes "gather env (arg_pagesize ca) = Inr (Some (ms, vdso, num_auxv))"
    and "num_auxv \<le> length (auxv_entries env num_auxv)"
    and "extra = vdso_extra (env_memory env) vdso"
    and "note_align (arg_pagesize ca) (first_offset ms extra) (notes_size ca num_auxv) = Inr align"
    and "write_seq writer (complete_chunks env ca num_auxv extra align ms) s = (ok, s')"
  shows "CreateElfCore writer is_done env ca s = Inr (if ok \<or> is_done s' then 0 else -1, s')"
  using core_seq [OF assms(2,4) refl assms(3), of writer s] assms(5)
  by (simp add: CreateElfCore_def assms(1) complete_chunks_def final_mappings_def)

lemma created_file:
  assumes "gather env (arg_pagesize ca) = Inr (Some (ms, vdso, num_auxv))"
    and "CreateElfCore SimpleWriter SimpleDone env ca s = Inr (0, s')" and "args_ok ca"
  shows "\<exists>align. note_align (arg_pagesize ca) (first_offset ms (vdso_extra (env_memory env) vdso)) (notes_size ca num_auxv) = Inr align \<and>
     num_auxv \<le> length (auxv_entries env num_auxv) \<and>
     sk_data s' = sk_data s @ complete_file env ca num_auxv (vdso_extra (env_memory env) vdso) align ms"
proof -
  let ?extra = "vdso_extra (env_memory env) vdso"
  have "arg_pagesize ca \<noteq> 0" using assms(3) by (simp add: args_ok_def)
  then obtain align where align: "note_align (arg_pagesize ca) (first_offset ms ?extra) (notes_size ca num_auxv) = Inr align"
    by (simp add: note_align_def Let_def)
  have written: "write_core SimpleWriter env ca ms vdso num_auxv s = Inr (True, s')"
    using assms(2) by (auto simp: CreateElfCore_def assms(1) SimpleDone_def res_simps split: prod.splits if_splits)
  have enough: "num_auxv \<le> length (auxv_entries env num_auxv)"
  proof (rule ccontr)
    assume few: "\<not> num_auxv \<le> length (auxv_entries env num_auxv)"
    obtain al s1 where "write_body SimpleWriter env ca ?extra num_auxv (first_offset ms ?extra) (notes_size ca num_auxv) al ms s1 = (True, s')"
      using written by (auto simp: write_core_def Let_def res_simps first_offset_def simp del: write_seq.simps
          split: prod.splits if_splits)
    then show False using body_unfinished [OF few] by (metis fst_conv)
  qed
  have "write_seq SimpleWriter (complete_chunks env ca num_auxv ?extra align ms) s = (True, s')"
    using core_seq [OF enough align refl refl, of SimpleWriter s] written
    by (simp add: complete_chunks_def final_mappings_def)
  from plain.seq_prefix [OF this] have "sk_data s' = sk_data s @ concat (complete_chunks env ca num_auxv ?extra align ms)" by auto
  then show ?thesis using align enough complete_bytes [OF assms(3) enough] by auto
qed

section \<open>The layout of a file\<close>

lemma limit_mappings_cut: "cut_down ms (limit_mappings ca offset filesz extra ms) \<and>
   (arg_prioritize ca = 0 \<longrightarrow> limit_mappings ca offset filesz extra ms = ms)"
  by (simp add: limit_mappings_def prioritize_cuts cut_down_refl)

text \<open>C1: A finished core file is laid out as its headers say: it begins with the ELF header; every
  mapping has a loadable segment whose header gives its address, size and access, and where the
  header points, the file has the memory of the mapping; the other headers of the vdso point at
  its memory. The mappings are those of the process, only cut down when the file is limited by
  priority.\<close>

theorem core_file_layout:
  assumes "gather env (arg_pagesize ca) = Inr (Some (ms, vdso, num_auxv))"
    and "CreateElfCore SimpleWriter SimpleDone env ca s = Inr (0, s')" and "args_ok ca"
    and "length (sk_data s') < 2 ^ 64" and "extra = vdso_extra (env_memory env) vdso"
  shows "\<exists>f final. sk_data s' = sk_data s @ f \<and> cut_down ms final \<and> (arg_prioritize ca = 0 \<longrightarrow> final = ms) \<and>
     take 64 f = ehdr_bytes (core_ehdr (length ms) (length extra)) \<and>
     (\<forall>i < length ms.
        core_phdr f (i + 1) = mapping_phdr (arg_pagesize ca) (p_offset (core_phdr f (i + 1))) (final ! i) \<and>
        core_contents f (core_phdr f (i + 1)) =
          bytes_at (env_memory env) (start_address (final ! i)) (unat (write_size (final ! i)))) \<and>
     (\<forall>i < length extra.
        core_phdr f (length ms + 1 + i) =
          (extra ! i)\<lparr>p_offset := p_offset (core_phdr f (length ms + 1 + i)), p_paddr := 0\<rparr> \<and>
        core_contents f (core_phdr f (length ms + 1 + i)) =
          bytes_at (env_memory env) (p_vaddr (extra ! i)) (unat (p_filesz (extra ! i))))"
proof -
  obtain align where align: "sk_data s' = sk_data s @ complete_file env ca num_auxv extra align ms"
    using created_file [OF assms(1-3)] assms(5) by blast
  let ?f = "complete_file env ca num_auxv extra align ms"
  let ?final = "final_mappings ca num_auxv extra align ms"
  have len: "length ?f < 2 ^ 64" using assms(4) align by simp
  have same: "length ?final = length ms" by (simp add: final_mappings_def)
  note segments = core_file_segments [OF complete_file_def len assms(3)]
  have "take 64 ?f = ehdr_bytes (core_ehdr (length ms) (length extra))"
    using core_bytes_head same unfolding complete_file_def core_file_def by metis
  moreover have "cut_down ms ?final \<and> (arg_prioritize ca = 0 \<longrightarrow> ?final = ms)"
    unfolding final_mappings_def by (rule limit_mappings_cut)
  ultimately show ?thesis
    using align segments by (intro exI [of _ ?f] exI [of _ ?final]) (simp add: same segment_def vdso_segment_def)
qed

section \<open>The notes are read back\<close>

text \<open>The reader of a note segment, as debuggers have it.\<close>

function read_notes :: "byte list \<Rightarrow> core_note list option" where
  "read_notes bs =
     (if bs = [] then Some []
      else if length bs < 12 then None
      else let mem = file_memory (take 12 bs);
               namesz = unat (load mem 0 4 :: 32 word); descsz = unat (load mem 4 4 :: 32 word);
               body = drop 12 bs;
               desc = drop (namesz + padding namesz) body
           in map_option ((#) (take namesz body, load mem 8 4, take descsz desc))
                (read_notes (drop (descsz + padding descsz) desc)))"
  by pat_completeness auto

termination
  by (relation "measure length") auto

declare read_notes.simps [simp del]

definition note_fits :: "core_note \<Rightarrow> bool" where
  "note_fits = (\<lambda>(name, type, desc). length name < 2 ^ 32 \<and> length desc < 2 ^ 32)"

lemma nhdr_read:
  assumes "note_fits (name, type, desc)"
  shows "let mem = file_memory (nhdr_bytes \<lparr>n_namesz = of_nat (length name), n_descsz = of_nat (length desc), n_type = type\<rparr>)
     in unat (load mem 0 4 :: 32 word) = length name \<and> unat (load mem 4 4 :: 32 word) = length desc \<and> load mem 8 4 = type"
proof -
  let ?h = "\<lparr>n_namesz = of_nat (length name), n_descsz = of_nat (length desc), n_type = type\<rparr>"
  have s: "(12 :: nat) = 4 + (4 + 4)" by simp
  have "bytes_at (file_memory (nhdr_bytes ?h)) (of_nat 0) 12 = take 12 (drop 0 (nhdr_bytes ?h))"
    by (rule file_bytes_at) simp_all
  then have "bytes_at (file_memory (nhdr_bytes ?h)) 0 12 = nhdr_bytes ?h" by simp
  then have "bytes_at (file_memory (nhdr_bytes ?h)) 0 4 = le 4 (n_namesz ?h)"
      "bytes_at (file_memory (nhdr_bytes ?h)) 4 4 = le 4 (n_descsz ?h)"
      "bytes_at (file_memory (nhdr_bytes ?h)) 8 4 = le 4 (n_type ?h)"
    unfolding s bytes_at_append by (simp_all add: nhdr_bytes_def add.assoc)
  moreover have "unat (of_nat n :: 32 word) = n" if "n < 2 ^ 32" for n
    using that by (intro le_unat_uoi [of _ "0xFFFFFFFF"]) simp
  ultimately show ?thesis
    using assms by (simp add: Let_def load_le note_fits_def take_bit_word_eq_self)
qed

lemma read_notes_Cons:
  assumes "note_fits (name, type, desc)"
  shows "read_notes (note_bytes (name, type, desc) @ rest) = map_option ((#) (name, type, desc)) (read_notes rest)"
proof -
  define h where "h = nhdr_bytes \<lparr>n_namesz = of_nat (length name), n_descsz = of_nat (length desc), n_type = type\<rparr>"
  let ?b = "h @ name @ replicate (padding (length name)) 0 @ desc @ replicate (padding (length desc)) 0 @ rest"
  have bytes: "note_bytes (name, type, desc) @ rest = ?b"
    by (simp add: note_bytes_def note_chunks_def h_def)
  have "length h = 12" "h \<noteq> []" by (auto simp: h_def nhdr_bytes_def le_def)
  then show ?thesis
    using nhdr_read [OF assms, folded h_def] unfolding bytes by (subst read_notes.simps) (simp add: Let_def)
qed

lemma read_notes_bytes: "list_all note_fits ns \<Longrightarrow> read_notes (concat (map note_bytes ns)) = Some ns"
proof (induction ns)
  case (Cons n ns)
  then show ?case by (cases n) (simp add: read_notes_Cons)
qed (simp add: read_notes.simps)

lemma core_notes_fit:
  assumes "args_ok ca" and "16 * length es < 2 ^ 32"
  shows "list_all note_fits (core_notes ca es)"
proof -
  have "length (prstatus_bytes (ps\<lparr>pr_pid := t_pid t, pr_reg := t_regs t\<rparr>)) = 336 \<and> length (t_fpregs t) = 512"
    if "t \<in> set (dump_order ca)" for ps t
  proof -
    have "t \<in> set (arg_threads ca)" using that dump_order_threads by blast
    then have "length (t_regs t) = 216" "length (t_fpregs t) = 512" using assms(1) by (simp_all add: args_ok_def list_all_iff)
    then show ?thesis by simp
  qed
  then have "list_all note_fits (concat (map (thread_notes ps) (dump_order ca)))" for ps
    by (auto simp: list_all_iff thread_notes_def note_fits_def CORE_def)
  moreover have "unat w < 2 ^ 32" for w :: "32 word"
    by (rule order.strict_trans2 [OF unsigned_less]) simp
  then have "list_all note_fits (map extra_note (arg_notes ca))"
    using assms(1) by (auto simp: args_ok_def list_all_iff note_fits_def extra_note_def)
  ultimately show ?thesis
    using assms by (auto simp: core_notes_def process_notes_def auxv_notes_def note_fits_def CORE_def args_ok_def
        length_auxv_bytes split: option.splits)
qed

lemma dump_order_mset: "args_ok ca \<Longrightarrow> mset (dump_order ca) = mset (arg_threads ca)"
proof -
  let ?P = "\<lambda>t. t_pid t = arg_main_pid ca"
  assume "args_ok ca"
  then have few: "length (filter ?P (arg_threads ca)) \<le> 1" by (simp add: args_ok_def)
  have "filter ?P (arg_threads ca) = (case crashed_thread ca of None \<Rightarrow> [] | Some t \<Rightarrow> [t])"
  proof (cases "crashed_thread ca")
    case None
    then have "filter ?P (arg_threads ca) = []" by (auto simp: crashed_thread_def find_None_iff filter_empty_conv)
    then show ?thesis by (simp add: None)
  next
    case (Some t)
    then have "t \<in> set (filter ?P (arg_threads ca))"
      using find_in_set [of ?P "rev (arg_threads ca)" t] by (simp add: crashed_thread_def)
    then show ?thesis using few Some by (cases "filter ?P (arg_threads ca)") auto
  qed
  then have "mset (dump_order ca) = mset (filter ?P (arg_threads ca)) + mset (filter (\<lambda>t. \<not> ?P t) (arg_threads ca))"
    by (simp add: dump_order_def other_threads_def rev_filter [symmetric])
  then show ?thesis by (metis mset_filter multiset_partition)
qed

lemma crashed_first:
  assumes "args_ok ca" and "t \<in> set (arg_threads ca)" and "t_pid t = arg_main_pid ca"
  shows "hd (dump_order ca) = t"
proof -
  have few: "length (filter (\<lambda>t. t_pid t = arg_main_pid ca) (arg_threads ca)) \<le> 1" using assms(1) by (simp add: args_ok_def)
  obtain u where u: "crashed_thread ca = Some u"
    using assms(2,3) by (cases "crashed_thread ca") (auto simp: crashed_thread_def find_None_iff)
  then have "{t, u} \<subseteq> set (filter (\<lambda>t. t_pid t = arg_main_pid ca) (arg_threads ca))"
    using assms find_in_set [of "\<lambda>t. t_pid t = arg_main_pid ca" "rev (arg_threads ca)" u] by (simp add: crashed_thread_def)
  then have "t = u" using few by (cases "filter (\<lambda>t. t_pid t = arg_main_pid ca) (arg_threads ca)") auto
  then show ?thesis using u by (simp add: dump_order_def)
qed

text \<open>C3: The first program header of a finished core file delimits its notes, and a reader of notes
  gets them all back: the process, the auxiliary vector, the state and the registers of every
  thread exactly once with the thread that crashed first, and the notes of the caller.\<close>

theorem core_notes_read_back:
  assumes "gather env (arg_pagesize ca) = Inr (Some (ms, vdso, num_auxv))"
    and "CreateElfCore SimpleWriter SimpleDone env ca s = Inr (0, s')" and "args_ok ca"
    and "length (sk_data s') < 2 ^ 64" and "16 * num_auxv < 2 ^ 32"
  shows "\<exists>f. sk_data s' = sk_data s @ f \<and> p_type (core_phdr f 0) = PT_NOTE \<and>
     read_notes (core_contents f (core_phdr f 0)) =
       Some (process_notes ca @ auxv_notes (auxv_entries env num_auxv) @
         concat (map (thread_notes (arg_prstatus ca)) (dump_order ca)) @ map extra_note (arg_notes ca)) \<and>
     mset (dump_order ca) = mset (arg_threads ca) \<and>
     (\<forall>t \<in> set (arg_threads ca). t_pid t = arg_main_pid ca \<longrightarrow> hd (dump_order ca) = t)"
proof -
  let ?extra = "vdso_extra (env_memory env) vdso"
  obtain align where align: "sk_data s' = sk_data s @ complete_file env ca num_auxv ?extra align ms"
    using created_file [OF assms(1-3)] by blast
  let ?f = "complete_file env ca num_auxv ?extra align ms"
  have len: "length ?f < 2 ^ 64" using assms(4) align by simp
  have "16 * length (auxv_entries env num_auxv) < 2 ^ 32"
    using assms(5) length_auxv_entries [of env num_auxv] by linarith
  note read = read_notes_bytes [OF core_notes_fit [OF assms(3) this]]
  note first = core_file_notes [OF complete_file_def len assms(3)]
  have "read_notes (core_contents ?f (core_phdr ?f 0)) = Some (core_notes ca (auxv_entries env num_auxv))"
    by (simp only: first [THEN conjunct2] read)
  moreover have "p_type (core_phdr ?f 0) = PT_NOTE" using first by (simp add: note_phdr_def)
  ultimately show ?thesis
    unfolding core_notes_def using align dump_order_mset [OF assms(3)] crashed_first [OF assms(3)]
    by (intro exI [of _ ?f]) blast
qed

section \<open>Limited files\<close>

lemma limited_dump:
  assumes "gather env (arg_pagesize ca) = Inr (Some (ms, vdso, num_auxv))"
    and "CreateElfCore SimpleWriter SimpleDone env ca s = Inr (0, s')" and "args_ok ca"
    and "sk_answers (out_fd fds) = []"
  shows "\<exists>f fds'. sk_data s' = sk_data s @ f \<and> CreateElfCore LimitWriter PipeDone env ca fds = Inr (0, fds') \<and>
     sk_data (out_fd fds') = sk_data (out_fd fds) @ take (unat (max_length fds)) f"
proof -
  let ?extra = "vdso_extra (env_memory env) vdso"
  obtain align where align: "note_align (arg_pagesize ca) (first_offset ms ?extra) (notes_size ca num_auxv) = Inr align"
      "num_auxv \<le> length (auxv_entries env num_auxv)"
      "sk_data s' = sk_data s @ complete_file env ca num_auxv ?extra align ms"
    using created_file [OF assms(1-3)] by blast
  obtain ok fds' where w: "write_seq LimitWriter (complete_chunks env ca num_auxv ?extra align ms) fds = (ok, fds')"
    by (cases "write_seq LimitWriter (complete_chunks env ca num_auxv ?extra align ms) fds")
  note outcome = limited_seq [OF w assms(4)]
  have "ok \<or> PipeDone fds'" using outcome by (simp add: PipeDone_def unat_eq_zero [symmetric] linear)
  then have "CreateElfCore LimitWriter PipeDone env ca fds = Inr (0, fds')"
    using create_seq [OF assms(1) align(2) refl align(1) w] by simp
  then show ?thesis using align(3) outcome complete_bytes [OF assms(3) align(2)] by auto
qed



section \<open>When a dump succeeds\<close>

text \<open>A kernel whose answers all give something (\<open>gives\<close>) lets every write finish.\<close>

lemma write_no_intr_gives:
  assumes "list_all gives (sk_answers s)" and "bs \<noteq> []"
  shows "\<exists>n s'. write_no_intr bs s = (Inr n, s') \<and> n > 0 \<and> list_all gives (sk_answers s')"
  using assms
proof (induction bs s rule: write_no_intr.induct)
  case (1 bs s)
  show ?case
  proof (cases "sk_answers s")
    case Nil
    then show ?thesis using 1(3) by (simp add: write_no_intr.simps [of bs s] sys_write_def)
  next
    case (Cons a as)
    show ?thesis
    proof (cases a)
      case (Moves k)
      then show ?thesis
        using 1(2,3) Cons by (simp add: write_no_intr.simps [of bs s] sys_write_def gives_def)
    next
      case (Fails e)
      then have "e = EINTR" "sys_write bs s = (Inl e, s\<lparr>sk_answers := as\<rparr>)"
        using 1(2) Cons by (simp_all add: sys_write_def gives_def)
      then show ?thesis
        using 1(1) [of "Inl e" "s\<lparr>sk_answers := as\<rparr>" e] 1(2,3) Cons by (simp add: write_no_intr.simps [of bs s])
    qed
  qed
qed

lemma c_write_gives:
  "list_all gives (sk_answers s) \<Longrightarrow>
     \<exists>s'. c_write bs s = (Inr (length bs), s') \<and> list_all gives (sk_answers s')"
proof (induction bs arbitrary: s rule: length_induct)
  case (1 bs)
  show ?case
  proof (cases "bs = []")
    case False
    obtain n t where n: "write_no_intr bs s = (Inr n, t)" "n > 0" "list_all gives (sk_answers t)"
      using write_no_intr_gives [OF 1(2) False] by blast
    have "n \<le> length bs" using write_no_intr_moves [OF n(1)] by blast
    moreover obtain u where "c_write (drop n bs) t = (Inr (length (drop n bs)), u)" "list_all gives (sk_answers u)"
      using 1(1) n(2,3) False by (metis length_drop length_greater_0_conv diff_less)
    ultimately show ?thesis using n False by (simp add: c_write.simps [of bs s])
  qed (use 1(2) in \<open>simp add: c_write.simps\<close>)
qed

lemma simple_seq_gives:
  "list_all gives (sk_answers s) \<Longrightarrow> \<exists>s'. write_seq SimpleWriter cs s = (True, s')"
proof (induction cs arbitrary: s)
  case (Cons c cs)
  obtain t where "SimpleWriter c s = (Inr (length c), t)" "list_all gives (sk_answers t)"
    using c_write_gives [OF Cons.prems] by (auto simp: SimpleWriter_def)
  then show ?case using Cons.IH by simp
qed simp

definition whole_pages :: "pages \<Rightarrow> 64 word \<Rightarrow> bool" where
  "whole_pages pages pagesize \<longleftrightarrow> (\<forall>a i b. pages a i = Some b \<longrightarrow> length b = unat pagesize)"

lemma leading_zeros_returns:
  assumes "whole_pages pages pagesize" and "pagesize \<noteq> 0"
  shows "\<exists>z. LeadingZeros (pages a) len pagesize = Inr z"
proof -
  have "zeros_until (pages a) (unat len) (unat pagesize) 0 (zeros_loop (pages a) (unat len) (unat pagesize) 0 [])"
    by (rule zeros_loop_exact) (use assms in \<open>auto simp: whole_pages_def unat_gt_0\<close>)
  then show ?thesis by (auto simp: zeros_until_def LeadingZeros_def)
qed

lemma kept_mappings_returns:
  assumes "whole_pages pages pagesize" and "pagesize \<noteq> 0"
  shows "\<exists>ms. kept_mappings pages pagesize ls = Inr ms"
proof (induction ls)
  case (Cons l ls)
  have "\<exists>k. trim_mapping pages pagesize (line_mapping l) (line_is_device l) = Inr k"
    using leading_zeros_returns [OF assms] by (auto simp: trim_mapping_def Let_def res_simps)
  then show ?case using Cons by auto
qed simp

lemma count_entries_le: "fst (count_entries es n vdso) \<le> n + length es"
  by (induction es n vdso rule: count_entries.induct) (auto simp: Let_def)

definition healthy :: "core_env \<Rightarrow> 64 word \<Rightarrow> maps_line list \<Rightarrow> bool" where
  "healthy env pagesize ls \<longleftrightarrow> env_pipe env \<and>
     (\<exists>io io'. env_maps env = Some io \<and> env_maps_again env = Some io' \<and>
        reads io (concat (map line_text ls)) \<and> reads io' (concat (map line_text ls))) \<and>
     list_all line_ok ls \<and> env_auxv_again env = env_auxv env \<and>
     whole_pages (env_pages env) pagesize \<and> pagesize \<noteq> 0"

lemma healthy_dump:
  assumes "healthy env (arg_pagesize ca) ls" and "list_all gives (sk_answers s)"
  shows "\<exists>ms vdso num_auxv s'. kept_mappings (env_pages env) (arg_pagesize ca) ls = Inr ms \<and>
     gather env (arg_pagesize ca) = Inr (Some (ms, vdso, num_auxv)) \<and>
     CreateElfCore SimpleWriter SimpleDone env ca s = Inr (0, s')"
proof -
  obtain io io' where maps: "env_maps env = Some io" "env_maps_again env = Some io'"
      "reads io (concat (map line_text ls))" "reads io' (concat (map line_text ls))" "list_all line_ok ls"
    using assms(1) by (auto simp: healthy_def)
  have env: "env_pipe env" "env_auxv_again env = env_auxv env" "arg_pagesize ca \<noteq> 0"
      "whole_pages (env_pages env) (arg_pagesize ca)"
    using assms(1) by (auto simp: healthy_def)
  obtain ms where ms: "kept_mappings (env_pages env) (arg_pagesize ca) ls = Inr ms"
    using kept_mappings_returns [OF env(4,3)] by blast
  obtain n v where auxv: "CountAUXV (env_auxv env) = (n, v)" by (cases "CountAUXV (env_auxv env)")
  have enough: "n \<le> length (auxv_entries env n)"
    using count_entries_le [of _ 0 0] auxv env(2)
    by (cases "env_auxv env") (auto simp: CountAUXV_def auxv_entries_def, metis add_0 fst_conv)
  have gathered: "gather env (arg_pagesize ca) = Inr (Some (ms, check_vdso (env_memory env) ms v, n))"
    using count_maps [OF maps(3,5)] read_mappings_reads [OF maps(4,5)] by (simp add: gather_def env maps(1,2) auxv ms)
  obtain align where align: "note_align (arg_pagesize ca)
      (first_offset ms (vdso_extra (env_memory env) (check_vdso (env_memory env) ms v))) (notes_size ca n) = Inr align"
    using env(3) by (simp add: note_align_def Let_def)
  obtain s' where "write_seq SimpleWriter (complete_chunks env ca n
      (vdso_extra (env_memory env) (check_vdso (env_memory env) ms v)) align ms) s = (True, s')"
    using simple_seq_gives [OF assms(2)] by blast
  from create_seq [OF gathered enough refl align this, of SimpleDone] show ?thesis using ms gathered by auto
qed


text \<open>C11: A dump of a healthy process comes to its end: when the kernel prints the mappings and hands
  out their pages, answers every read and write with something (interruptions included), and
  reading the auxiliary vector twice gives the same, \<open>CreateElfCore\<close> returns success, with the
  mappings of the lines.\<close>

theorem core_dump_completes:
  assumes "healthy env (arg_pagesize ca) ls" and "list_all gives (sk_answers s)"
  shows "\<exists>ms vdso num_auxv s'. kept_mappings (env_pages env) (arg_pagesize ca) ls = Inr ms \<and>
     gather env (arg_pagesize ca) = Inr (Some (ms, vdso, num_auxv)) \<and>
     CreateElfCore SimpleWriter SimpleDone env ca s = Inr (0, s')"
  by (rule healthy_dump [OF assms])

section \<open>A sample dump\<close>

definition no_time :: elf_timeval where
  "no_time = \<lparr>tv_sec = 0, tv_usec = 0\<rparr>"

definition sample_args :: "64 word \<Rightarrow> core_args" where
  "sample_args lim =
     \<lparr>arg_prpsinfo = \<lparr>pr_state = 0, pr_sname = 82, pr_zomb = 0, pr_nice = 0, pr_flag = 0, ps_uid = 0, ps_gid = 0,
        ps_pid = 7, ps_ppid = 1, ps_pgrp = 7, ps_sid = 7, pr_fname = replicate 16 65, pr_psargs = replicate 80 0\<rparr>,
      arg_user = None,
      arg_prstatus = \<lparr>pr_info = \<lparr>si_signo = 11, si_code = 0, si_errno = 0\<rparr>, pr_cursig = 11, pr_sigpend = 0, pr_sighold = 0,
        pr_pid = 0, pr_ppid = 1, pr_pgrp = 7, pr_sid = 7, pr_utime = no_time, pr_stime = no_time, pr_cutime = no_time,
        pr_cstime = no_time, pr_reg = [], pr_fpvalid = 1\<rparr>,
      arg_threads = [\<lparr>t_pid = 7, t_regs = replicate 216 1, t_fpregs = replicate 512 2\<rparr>,
        \<lparr>t_pid = 8, t_regs = replicate 216 3, t_fpregs = replicate 512 4\<rparr>],
      arg_pagesize = 4096, arg_prioritize = lim, arg_main_pid = 7,
      arg_notes = [\<lparr>note_name = ''tinu'', note_type = 1, description_size = 2, description = [5, 6]\<rparr>]\<rparr>"

definition sample_env :: core_env where
  "sample_env =
     \<lparr>env_memory = (\<lambda>a. ucast a), env_pages = (\<lambda>a i. Some (1 # replicate 4095 0)), env_pipe = True,
      env_maps = Some (sample_maps [Moves 7, Fails EINTR]), env_maps_again = Some (sample_maps []),
      env_auxv = Some [(6, 4096), (0, 0)], env_auxv_again = Some [(6, 4096), (0, 0)]\<rparr>"

definition sample_sink :: sink where
  "sample_sink = \<lparr>sk_data = [], sk_answers = [Moves 3, Fails EINTR]\<rparr>"

definition sample_mappings :: "mapping list" where
  "sample_mappings = [\<lparr>start_address = 0x1000, end_address = 0x3000, map_offset = 0, write_size = 0x2000,
     map_flags = 0x80000006\<rparr>]"

lemma sample_healthy: "healthy sample_env (arg_pagesize (sample_args lim)) sample_lines" "list_all gives (sk_answers sample_sink)"
  by (auto simp: healthy_def sample_env_def sample_args_def sample_maps_def reads_def gives_def sample_lines_def
      line_ok_def is_word_def whole_pages_def sample_sink_def)

lemma sample_args_ok: "args_ok (sample_args lim)"
  by (simp add: args_ok_def sample_args_def)

lemma sample_kept: "kept_mappings (env_pages sample_env) (arg_pagesize (sample_args lim)) sample_lines = Inr sample_mappings"
  by (simp add: sample_lines_def line_mapping_def line_flags_def line_anonymous_def line_is_device_def sample_env_def
      sample_args_def trim_mapping_def LeadingZeros_def zeros_loop.simps sample_mappings_def)

lemma core_dump_completes_witness:
  "\<exists>vdso n s'. gather sample_env 4096 = Inr (Some (sample_mappings, vdso, n)) \<and>
     CreateElfCore SimpleWriter SimpleDone sample_env (sample_args 0) sample_sink = Inr (0, s')"
  using core_dump_completes [OF sample_healthy] sample_kept by (fastforce simp: sample_args_def)

lemma sample_gather: "gather sample_env (arg_pagesize (sample_args lim)) = Inr (Some (sample_mappings, 0, 2))"
proof -
  obtain ms vdso n where "gather sample_env (arg_pagesize (sample_args lim)) = Inr (Some (ms, vdso, n))" "ms = sample_mappings"
    using healthy_dump [OF sample_healthy, of lim] sample_kept by fastforce
  moreover have "CountAUXV (env_auxv sample_env) = (2, 0)" by (simp add: CountAUXV_def sample_env_def)
  ultimately show ?thesis
    by (auto simp: gather_def check_vdso_def res_simps split: if_splits option.splits prod.splits)
qed

lemma sample_dump:
  "\<exists>s'. CreateElfCore SimpleWriter SimpleDone sample_env (sample_args 0) sample_sink = Inr (0, s') \<and>
     length (sk_data s') = 0x3000"
proof -
  obtain s' where s': "CreateElfCore SimpleWriter SimpleDone sample_env (sample_args 0) sample_sink = Inr (0, s')"
    using healthy_dump [OF sample_healthy] by blast
  obtain align where a: "note_align (arg_pagesize (sample_args 0)) (first_offset sample_mappings [])
       (notes_size (sample_args 0) 2) = Inr align"
      "sk_data s' = complete_file sample_env (sample_args 0) 2 [] align sample_mappings"
    using created_file [OF sample_gather s' sample_args_ok] by (auto simp: vdso_extra_def sample_sink_def)
  have "align = 1912"
    using a(1) by (simp add: note_align_def first_offset_def notes_size_def sample_args_def sample_mappings_def
        extra_note_size_def padding_def)
  moreover have "final_mappings (sample_args 0) 2 [] align sample_mappings = sample_mappings"
    by (simp add: final_mappings_def limit_mappings_def sample_args_def)
  moreover have "notes_length (core_notes (sample_args 0) (auxv_entries sample_env 2)) = 2008"
    by (simp add: core_notes_def process_notes_def dump_order_def crashed_thread_def other_threads_def sample_args_def
        auxv_notes_def auxv_entries_def sample_env_def thread_notes_def length_core_note auxv_bytes_def extra_note_def
        note_bytes_def note_chunks_def padding_def CORE_def)
  ultimately have "length (sk_data s') = 0x3000"
    by (simp add: a(2) complete_file_def core_file_def core_bytes_def phdrs_length notes_length_def)
      (simp add: sample_mappings_def segment_def)
  then show ?thesis using s' by blast
qed

lemma core_file_layout_witness:
  "\<exists>s' f. CreateElfCore SimpleWriter SimpleDone sample_env (sample_args 0) sample_sink = Inr (0, s') \<and> sk_data s' = f \<and>
     p_vaddr (core_phdr f 1) = 0x1000 \<and> core_contents f (core_phdr f 1) = bytes_at (\<lambda>a. ucast a) 0x1000 0x2000"
proof -
  obtain s' where s': "CreateElfCore SimpleWriter SimpleDone sample_env (sample_args 0) sample_sink = Inr (0, s')"
      "length (sk_data s') < 2 ^ 64"
    using sample_dump by force
  obtain f final where f: "sk_data s' = sk_data sample_sink @ f" "arg_prioritize (sample_args 0) = 0 \<longrightarrow> final = sample_mappings"
      "\<forall>i < length sample_mappings.
        core_phdr f (i + 1) = mapping_phdr (arg_pagesize (sample_args 0)) (p_offset (core_phdr f (i + 1))) (final ! i) \<and>
        core_contents f (core_phdr f (i + 1)) =
          bytes_at (env_memory sample_env) (start_address (final ! i)) (unat (write_size (final ! i)))"
    using core_file_layout [OF sample_gather s'(1) sample_args_ok s'(2) refl] by (elim exE conjE)
  have final: "final = sample_mappings" using f(2) by (simp add: sample_args_def)
  have "core_phdr f 1 = mapping_phdr (arg_pagesize (sample_args 0)) (p_offset (core_phdr f 1)) (sample_mappings ! 0)"
      "core_contents f (core_phdr f 1) = bytes_at (env_memory sample_env) 0x1000 0x2000"
    using f(3) [rule_format, of 0] by (simp_all add: final) (simp_all add: sample_mappings_def)
  moreover have "p_vaddr (mapping_phdr ps off (sample_mappings ! 0)) = 0x1000" for ps off
    by (simp add: mapping_phdr_def sample_mappings_def)
  ultimately have "p_vaddr (core_phdr f 1) = 0x1000" by metis
  then show ?thesis
    using s'(1) f(1) \<open>core_contents f (core_phdr f 1) = _\<close> by (simp add: sample_sink_def sample_env_def)
qed

lemma core_notes_read_back_witness:
  "\<exists>s' f ns. CreateElfCore SimpleWriter SimpleDone sample_env (sample_args 0) sample_sink = Inr (0, s') \<and> sk_data s' = f \<and>
     read_notes (core_contents f (core_phdr f 0)) = Some (ns @ [(map of_char ''tinu'' @ [0], 1, [5, 6])]) \<and>
     hd (dump_order (sample_args 0)) = \<lparr>t_pid = 7, t_regs = replicate 216 1, t_fpregs = replicate 512 2\<rparr>"
proof -
  obtain s' where s': "CreateElfCore SimpleWriter SimpleDone sample_env (sample_args 0) sample_sink = Inr (0, s')"
      "length (sk_data s') < 2 ^ 64"
    using sample_dump by force
  obtain f where f: "sk_data s' = sk_data sample_sink @ f"
      "read_notes (core_contents f (core_phdr f 0)) =
       Some (process_notes (sample_args 0) @ auxv_notes (auxv_entries sample_env 2) @
         concat (map (thread_notes (arg_prstatus (sample_args 0))) (dump_order (sample_args 0))) @
         map extra_note (arg_notes (sample_args 0)))"
      "\<forall>t \<in> set (arg_threads (sample_args 0)). t_pid t = arg_main_pid (sample_args 0) \<longrightarrow> hd (dump_order (sample_args 0)) = t"
    using core_notes_read_back [OF sample_gather s'(1) sample_args_ok s'(2)] by auto
  have "map extra_note (arg_notes (sample_args 0)) = [(map of_char ''tinu'' @ [0], 1, [5, 6])]"
    by (simp add: sample_args_def extra_note_def)
  moreover have "hd (dump_order (sample_args 0)) = \<lparr>t_pid = 7, t_regs = replicate 216 1, t_fpregs = replicate 512 2\<rparr>"
    using f(3) by (simp add: sample_args_def)
  ultimately show ?thesis
    using s'(1) f(1,2) by (metis append.assoc append_Nil sample_sink_def sink.select_convs(1))
qed



section \<open>Dumps limited by priority\<close>

lemma prioritize_fits:
  "unat fixed + sizes_sum ms < 2 ^ 64 \<Longrightarrow> unat fixed + sizes_sum ms \<le> unat max_len \<Longrightarrow> prioritize max_len fixed ms = ms"
  using total_size_sum [of fixed ms]
  by (simp add: prioritize.simps [of max_len fixed ms] word_less_nat_alt split: option.splits)

text \<open>The part of a file that no limit removes: headers, notes, padding and the vdso.\<close>

definition fixed_length :: "core_args \<Rightarrow> nat \<Rightarrow> auxv list \<Rightarrow> Phdr list \<Rightarrow> 64 word \<Rightarrow> mapping list \<Rightarrow> nat" where
  "fixed_length ca num_auxv es extra align ms =
     64 + (length ms + length extra + 1) * 56 + notes_length (core_notes ca es) + unat align +
     sum_list (map (\<lambda>p. unat (p_filesz p)) extra)"

lemma core_file_length:
  "length (core_file mem ca es align ms extra) = fixed_length ca num_auxv es extra align ms + sizes_sum ms"
proof -
  have "length (concat (map (segment mem) ms)) = sizes_sum ms" for ms
    by (induction ms) (simp_all add: segment_def sizes_sum_def)
  moreover have "length (concat (map (vdso_segment mem) ps)) = sum_list (map (\<lambda>p. unat (p_filesz p)) ps)" for ps
    by (induction ps) (simp_all add: vdso_segment_def)
  ultimately show ?thesis
    by (simp add: core_file_def core_bytes_def fixed_length_def phdrs_length notes_length_def)
qed

lemma vdso_size_sum: "vdso_size extra = of_nat (sum_list (map (\<lambda>p. unat (p_filesz p)) extra))"
proof -
  have "fold (\<lambda>p sz. sz + p_filesz p) extra w = w + of_nat (sum_list (map (\<lambda>p. unat (p_filesz p)) extra))" for w
    by (induction extra arbitrary: w) (simp_all add: of_nat_unat add.assoc)
  then show ?thesis by (simp add: vdso_size_def)
qed

lemma final_length:
  assumes "args_ok ca" and "num_auxv = length es" and "arg_prioritize ca > 0"
    and "final = final_mappings ca num_auxv extra align ms"
    and "fixed_length ca num_auxv es extra align ms + sizes_sum ms < 2 ^ 64"
  shows "let H = fixed_length ca num_auxv es extra align ms; lim = unat (arg_prioritize ca)
     in if H + sizes_sum ms \<le> lim then final = ms else H + sizes_sum final = max lim H"
proof -
  let ?H = "fixed_length ca num_auxv es extra align ms"
  let ?fixed = "first_offset ms extra + align + notes_size ca num_auxv + vdso_size extra"
  have "of_nat ?H = ?fixed"
    using notes_size_length [OF assms(1), of es]
    by (simp add: fixed_length_def first_offset_def vdso_size_sum assms(2) of_nat_unat algebra_simps)
  moreover have "unat (of_nat ?H :: 64 word) = ?H"
    using assms(5) by (intro le_unat_uoi [of _ "0xFFFFFFFFFFFFFFFF"]) simp
  ultimately have H: "unat ?fixed = ?H" by metis
  have final: "final = prioritize (arg_prioritize ca) ?fixed ms"
    using assms(3,4) by (simp add: final_mappings_def limit_mappings_def)
  show ?thesis
    using prioritize_fits [of ?fixed ms "arg_prioritize ca"] prioritize_total [of ?fixed ms "arg_prioritize ca"] assms(5)
    unfolding final H Let_def by (auto simp: max_def split: if_splits)
qed



section \<open>The vdso\<close>

text \<open>C39: When the vdso is dumped, its headers describe memory inside one readable mapping: whatever
  the program headers of the vdso say, each of its segments that is written lies strictly
  inside it, provided its end does not wrap around the address space.\<close>

theorem vdso_segments_inside:
  assumes "check_vdso mem ms vdso = v" and "p \<in> set (vdso_extra mem v)"
    and "unat (p_vaddr p) + unat (p_filesz p) < 2 ^ 64"
  shows "v = vdso \<and> (\<exists>m \<in> set ms. map_flags m AND PF_R \<noteq> 0 \<and> start_address m \<le> vdso \<and> vdso < end_address m \<and>
     unat (start_address m) < unat (p_vaddr p) \<and> unat (p_vaddr p) + unat (p_filesz p) < unat (end_address m))"
proof -
  have v: "v \<noteq> 0" using assms(2) by (auto simp: vdso_extra_def split: if_splits)
  then obtain m where m: "List.find (\<lambda>m. map_flags m AND PF_R \<noteq> 0 \<and> start_address m \<le> vdso \<and> vdso < end_address m) ms = Some m"
      "v = SanitizeVDSO mem vdso (start_address m) (end_address m)"
    using assms(1) by (auto simp: check_vdso_def split: if_splits option.splits)
  then have same: "v = vdso" using v by (auto simp: SanitizeVDSO_def Let_def split: if_splits)
  obtain i where i: "i < vdso_phnum mem vdso" "p = vdso_phdr mem vdso i" "p_type p \<noteq> PT_LOAD"
    using assms(2) same by (auto simp: vdso_extra_def split: if_splits)
  have first: "p_type (vdso_phdr mem vdso 0) = PT_LOAD"
    using m(2) v by (auto simp: SanitizeVDSO_def Let_def split: if_splits)
  then have "i \<noteq> 0" using i by (cases "i = 0") auto
  then have "i \<in> set [1..<vdso_phnum mem vdso]" using i(1) by simp
  moreover have "\<not> list_ex (\<lambda>i. p_type (vdso_phdr mem vdso i) = PT_LOAD \<or> p_vaddr (vdso_phdr mem vdso i) AND 7 \<noteq> 0 \<or>
      p_vaddr (vdso_phdr mem vdso i) \<le> start_address m \<or>
      end_address m \<le> p_vaddr (vdso_phdr mem vdso i) + p_filesz (vdso_phdr mem vdso i)) [1..<vdso_phnum mem vdso]"
    using m(2) v by (simp add: SanitizeVDSO_def Let_def split: if_splits)
  ultimately have "\<not> p_vaddr p \<le> start_address m" "\<not> end_address m \<le> p_vaddr p + p_filesz p"
    using i(2) by (auto simp: list_ex_iff)
  then have "unat (start_address m) < unat (p_vaddr p)" "unat (p_vaddr p + p_filesz p) < unat (end_address m)"
    by (simp_all add: word_le_nat_alt)
  moreover have "m \<in> set ms" "map_flags m AND PF_R \<noteq> 0" "start_address m \<le> vdso" "vdso < end_address m"
    using find_in_set [OF m(1)] by simp_all
  ultimately show ?thesis using same unat_add_small [OF assms(3)] by metis
qed


definition sample_vdso :: memory where
  "sample_vdso a =
     (if a = 0x1028 then 64 else if a = 0x1040 then 2 else if a = 0x1048 then 1 else if a = 0x1059 then 16
      else if a = 0x1071 then 1 else if a = 0x1080 then 2 else if a = 0x1091 then 17 else if a = 0x10a0 then 32 else 0)"

lemma vdso_segments_inside_witness:
  "\<exists>p. vdso_extra sample_vdso 0x1008 = [p] \<and> p_vaddr p = 0x1100 \<and> p_filesz p = 32 \<and>
     check_vdso sample_vdso sample_mappings 0x1008 = 0x1008 \<and>
     unat (start_address (sample_mappings ! 0)) < unat (p_vaddr p)"
proof -
  have n: "vdso_phnum sample_vdso 0x1008 = 2" and o: "vdso_phoff sample_vdso 0x1008 = 64"
    by (simp_all add: vdso_phnum_def vdso_phoff_def load_def sample_vdso_def upt_rec push_bit_eq_mult)
  let ?p = "vdso_phdr sample_vdso 0x1008"
  have p: "p_type (?p 0) = 1" "p_vaddr (?p 0) = 0x1000" "p_memsz (?p 0) = 0x100" "p_type (?p 1) = 2"
      "p_vaddr (?p 1) = 0x1100" "p_filesz (?p 1) = 32"
    by (simp_all add: vdso_phdr_def o load_phdr_def load_def sample_vdso_def upt_rec push_bit_eq_mult)
  have extra: "vdso_extra sample_vdso 0x1008 = [?p 1]"
    by (simp add: vdso_extra_def n upt_rec p [simplified])
  have check: "check_vdso sample_vdso sample_mappings 0x1008 = 0x1008"
    by (simp add: check_vdso_def sample_mappings_def SanitizeVDSO_def Let_def n o p [simplified] upt_rec)
  have "\<exists>m \<in> set sample_mappings. unat (start_address m) < unat (p_vaddr (?p 1))"
    using vdso_segments_inside [OF check, of "?p 1"] by (auto simp: extra p [simplified])
  then show ?thesis using extra check p by (simp add: sample_mappings_def)
qed


end
