(* ===== verification/CoreFrame.thy ===== *)
theory CoreFrame
  imports CoreElf
begin

text \<open>
  \<open>coredumper/elfcore.h\<close> on x86-64: the registers, the macro \<open>FRAME\<close> that takes a snapshot of them
  in the function that was called, and \<open>SET_FRAME\<close>, which puts the snapshot in the place
  of what \<open>ptrace\<close> found deep inside the core dumper.
\<close>

unbundle bit_operations_syntax

section \<open>Registers\<close>

record i386_regs =
  r_r15 :: "64 word"
  r_r14 :: "64 word"
  r_r13 :: "64 word"
  r_r12 :: "64 word"
  r_rbp :: "64 word"
  r_rbx :: "64 word"
  r_r11 :: "64 word"
  r_r10 :: "64 word"
  r_r9 :: "64 word"
  r_r8 :: "64 word"
  r_rax :: "64 word"
  r_rcx :: "64 word"
  r_rdx :: "64 word"
  r_rsi :: "64 word"
  r_rdi :: "64 word"
  r_orig_rax :: "64 word"
  r_rip :: "64 word"
  r_cs :: "64 word"
  r_eflags :: "64 word"
  r_rsp :: "64 word"
  r_ss :: "64 word"
  r_fs_base :: "64 word"
  r_gs_base :: "64 word"
  r_ds :: "64 word"
  r_es :: "64 word"
  r_fs :: "64 word"
  r_gs :: "64 word"

text \<open>The fields in the order of the structure, and its bytes.\<close>

definition regs_words :: "i386_regs \<Rightarrow> 64 word list" where
  "regs_words r =
     [r_r15 r, r_r14 r, r_r13 r, r_r12 r, r_rbp r, r_rbx r, r_r11 r, r_r10 r, r_r9 r, r_r8 r, r_rax r, r_rcx r, r_rdx r,
      r_rsi r, r_rdi r, r_orig_rax r, r_rip r, r_cs r, r_eflags r, r_rsp r, r_ss r, r_fs_base r, r_gs_base r, r_ds r,
      r_es r, r_fs r, r_gs r]"

definition regs_bytes :: "i386_regs \<Rightarrow> byte list" where
  "regs_bytes r = concat (map (le 8) (regs_words r))"

lemma length_regs_bytes [simp]: "length (regs_bytes r) = 216"
  by (simp add: regs_bytes_def regs_words_def)

section \<open>The snapshot\<close>

record Frame =
  fr_uregs :: i386_regs
  fr_errno :: int
  fr_tid :: "32 word"

text \<open>
  \<open>add $16, %ebx\<close> on the copy of the stack pointer, which two pushes have lowered by 16: an
  instruction on 32 bits, which clears the upper half of \<open>rbx\<close>. A segment register is moved
  into \<open>rbx\<close> with zeros above its 16 bits.
\<close>

definition add_ebx :: "64 word \<Rightarrow> 64 word" where
  "add_ebx rbx = ucast (ucast rbx + 16 :: 32 word)"

definition segment :: "64 word \<Rightarrow> 64 word" where
  "segment s = s AND 0xFFFF"

text \<open>
  \<open>cpu\<close> are the registers where the macro stands, \<open>f\<close> the address of the variable it declares
  (which is in \<open>rax\<close>), \<open>junk\<close> what the variable holds before, \<open>here\<close> the address behind the
  instructions, and \<open>fl\<close> the flags after the addition to \<open>rbx\<close>.
\<close>

definition FRAME :: "i386_regs \<Rightarrow> 64 word \<Rightarrow> i386_regs \<Rightarrow> 64 word \<Rightarrow> 64 word \<Rightarrow> int \<Rightarrow> 32 word \<Rightarrow> Frame" where
  "FRAME cpu f junk here fl err tid =
     (let rsp = r_rsp cpu - 16 in
      \<lparr>fr_uregs = junk
        \<lparr>r_r15 := r_r15 cpu, r_r14 := r_r14 cpu, r_r13 := r_r13 cpu, r_r12 := r_r12 cpu, r_rbp := r_rbp cpu,
         r_rbx := r_rbx cpu, r_r11 := r_r11 cpu, r_r10 := r_r10 cpu, r_r9 := r_r9 cpu, r_r8 := r_r8 cpu, r_rax := f,
         r_rcx := r_rcx cpu, r_rdx := r_rdx cpu, r_rsi := r_rsi cpu, r_rdi := r_rdi cpu,
         r_ds := segment (r_ds cpu), r_es := segment (r_es cpu), r_fs := segment (r_fs cpu), r_gs := segment (r_gs cpu),
         r_rip := here, r_cs := segment (r_cs cpu), r_eflags := fl, r_rsp := add_ebx rsp,
         r_ss := segment (r_ss cpu)\<rparr>,
       fr_errno = err, fr_tid = tid\<rparr>)"

text \<open>The registers that replace those of \<open>ptrace\<close>; \<open>errno\<close> becomes \<open>fr_errno\<close>.\<close>

definition SET_FRAME :: "Frame \<Rightarrow> i386_regs \<Rightarrow> i386_regs" where
  "SET_FRAME f r = (fr_uregs f)\<lparr>r_fs_base := r_fs_base r, r_gs_base := r_gs_base r\<rparr>"

section \<open>Properties\<close>

lemma low_of_int: "(ucast (word_of_int k :: 64 word) :: 32 word) = word_of_int k"
proof -
  have "take_bit 32 (take_bit 64 k) = take_bit 32 k" by simp
  then show ?thesis by (transfer fixing: k) simp
qed

lemma low_sub: "(ucast (w - 16 :: 64 word) :: 32 word) = ucast w - 16"
proof -
  have "w - 16 = word_of_int (uint w - 16)" by simp
  then have "(ucast (w - 16) :: 32 word) = word_of_int (uint w - 16)" by (simp only: low_of_int)
  also have "\<dots> = word_of_int (uint w) - 16" by simp
  also have "\<dots> = ucast w - 16" by (simp only: ucast_eq)
  finally show ?thesis .
qed

lemma low_word: "ucast (ucast w :: 32 word) = (w :: 64 word) AND mask 32"
  by (rule bit_word_eqI) (auto simp: bit_simps)

lemma low_half_same: "w AND mask 32 = w \<longleftrightarrow> w < (2 ^ 32 :: 64 word)"
  using less_mask_eq [of w 32] and_mask_less' [of 32 w] by (auto)

lemma low_half: "add_ebx (w - 16) = w AND mask 32"
  by (simp add: add_ebx_def low_sub low_word)

text \<open>C26: The registers of the calling thread in the core file. Those that a function keeps, the frame
  pointer and the bases from \<open>ptrace\<close> are right and the instruction pointer is that of the call
  into the core dumper; but of the stack pointer only the lower half is kept, so that it is
  right exactly for a stack below 4 GB, and \<open>orig_rax\<close> is whatever was on the stack.
\<close>

theorem caller_registers:
  "r_rsp (SET_FRAME (FRAME cpu f junk here fl err tid) r) = r_rsp cpu AND mask 32 \<and>
   (r_rsp (SET_FRAME (FRAME cpu f junk here fl err tid) r) = r_rsp cpu \<longleftrightarrow> r_rsp cpu < 2 ^ 32) \<and>
   r_orig_rax (SET_FRAME (FRAME cpu f junk here fl err tid) r) = r_orig_rax junk \<and>
   r_rip (SET_FRAME (FRAME cpu f junk here fl err tid) r) = here \<and>
   r_rbp (SET_FRAME (FRAME cpu f junk here fl err tid) r) = r_rbp cpu \<and>
   r_rbx (SET_FRAME (FRAME cpu f junk here fl err tid) r) = r_rbx cpu \<and>
   r_r12 (SET_FRAME (FRAME cpu f junk here fl err tid) r) = r_r12 cpu \<and>
   r_r13 (SET_FRAME (FRAME cpu f junk here fl err tid) r) = r_r13 cpu \<and>
   r_r14 (SET_FRAME (FRAME cpu f junk here fl err tid) r) = r_r14 cpu \<and>
   r_r15 (SET_FRAME (FRAME cpu f junk here fl err tid) r) = r_r15 cpu \<and>
   r_fs_base (SET_FRAME (FRAME cpu f junk here fl err tid) r) = r_fs_base r \<and>
   r_gs_base (SET_FRAME (FRAME cpu f junk here fl err tid) r) = r_gs_base r"
  by (simp add: SET_FRAME_def FRAME_def Let_def low_half low_half_same)

end
