(* ===== verification/CoreProcess.thy ===== *)
theory CoreProcess
  imports CoreDump CoreFrame
begin

text \<open>
  The second half of \<open>coredumper/elfcore.c\<close>: what \<open>InternalGetCoreDump\<close> records of the process,
  the search for a compressor (\<open>CreatePipelineChild\<close>, \<open>CreatePipeline\<close>), and writing a core
  file to disk. What the system calls answer is a parameter.
\<close>

unbundle bit_operations_syntax

section \<open>What is recorded of the process\<close>

text \<open>
  The loop over the target of \<open>/proc/self/exe\<close>: \<open>buf\<close> is \<open>scratch\<close> from \<open>ptr\<close> on, \<open>cmd\<close> what
  has been passed since the last slash (the \<open>len\<close> characters from \<open>cmd\<close> on). \<open>sz\<close> is the
  length that \<open>readlink\<close> returned, or -1. With a target of 4096 bytes the buffer has no terminator
  and the loop reads one byte behind it.
\<close>

fun exe_name :: "byte list \<Rightarrow> int \<Rightarrow> byte list \<Rightarrow> byte list res" where
  "exe_name [] sz cmd = Inl OutOfRange"
| "exe_name (c # buf) sz cmd =
     (if c \<noteq> 0 \<and> sz > 0 then exe_name buf (sz - 1) (if c = 47 then [] else cmd @ [c]) else Inr cmd)"

definition pad_to :: "nat \<Rightarrow> byte list \<Rightarrow> byte list" where
  "pad_to n bs = take n bs @ replicate (n - length bs) 0"

definition process_fname :: "byte list option \<Rightarrow> byte list res" where
  "process_fname exe =
     (let scratch = pad_to 4096 (case exe of None \<Rightarrow> [] | Some e \<Rightarrow> e);
          sz = (case exe of None \<Rightarrow> -1 | Some e \<Rightarrow> int (min 4096 (length e)))
      in bindr (exe_name scratch sz []) (\<lambda>cmd. Inr (pad_to 16 cmd)))"

text \<open>The arguments: the bytes read of \<open>/proc/self/cmdline\<close>, spaces for the terminators.\<close>

definition process_args :: "source option \<Rightarrow> byte list" where
  "process_args cmd =
     pad_to 80 (case cmd of
                  None \<Rightarrow> []
                | Some fd \<Rightarrow>
                    (case c_read 80 fd of
                       (Inl e, _) \<Rightarrow> []
                     | (Inr bs, _) \<Rightarrow> map (\<lambda>b. if b = 0 then 32 else b) bs))"

record process_ids =
  id_nice :: byte
  id_uid :: "32 word"
  id_gid :: "32 word"
  id_ppid :: "32 word"
  id_pgrp :: "32 word"
  id_sid :: "32 word"

definition build_prpsinfo :: "process_ids \<Rightarrow> 32 word \<Rightarrow> byte list option \<Rightarrow> source option \<Rightarrow> prpsinfo res" where
  "build_prpsinfo ids main_pid exe cmd =
     bindr (process_fname exe) (\<lambda>fname. Inr
     \<lparr>pr_state = 0, pr_sname = of_char CHR ''R'', pr_zomb = 0, pr_nice = id_nice ids, pr_flag = 0,
      ps_uid = id_uid ids, ps_gid = id_gid ids, ps_pid = main_pid, ps_ppid = id_ppid ids, ps_pgrp = id_pgrp ids,
      ps_sid = id_sid ids, pr_fname = fname, pr_psargs = process_args cmd\<rparr>)"

text \<open>
  The fields of \<open>/proc/self/stat\<close>; the list is the text from \<open>ptr\<close> to the terminator.
  \<open>skip_fields n\<close> goes behind the \<open>n\<close>-th space.
\<close>

fun skip_fields :: "nat \<Rightarrow> byte list \<Rightarrow> byte list" where
  "skip_fields 0 s = s"
| "skip_fields (Suc n) [] = []"
| "skip_fields (Suc n) (c # s) = skip_fields (if c = 32 then n else Suc n) s"

text \<open>\<open>10 * n + *ptr - '0'\<close> in 64 bits, where the character is signed.\<close>

fun stat_number :: "64 word \<Rightarrow> byte list \<Rightarrow> 64 word \<times> byte list" where
  "stat_number n [] = (n, [])"
| "stat_number n (c # s) = (if c = 32 then (n, c # s) else stat_number (10 * n + scast c - 48) s)"

definition next_field :: "byte list \<Rightarrow> byte list" where
  "next_field s = (case s of [] \<Rightarrow> [] | c # s \<Rightarrow> s)"

definition stat_timeval :: "64 word \<Rightarrow> elf_timeval" where
  "stat_timeval tms = \<lparr>tv_sec = tms div 1000, tv_usec = (tms mod 1000) * 1000\<rparr>"

definition parse_stat :: "byte list \<Rightarrow> prstatus \<Rightarrow> prstatus" where
  "parse_stat s ps =
     (let (utime, s) = stat_number 0 (skip_fields 13 s);
          (stime, s) = stat_number 0 (next_field s);
          (cutime, s) = stat_number 0 (next_field s);
          (cstime, s) = stat_number 0 (next_field s);
          (sigpend, s) = stat_number (pr_sigpend ps) (skip_fields 14 s);
          (sigpend, s) = stat_number sigpend (next_field s)
      in ps\<lparr>pr_utime := stat_timeval utime, pr_stime := stat_timeval stime, pr_cutime := stat_timeval cutime,
            pr_cstime := stat_timeval cstime, pr_sigpend := sigpend\<rparr>)"

text \<open>The text ends at the first NUL byte in what has been read.\<close>

definition no_timeval :: elf_timeval where
  "no_timeval = \<lparr>tv_sec = 0, tv_usec = 0\<rparr>"

definition build_prstatus :: "prpsinfo \<Rightarrow> source option \<Rightarrow> prstatus" where
  "build_prstatus info stat_fd =
     (let ps = \<lparr>pr_info = \<lparr>si_signo = 0, si_code = 0, si_errno = 0\<rparr>, pr_cursig = 0, pr_sigpend = 0, pr_sighold = 0,
                pr_pid = ps_pid info, pr_ppid = ps_ppid info, pr_pgrp = ps_pgrp info, pr_sid = ps_sid info,
                pr_utime = no_timeval, pr_stime = no_timeval, pr_cutime = no_timeval, pr_cstime = no_timeval,
                pr_reg = replicate sizeof_regs 0, pr_fpvalid = 1\<rparr>
      in case stat_fd of
           None \<Rightarrow> ps
         | Some fd \<Rightarrow>
             (case c_read 4095 fd of
                (Inl e, _) \<Rightarrow> ps
              | (Inr scratch, _) \<Rightarrow> parse_stat (takeWhile (\<lambda>b. b \<noteq> 0) scratch) ps))"

section \<open>The search for a compressor\<close>

text \<open>
  The directories of \<open>PATH\<close>: from each start to the next colon, also empty ones.
\<close>

fun path_scan :: "string \<Rightarrow> string \<Rightarrow> string list" where
  "path_scan [] dir = [dir]"
| "path_scan (c # s) dir = (if c = CHR '':'' then dir # path_scan s [] else path_scan s (dir @ [c]))"

definition executables :: "string option \<Rightarrow> string \<Rightarrow> string list" where
  "executables PATH name =
     (if CHR ''/'' \<in> set name then [name]
      else case PATH of
             None \<Rightarrow> []
           | Some path \<Rightarrow> map (\<lambda>dir. if dir = [] then name else dir @ ''/'' @ name) (path_scan path []))"

text \<open>
  \<open>execve\<close> does not return when it succeeds (\<open>can_exec\<close>). The child reports each entry of the
  table before it tries it; \<open>i\<close> is the index of \<open>args->compressors\<close>. The result: the
  indices written to the pipe and the program that runs now, if any. A table without its
  terminator is run past the end.
\<close>

fun CreatePipelineChild ::
  "(string \<Rightarrow> bool) \<Rightarrow> string option \<Rightarrow> CoredumperCompressor list \<Rightarrow> nat \<Rightarrow> (nat list \<times> string option) res" where
  "CreatePipelineChild can_exec PATH [] i = Inl OutOfRange"
| "CreatePipelineChild can_exec PATH (c # cs) i =
     (case compressor c of
        None \<Rightarrow> Inr ([i], None)
      | Some name \<Rightarrow>
          if name = [] then Inr ([i], None)
          else (case List.find can_exec (executables PATH name) of
                  Some program \<Rightarrow> Inr ([i], Some program)
                | None \<Rightarrow> bindr (CreatePipelineChild can_exec PATH cs (i + 1)) (\<lambda>(told, program).
                    Inr (i # told, program))))"

text \<open>
  \<open>CreatePipeline\<close>: the pointer to the table becomes the entry the child reported last. The
  descriptors are those of the compressor (\<open>Compressing\<close>), \<open>-1\<close> when the table allows no
  compression (\<open>Direct\<close>), or those of a plain pipe when no compressor is asked for (\<open>Piped\<close>).
  \<open>system\<close> tells whether the pipes and the child could be made.
\<close>

datatype pipeline = Piped | Direct | Compressing string

definition first_compressor :: "CoredumperCompressor list option \<Rightarrow> string option" where
  "first_compressor t = (case t of Some (c # cs) \<Rightarrow> compressor c | _ \<Rightarrow> None)"

definition CreatePipeline ::
  "bool \<Rightarrow> (string \<Rightarrow> bool) \<Rightarrow> string option \<Rightarrow> CoredumperCompressor list option
     \<Rightarrow> ((pipeline \<times> CoredumperCompressor list option) option) res" where
  "CreatePipeline system can_exec PATH table =
     (if \<not> system then Inr None
      else case table of
             None \<Rightarrow> Inr (Some (Piped, None))
           | Some t \<Rightarrow>
               if t = [] then Inl OutOfRange
               else if first_compressor (Some t) = None then Inr (Some (Piped, Some t))
               else bindr (CreatePipelineChild can_exec PATH t 0) (\<lambda>(told, program).
                 let found = drop (last told) t
                 in case first_compressor (Some found) of
                      None \<Rightarrow> Inr None
                    | Some name \<Rightarrow>
                        Inr (Some (if name \<noteq> [] then Compressing (case program of Some p \<Rightarrow> p | None \<Rightarrow> [])
                                   else Direct, Some found))))"

section \<open>Writing to a file\<close>

text \<open>
  \<open>PipeWriter\<close> as a writer of \<open>CreateElfCore\<close>: \<open>around bytes i\<close> is the memory next to the buffer.
\<close>

definition pipe_writer :: "(byte list \<Rightarrow> int \<Rightarrow> byte) \<Rightarrow> writer_fds core_writer_fn" where
  "pipe_writer around bytes fds =
     (case PipeWriter (\<lambda>i. if 0 \<le> i \<and> i < int (length bytes) then bytes ! nat i else around bytes i) (length bytes) fds of
        (r, fds) \<Rightarrow> (if r < 0 then Inl r else Inr (nat r), fds))"

text \<open>
  What the system answers: whether pipes and children can be made, which programs run, the
  file that \<open>open\<close> gives for a name, the compressor's ends, and the answers of \<open>poll\<close>.
\<close>

record file_env =
  fe_system :: bool
  fe_can_exec :: "string \<Rightarrow> bool"
  fe_path :: "string option"
  fe_open :: "string \<Rightarrow> sink option"
  fe_write_fd :: sink
  fe_compressed_fd :: source
  fe_polls :: "(int + bool \<times> bool) list"
  fe_around :: "byte list \<Rightarrow> int \<Rightarrow> byte"

definition core_suffix :: "CoredumperCompressor list option \<Rightarrow> string" where
  "core_suffix table =
     (if first_compressor table \<noteq> None
      then (case suffix (hd (the table)) of Some s \<Rightarrow> s | None \<Rightarrow> []) else [])"

text \<open>
  The branch of \<open>InternalGetCoreDump\<close> for a file: 0 or -1, the compressor selected (its part of
  the table), and the file with its name when one has been opened.
\<close>

definition end_of_table :: "CoredumperCompressor list option \<Rightarrow> CoredumperCompressor list option" where
  "end_of_table table = map_option (dropWhile (\<lambda>c. compressor c \<noteq> None)) table"

definition write_core_file ::
  "file_env \<Rightarrow> core_env \<Rightarrow> core_args \<Rightarrow> 64 word \<Rightarrow> CoredumperCompressor list option \<Rightarrow> string
     \<Rightarrow> (int \<times> CoredumperCompressor list option \<times> (string \<times> sink) option) res" where
  "write_core_file fe env ca limit table file_name =
     bindr (if first_compressor table \<noteq> None then CreatePipeline (fe_system fe) (fe_can_exec fe) (fe_path fe) table
            else Inr (Some (Direct, table))) (\<lambda>made.
     case made of
       None \<Rightarrow> Inr (-1, end_of_table table, None)
     | Some (pipe, table) \<Rightarrow>
         if limit = 0 then Inr (0, table, None)
         else
           (let extended = file_name @ core_suffix table
            in case fe_open fe extended of
                 None \<Rightarrow> Inr (-1, table, None)
               | Some out \<Rightarrow>
                   (let fds = \<lparr>max_length = limit, write_fd = fe_write_fd fe, compressed_fd = fe_compressed_fd fe,
                               out_fd = out, polls = fe_polls fe\<rparr>;
                        writer = (case pipe of Compressing p \<Rightarrow> pipe_writer (fe_around fe) | _ \<Rightarrow> LimitWriter)
                    in bindr (CreateElfCore writer PipeDone env ca fds) (\<lambda>(rc, fds).
                       case pipe of
                         Compressing p \<Rightarrow>
                           (case FlushPipe fds of
                              (flushed, fds) \<Rightarrow>
                                Inr (if flushed < 0 \<or> rc < 0 then -1 else 0, table, Some (extended, out_fd fds)))
                       | _ \<Rightarrow> Inr (if rc < 0 then -1 else 0, table, Some (extended, out_fd fds))))))"

text \<open>
  The branch for a pipe: the child's pipeline, the compressor selected, and what went into
  the pipe or the compressor; \<open>None\<close> when the child gives up before it sends a descriptor.
\<close>

definition write_core_pipe ::
  "file_env \<Rightarrow> core_env \<Rightarrow> core_args \<Rightarrow> CoredumperCompressor list option
     \<Rightarrow> (CoredumperCompressor list option \<times> sink) option res" where
  "write_core_pipe fe env ca table =
     bindr (CreatePipeline (fe_system fe) (fe_can_exec fe) (fe_path fe) table) (\<lambda>made.
     case made of
       None \<Rightarrow> Inr None
     | Some (pipe, table) \<Rightarrow>
         bindr (CreateElfCore SimpleWriter SimpleDone env (ca\<lparr>arg_prioritize := 0\<rparr>) (fe_write_fd fe)) (\<lambda>(rc, out).
           Inr (Some (table, out))))"

section \<open>InternalGetCoreDump\<close>

text \<open>
  The threads are attached already. \<open>ptrace\<close> answers with their registers, or not;
  \<open>pe_frame\<close> is the snapshot of the caller, whose thread is the one that crashed.
\<close>

record process_env =
  pe_core :: core_env
  pe_file :: file_env
  pe_ids :: process_ids
  pe_exe :: "byte list option"
  pe_cmdline :: "source option"
  pe_stat :: "source option"
  pe_regs :: "32 word \<Rightarrow> i386_regs option"
  pe_fpregs :: "32 word \<Rightarrow> byte list option"
  pe_user :: "byte list"
  pe_frame :: Frame
  pe_pagesize :: "64 word"
  pe_fd :: int
  pe_errno :: int

fun read_threads :: "process_env \<Rightarrow> 32 word list \<Rightarrow> thread list option" where
  "read_threads pe [] = Some []"
| "read_threads pe (pid # pids) =
     (case pe_regs pe pid of
        None \<Rightarrow> None
      | Some regs \<Rightarrow>
          (case pe_fpregs pe pid of
             None \<Rightarrow> None
           | Some fpregs \<Rightarrow>
               map_option ((#) \<lparr>t_pid = pid, 
                               t_regs = regs_bytes (if pid = fr_tid (pe_frame pe) then SET_FRAME (pe_frame pe) regs else regs),
                               t_fpregs = fpregs\<rparr>) (read_threads pe pids)))"

text \<open>The world outside: the files, what the reader of the pipe gets, and \<open>*selected_compressor\<close>.\<close>

record dump_world =
  dw_disk :: "string \<Rightarrow> byte list option"
  dw_pipe :: "byte list"
  dw_selected :: "CoredumperCompressor list option"

definition select_compressor ::
  "CoreDumpParameters \<Rightarrow> CoredumperCompressor list option \<Rightarrow> dump_world \<Rightarrow> dump_world" where
  "select_compressor params table w =
     (if GetCoreDumpParameter params P_selected_compressor selected_compressor NULL \<noteq> NULL
      then w\<lparr>dw_selected := table\<rparr> else w)"

text \<open>\<open>core_user\<close> begins with the registers, which are those of the first thread.\<close>

definition dump_arguments ::
  "process_env \<Rightarrow> thread list \<Rightarrow> CoreDumpParameters \<Rightarrow> core_args res" where
  "dump_arguments pe threads params =
     (let count = nat (sint (GetCoreDumpParameter params P_note_count note_count 0));
          ns = GetCoreDumpParameter params P_notes note_list [];
          limit = GetCoreDumpParameter params P_max_length param_max_length 0;
          by_priority = GetCoreDumpParameter params P_flags flags 0 AND COREDUMPER_FLAG_LIMITED_BY_PRIORITY
      in if threads = [] \<or> count > length ns then Inl OutOfRange
         else bindr (build_prpsinfo (pe_ids pe) (fr_tid (pe_frame pe)) (pe_exe pe) (pe_cmdline pe)) (\<lambda>info.
           Inr \<lparr>arg_prpsinfo = info, arg_user = Some (t_regs (hd threads) @ drop sizeof_regs (pe_user pe)),
                arg_prstatus = build_prstatus info (pe_stat pe), arg_threads = threads, arg_pagesize = pe_pagesize pe,
                arg_prioritize = (if by_priority \<noteq> 0 then limit else 0), arg_main_pid = fr_tid (pe_frame pe),
                arg_notes = take count ns\<rparr>))"

definition InternalGetCoreDump :: "process_env \<Rightarrow> 32 word list \<Rightarrow> dump_world dump_fn" where
  "InternalGetCoreDump pe pids params file_name w =
     (case read_threads pe pids of
        None \<Rightarrow> Inr ((-1, pe_errno pe), w)
      | Some threads \<Rightarrow>
          bindr (dump_arguments pe threads params) (\<lambda>ca.
          let limit = GetCoreDumpParameter params P_max_length param_max_length 0;
              table = GetCoreDumpParameter params P_compressors compressors None;
              w = select_compressor params (end_of_table table) w
          in case file_name of
               None \<Rightarrow>
                 bindr (write_core_pipe (pe_file pe) (pe_core pe) ca table) (\<lambda>sent.
                   Inr (case sent of
                          None \<Rightarrow> ((-1, pe_errno pe), w)
                        | Some (chosen, out) \<Rightarrow>
                            ((pe_fd pe, pe_errno pe),
                             (if chosen \<noteq> None then select_compressor params chosen w else w)\<lparr>dw_pipe := sk_data out\<rparr>)))
             | Some name \<Rightarrow>
                 bindr (write_core_file (pe_file pe) (pe_core pe) ca limit table name) (\<lambda>(rc, chosen, written).
                   let w = select_compressor params chosen w
                   in Inr ((rc, pe_errno pe),
                           case written of
                             None \<Rightarrow> w
                           | Some (extended, out) \<Rightarrow> w\<lparr>dw_disk := (dw_disk w)(extended \<mapsto> sk_data out)\<rparr>))))"

section \<open>The fields of the process status\<close>

text \<open>The text the kernel prints: fields with spaces between them; \<open>dec n\<close> is a number.\<close>

fun fields_text :: "byte list list \<Rightarrow> byte list" where
  "fields_text [] = []"
| "fields_text [f] = f"
| "fields_text (f # fs) = f @ 32 # fields_text fs"

definition dec :: "nat \<Rightarrow> byte list" where
  "dec n = map of_char (render_nat False 10 n)"

lemma skip_field_text: "32 \<notin> set f \<Longrightarrow> skip_fields (Suc n) (f @ 32 # s) = skip_fields n s"
  by (induction f) auto

lemma skip_fields_text:
  "list_all (\<lambda>f. 32 \<notin> set f) fs \<Longrightarrow> n < length fs \<Longrightarrow> skip_fields n (fields_text fs) = fields_text (drop n fs)"
proof (induction fs arbitrary: n rule: fields_text.induct)
  case (3 f g fs)
  then show ?case by (cases n) (simp_all add: skip_field_text)
qed auto

lemma fields_text_drop:
  "Suc n < length fs \<Longrightarrow> fields_text (drop n fs) = fs ! n @ 32 # fields_text (drop (Suc n) fs)"
  by (simp add: Cons_nth_drop_Suc [symmetric, of n] Cons_nth_drop_Suc [symmetric, of "Suc n"])

lemma dec_digit: "d < 10 \<Longrightarrow> (of_char (digit_char False d) :: byte) \<noteq> 32 \<and> scast (of_char (digit_char False d) :: byte) = (of_nat d + 48 :: 64 word)"
proof -
  assume "d < 10"
  then have "d \<in> {0,1,2,3,4,5,6,7,8,9}" by simp presburger
  then show ?thesis by (auto simp: digit_char_def)
qed

lemma stat_number_digits:
  "list_all (\<lambda>d. d < 10) ds \<Longrightarrow> (s = [] \<or> hd s = 32) \<Longrightarrow>
     stat_number n (map (\<lambda>d. of_char (digit_char False d)) ds @ s) = (foldl (\<lambda>a d. 10 * a + of_nat d) n ds, s)"
proof (induction ds arbitrary: n)
  case Nil
  then show ?case by (cases s) auto
next
  case (Cons d ds)
  then show ?case using Cons dec_digit [of d] by simp
qed

lemma dec_digits: "\<exists>ds. dec n = map (\<lambda>d. of_char (digit_char False d)) ds \<and> list_all (\<lambda>d. d < 10) ds \<and>
   foldl (\<lambda>a d. 10 * a + d) 0 ds = n"
proof (induction n rule: less_induct)
  case (less n)
  show ?case
  proof (cases "n < 10")
    case True
    then show ?thesis by (intro exI [of _ "[n]"]) (simp add: dec_def render_nat.simps [of False 10 n])
  next
    case False
    then have "n div 10 < n" by simp
    from less.IH [OF this] obtain ds where "dec (n div 10) = map (\<lambda>d. of_char (digit_char False d)) ds"
        "list_all (\<lambda>d. d < 10) ds" "foldl (\<lambda>a d. 10 * a + d) 0 ds = n div 10"
      by blast
    then show ?thesis using False
      by (intro exI [of _ "ds @ [n mod 10]"]) (simp add: dec_def render_nat.simps [of False 10 n])
  qed
qed

lemma fold_digits: "foldl (\<lambda>a d. 10 * a + of_nat d) (of_nat m :: 64 word) ds =
   of_nat (m * 10 ^ length ds + foldl (\<lambda>a d. 10 * a + d) 0 ds)"
proof (induction ds rule: rev_induct)
  case (snoc d ds)
  then show ?case by (simp add: algebra_simps)
qed simp

lemma stat_number_dec:
  "s = [] \<or> hd s = 32 \<Longrightarrow> stat_number (of_nat m) (dec n @ s) = (of_nat (m * 10 ^ length (dec n) + n), s)"
proof -
  assume s: "s = [] \<or> hd s = 32"
  obtain ds where ds: "dec n = map (\<lambda>d. of_char (digit_char False d)) ds" "list_all (\<lambda>d. d < 10) ds"
      "foldl (\<lambda>a d. 10 * a + d) 0 ds = n"
    using dec_digits by blast
  show ?thesis using stat_number_digits [OF ds(2) s, of "of_nat m"] fold_digits [of m ds] ds(1,3) by simp
qed

lemma stat_number_dec0: "s = [] \<or> hd s = 32 \<Longrightarrow> stat_number 0 (dec n @ s) = (of_nat n, s)"
  using stat_number_dec [of s 0 n] by simp

text \<open>C28: From the text of \<open>/proc/self/stat\<close>, when the name of the program has no space, the four times
  are those of the fields 14 to 17, taken as milliseconds. The two sets of signals are not
  told apart: the digits of the held signals are appended to those of the pending ones, and
  \<open>pr_sighold\<close> stays as it was.\<close>

theorem stat_signals_merged:
  assumes "list_all (\<lambda>f. 32 \<notin> set f) fs" and "32 \<le> length fs" and "pr_sigpend ps = 0"
    and "map (\<lambda>i. fs ! i) [13, 14, 15, 16, 30, 31] = map dec [utime, stime, cutime, cstime, pending, held]"
  shows "parse_stat (fields_text fs) ps =
     ps\<lparr>pr_utime := stat_timeval (of_nat utime), pr_stime := stat_timeval (of_nat stime),
        pr_cutime := stat_timeval (of_nat cutime), pr_cstime := stat_timeval (of_nat cstime),
        pr_sigpend := of_nat (pending * 10 ^ length (dec held) + held)\<rparr>"
proof -
  have f: "fs ! 13 = dec utime" "fs ! 14 = dec stime" "fs ! 15 = dec cutime" "fs ! 16 = dec cstime"
      "fs ! 30 = dec pending" "fs ! 31 = dec held"
    using assms(4) by simp_all
  let ?r = "\<lambda>n. fields_text (drop n fs)"
  have at: "?r 13 = dec utime @ 32 # ?r 14" "?r 14 = dec stime @ 32 # ?r 15" "?r 15 = dec cutime @ 32 # ?r 16"
      "?r 16 = dec cstime @ 32 # ?r 17" "?r 30 = dec pending @ 32 # ?r 31"
    using fields_text_drop [of _ fs] assms(2) f by simp_all
  obtain s where s: "?r 31 = dec held @ s" "s = [] \<or> hd s = 32"
  proof (cases "length fs = 32")
    case True
    then have "drop 31 fs = [dec held]" using f(6) by (simp add: Cons_nth_drop_Suc [symmetric])
    then show thesis using that [of "[]"] by simp
  next
    case False
    then have "?r 31 = dec held @ 32 # ?r 32" using fields_text_drop [of 31 fs] assms(2) f(6) by simp
    then show thesis using that by simp
  qed
  have "skip_fields 13 (fields_text fs) = ?r 13"
    using skip_fields_text [OF assms(1), of 13] assms(2) by simp
  moreover have "skip_fields 14 (32 # ?r 17) = ?r 30"
  proof -
    have "list_all (\<lambda>f. 32 \<notin> set f) (drop 17 fs)" using assms(1) by (auto simp: list_all_iff dest: in_set_dropD)
    then show ?thesis
      using skip_fields_text [of "drop 17 fs" 13] assms(2) skip_fields.simps(3) [of 13 32 "?r 17"] by simp
  qed
  moreover note stat_number_dec0 [of "32 # x" for x] stat_number_dec [of "32 # x" 0 for x] stat_number_dec [OF s(2)]
  ultimately show ?thesis
    by (simp add: parse_stat_def Let_def at next_field_def assms(3) s(1))
qed

lemma stat_signals_merged_witness:
  "let ps = build_prstatus \<lparr>pr_state = 0, pr_sname = 82, pr_zomb = 0, pr_nice = 0, pr_flag = 0, ps_uid = 0, ps_gid = 0,
        ps_pid = 7, ps_ppid = 1, ps_pgrp = 7, ps_sid = 7, pr_fname = [], pr_psargs = []\<rparr> None;
      fs = replicate 13 [65] @ map dec [1500, 2, 3, 4] @ replicate 13 [66] @ map dec [2, 15]
   in pr_sigpend (parse_stat (fields_text fs) ps) = 215 \<and> pr_utime (parse_stat (fields_text fs) ps) = \<lparr>tv_sec = 1, tv_usec = 500000\<rparr>"
proof -
  let ?ps = "build_prstatus \<lparr>pr_state = 0, pr_sname = 82, pr_zomb = 0, pr_nice = 0, pr_flag = 0, ps_uid = 0, ps_gid = 0,
        ps_pid = 7, ps_ppid = 1, ps_pgrp = 7, ps_sid = 7, pr_fname = [], pr_psargs = []\<rparr> None"
  let ?fs = "replicate 13 [65] @ map dec [1500, 2, 3, 4] @ replicate 13 [66] @ map dec [2, 15]"
  have "(32 :: byte) \<notin> set (dec n)" for n
    using dec_digits [of n] dec_digit by (fastforce simp: list_all_iff)
  then have "list_all (\<lambda>f. 32 \<notin> set f) ?fs" by (simp add: list_all_iff)
  moreover have "length (dec 15) = 2" by (simp add: dec_def render_nat.simps)
  moreover have "map (\<lambda>i. ?fs ! i) [13, 14, 15, 16, 30, 31] = map dec [1500, 2, 3, 4, 2, 15]" by (simp add: nth_append)
  ultimately show ?thesis
    using stat_signals_merged [of ?fs ?ps 1500 2 3 4 2 15] by (simp add: build_prstatus_def stat_timeval_def)
qed


section \<open>Which compressor is chosen\<close>

definition asks_for :: "CoredumperCompressor \<Rightarrow> string \<Rightarrow> bool" where
  "asks_for c name \<longleftrightarrow> compressor c = Some name \<and> name \<noteq> []"

text \<open>\<open>runs ok xs p\<close>: \<open>p\<close> is the first of \<open>xs\<close> that can be run.\<close>

definition runs :: "('a \<Rightarrow> bool) \<Rightarrow> 'a list \<Rightarrow> 'a \<Rightarrow> bool" where
  "runs ok xs p \<longleftrightarrow> (\<exists>i < length xs. xs ! i = p \<and> ok p \<and> (\<forall>j < i. \<not> ok (xs ! j)))"

lemma find_runs: "List.find ok xs = Some p \<longleftrightarrow> runs ok xs p"
  by (auto simp: find_Some_iff runs_def)

lemma child_told:
  assumes "\<exists>c \<in> set t. compressor c = None"
  shows "\<exists>k told program. CreatePipelineChild can_exec PATH t i = Inr (told, program) \<and> told \<noteq> [] \<and>
     last told = i + k \<and> k < length t \<and>
     (\<forall>j < k. \<exists>name. asks_for (t ! j) name \<and> list_all (\<lambda>p. \<not> can_exec p) (executables PATH name)) \<and>
     (case program of
        None \<Rightarrow> compressor (t ! k) = None \<or> compressor (t ! k) = Some []
      | Some p \<Rightarrow> \<exists>name. asks_for (t ! k) name \<and> runs can_exec (executables PATH name) p)"
  using assms
proof (induction t arbitrary: i)
  case (Cons c cs)
  consider (last) "compressor c = None \<or> compressor c = Some []"
    | (found) name p where "asks_for c name" "List.find can_exec (executables PATH name) = Some p"
    | (next_one) name where "asks_for c name" "List.find can_exec (executables PATH name) = None"
    unfolding asks_for_def by (cases "compressor c") (fastforce | metis option.exhaust)+
  then show ?case
  proof cases
    case last
    then show ?thesis by (intro exI [of _ 0]) auto
  next
    case found
    then have "CreatePipelineChild can_exec PATH (c # cs) i = Inr ([i], Some p)" by (simp add: asks_for_def)
    then show ?thesis using found by (intro exI [of _ 0] exI [of _ "[i]"] exI [of _ "Some p"]) (auto simp: find_runs)
  next
    case next_one
    then have "\<exists>c \<in> set cs. compressor c = None" using Cons.prems by (auto simp: asks_for_def)
    from Cons.IH [OF this, of "i + 1"] obtain k told program where
      k: "CreatePipelineChild can_exec PATH cs (i + 1) = Inr (told, program)" "told \<noteq> []" "last told = i + 1 + k" "k < length cs"
        "\<forall>j < k. \<exists>name. asks_for (cs ! j) name \<and> list_all (\<lambda>p. \<not> can_exec p) (executables PATH name)"
        "case program of
          None \<Rightarrow> compressor (cs ! k) = None \<or> compressor (cs ! k) = Some []
        | Some p \<Rightarrow> \<exists>name. asks_for (cs ! k) name \<and> runs can_exec (executables PATH name) p"
      by blast
    have "\<exists>name. asks_for ((c # cs) ! j) name \<and> list_all (\<lambda>p. \<not> can_exec p) (executables PATH name)" if "j < Suc k" for j
      using that k(5) next_one by (cases j) (auto simp: find_None_iff list_all_iff)
    then show ?thesis
      using k next_one by (intro exI [of _ "Suc k"] exI [of _ "i # told"] exI [of _ program]) (auto simp: asks_for_def split: option.splits)
  qed
qed simp

text \<open>C27: The search through a table of compressors goes by its order, and for each by the order of
  \<open>PATH\<close>: every entry before the one selected names a program that cannot be run anywhere,
  and the entry selected is the first that can be run, or the one that allows no compression;
  at the end of the table the dump is given up.\<close>

theorem compressor_choice:
  assumes "first_compressor (Some t) \<noteq> None" and "\<exists>c \<in> set t. compressor c = None"
  shows "\<exists>k < length t.
     (\<forall>j < k. \<exists>name. asks_for (t ! j) name \<and> list_all (\<lambda>p. \<not> can_exec p) (executables PATH name)) \<and>
     (case compressor (t ! k) of
        None \<Rightarrow> CreatePipeline True can_exec PATH (Some t) = Inr None
      | Some [] \<Rightarrow> CreatePipeline True can_exec PATH (Some t) = Inr (Some (Direct, Some (drop k t)))
      | Some name \<Rightarrow> \<exists>p. runs can_exec (executables PATH name) p \<and>
          CreatePipeline True can_exec PATH (Some t) = Inr (Some (Compressing p, Some (drop k t))))"
proof -
  have t: "t \<noteq> []" using assms(2) by auto
  obtain k told program where k: "CreatePipelineChild can_exec PATH t 0 = Inr (told, program)" "last told = 0 + k" "k < length t"
      "\<forall>j < k. \<exists>name. asks_for (t ! j) name \<and> list_all (\<lambda>p. \<not> can_exec p) (executables PATH name)"
      "case program of
        None \<Rightarrow> compressor (t ! k) = None \<or> compressor (t ! k) = Some []
      | Some p \<Rightarrow> \<exists>name. asks_for (t ! k) name \<and> runs can_exec (executables PATH name) p"
    using child_told [OF assms(2), of can_exec PATH 0] by blast
  have "drop k t = t ! k # drop (Suc k) t" using k(3) by (simp add: Cons_nth_drop_Suc)
  then have first: "first_compressor (Some (drop k t)) = compressor (t ! k)" by (simp add: first_compressor_def)
  have "CreatePipeline True can_exec PATH (Some t) =
      (case compressor (t ! k) of None \<Rightarrow> Inr None
       | Some name \<Rightarrow> Inr (Some (if name \<noteq> [] then Compressing (case program of Some p \<Rightarrow> p | None \<Rightarrow> []) else Direct, Some (drop k t))))"
  proof -
    obtain y where "first_compressor (Some t) = Some y" using assms(1) by blast
    then show ?thesis using t k(1,2) first by (simp add: CreatePipeline_def Let_def split: option.split)
  qed
  then show ?thesis
    using k(3-5) by (intro exI [of _ k]) (auto simp: asks_for_def split: option.splits list.splits)
qed

lemma compressor_choice_witness:
  "CreatePipeline True (\<lambda>p. p = ''/opt/gzip'') (Some ''/bin::/opt'') (Some COREDUMPER_TRY_GZIP_COMPRESSED) =
     Inr (Some (Compressing ''/opt/gzip'', Some (drop 2 COREDUMPER_TRY_GZIP_COMPRESSED)))"
proof -
  let ?ok = "\<lambda>p. p = ''/opt/gzip''"
  let ?t = "COREDUMPER_TRY_GZIP_COMPRESSED"
  have t: "?t = [cc ''/bin/gzip'' no_args_gzip ''.gz'', cc ''/usr/bin/gzip'' no_args_gzip ''.gz'', cc ''gzip'' no_args_gzip ''.gz'',
      no_compression, end_of_list]"
    by (simp add: COREDUMPER_TRY_GZIP_COMPRESSED_def)
  have "executables (Some ''/bin::/opt'') ''gzip'' = [''/bin/gzip'', ''gzip'', ''/opt/gzip'']" by (simp add: executables_def)
  have "\<exists>k < length ?t.
     (\<forall>j < k. \<exists>name. asks_for (?t ! j) name \<and> list_all (\<lambda>p. \<not> ?ok p) (executables (Some ''/bin::/opt'') name)) \<and>
     (case compressor (?t ! k) of
        None \<Rightarrow> CreatePipeline True ?ok (Some ''/bin::/opt'') (Some ?t) = Inr None
      | Some [] \<Rightarrow> CreatePipeline True ?ok (Some ''/bin::/opt'') (Some ?t) = Inr (Some (Direct, Some (drop k ?t)))
      | Some name \<Rightarrow> \<exists>p. runs ?ok (executables (Some ''/bin::/opt'') name) p \<and>
          CreatePipeline True ?ok (Some ''/bin::/opt'') (Some ?t) = Inr (Some (Compressing p, Some (drop k ?t))))"
    by (rule compressor_choice) (simp_all add: t first_compressor_def cc_def end_of_list_def)
  then obtain k where k: "k < length ?t"
      "\<forall>j < k. \<exists>name. asks_for (?t ! j) name \<and> list_all (\<lambda>p. \<not> ?ok p) (executables (Some ''/bin::/opt'') name)"
      "case compressor (?t ! k) of
        None \<Rightarrow> CreatePipeline True ?ok (Some ''/bin::/opt'') (Some ?t) = Inr None
      | Some [] \<Rightarrow> CreatePipeline True ?ok (Some ''/bin::/opt'') (Some ?t) = Inr (Some (Direct, Some (drop k ?t)))
      | Some name \<Rightarrow> \<exists>p. runs ?ok (executables (Some ''/bin::/opt'') name) p \<and>
          CreatePipeline True ?ok (Some ''/bin::/opt'') (Some ?t) = Inr (Some (Compressing p, Some (drop k ?t)))"
    by blast
  have "\<not> 2 < k"
  proof
    assume "2 < k"
    then obtain name where "asks_for (?t ! 2) name" "list_all (\<lambda>p. \<not> ?ok p) (executables (Some ''/bin::/opt'') name)"
      using k(2) by blast
    then show False by (auto simp: t cc_def asks_for_def executables_def)
  qed
  then consider "k = 0" | "k = 1" | "k = 2" by linarith
  then show ?thesis
    by cases (use k(3) in \<open>auto simp: t cc_def executables_def runs_def\<close>)
qed


section \<open>Whole dumps\<close>

text \<open>What the system calls answer for a process that can be dumped.\<close>

definition process_ok :: "process_env \<Rightarrow> 32 word list \<Rightarrow> bool" where
  "process_ok pe pids \<longleftrightarrow> pids \<noteq> [] \<and> distinct pids \<and>
     list_all (\<lambda>pid. (\<exists>r. pe_regs pe pid = Some r) \<and>
       (\<exists>f. pe_fpregs pe pid = Some f \<and> length f = 512)) pids \<and>
     length (pe_user pe) = 928 \<and> pe_pagesize pe \<noteq> 0 \<and>
     (\<forall>e. pe_exe pe = Some e \<longrightarrow> length e < 4096)"

lemma length_pad_to [simp]: "length (pad_to n bs) = n"
  by (simp add: pad_to_def)

lemma exe_name_returns: "0 \<in> set buf \<Longrightarrow> \<exists>name. exe_name buf sz cmd = Inr name"
  by (induction buf sz cmd rule: exe_name.induct) auto

lemma fname_returns:
  assumes "\<forall>e. exe = Some e \<longrightarrow> length e < 4096"
  shows "\<exists>fname. process_fname exe = Inr fname \<and> length fname = 16"
proof -
  have "0 \<in> set (pad_to 4096 (case exe of None \<Rightarrow> [] | Some e \<Rightarrow> e))"
    using assms by (auto simp: pad_to_def split: option.split)
  then show ?thesis
    using exe_name_returns [of _ "case exe of None \<Rightarrow> - 1 | Some e \<Rightarrow> int (min 4096 (length e))" "[]"]
    by (fastforce simp: process_fname_def Let_def)
qed

lemma read_threads_returns:
  assumes "list_all (\<lambda>pid. (\<exists>r. pe_regs pe pid = Some r) \<and>
       (\<exists>f. pe_fpregs pe pid = Some f \<and> length f = 512)) pids"
  shows "\<exists>ts. read_threads pe pids = Some ts \<and> map t_pid ts = pids \<and>
     list_all (\<lambda>t. length (t_regs t) = 216 \<and> length (t_fpregs t) = 512) ts"
  using assms by (induction pids) auto

lemma dump_arguments_ok:
  assumes "process_ok pe pids" and "note_count params = 0"
  shows "\<exists>ts ca. read_threads pe pids = Some ts \<and> dump_arguments pe ts params = Inr ca \<and> args_ok ca \<and>
     arg_pagesize ca = pe_pagesize pe"
proof -
  obtain ts where ts: "read_threads pe pids = Some ts" "map t_pid ts = pids"
      "list_all (\<lambda>t. length (t_regs t) = 216 \<and> length (t_fpregs t) = 512) ts"
    using read_threads_returns assms(1) unfolding process_ok_def by blast
  obtain fname where fname: "process_fname (pe_exe pe) = Inr fname" "length fname = 16"
    using fname_returns assms(1) unfolding process_ok_def by blast
  have "ts \<noteq> []" "distinct (map t_pid ts)" using ts(2) assms(1) by (auto simp: process_ok_def)
  moreover have "length (filter (\<lambda>t. t_pid t = pid) us) \<le> 1" if "distinct (map t_pid us)" for pid and us :: "thread list"
    using that by (induction us) (auto simp: filter_empty_conv, metis image_eqI)
  moreover have "length (t_regs (hd ts)) = 216" using ts(3) \<open>ts \<noteq> []\<close> by (cases ts) auto
  moreover have "GetCoreDumpParameter params P_note_count note_count 0 = 0"
    using assms(2) by (simp add: GetCoreDumpParameter_def)
  ultimately show ?thesis
    using ts fname assms(1)
    by (auto simp: dump_arguments_def build_prpsinfo_def args_ok_def process_args_def process_ok_def)
qed

definition cleared :: CoreDumpParameters where
  "cleared = \<lparr>param_size = sizeof_CoreDumpParameters, flags = 0, param_max_length = -1, compressors = None,
              selected_compressor = NULL, note_list = [], note_count = 0\<rparr>"

lemma clear_params: "ClearCoreDumpParameters = Inr cleared"
  by (simp add: ClearCoreDumpParameters_def ClearCoreDumpParametersInternal_def SetCoreDumpParameter_def
      CoreDumpParametersHas_def sizeof_CoreDumpParameters_def cleared_def)

lemma limit_params: "SetCoreDumpLimited cleared n = Inr (cleared\<lparr>flags := 1, param_max_length := n\<rparr>, 0)"
  by (simp add: SetCoreDumpLimited_def SetCoreDumpParameter_def CoreDumpParametersHas_def sizeof_CoreDumpParameters_def
      cleared_def)

lemma get_parameter: "param_size p = 56 \<Longrightarrow> GetCoreDumpParameter p f field zero = field p"
  by (cases f) (simp_all add: GetCoreDumpParameter_def CoreDumpParametersHas_def)

lemma cleared_fields [simp]:
  "param_size cleared = 56" "flags cleared = 0" "param_max_length cleared = -1" "compressors cleared = None"
  "selected_compressor cleared = NULL" "note_list cleared = []" "note_count cleared = 0"
  by (simp_all add: cleared_def sizeof_CoreDumpParameters_def)

abbreviation (input) limited_params :: "64 word \<Rightarrow> CoreDumpParameters" where
  "limited_params lim \<equiv> cleared\<lparr>flags := 1, param_max_length := lim\<rparr>"

lemma internal_dumps:
  assumes "process_ok pe pids" and "healthy (pe_core pe) (pe_pagesize pe) ls" and "fe_system (pe_file pe)"
    and "list_all gives (sk_answers (fe_write_fd (pe_file pe)))" and "sk_data (fe_write_fd (pe_file pe)) = []"
    and "fe_open (pe_file pe) name = Some \<lparr>sk_data = [], sk_answers = []\<rparr>"
  shows "\<exists>f. InternalGetCoreDump pe pids cleared None w = Inr ((pe_fd pe, pe_errno pe), w\<lparr>dw_pipe := f\<rparr>) \<and>
     InternalGetCoreDump pe pids (limited_params lim) (Some name) w =
       Inr ((0, pe_errno pe), if lim = 0 then w else w\<lparr>dw_disk := (dw_disk w)(name \<mapsto> take (unat lim) f)\<rparr>)"
proof -
  obtain ts ca where ca: "read_threads pe pids = Some ts" "dump_arguments pe ts cleared = Inr ca" "args_ok ca"
      "arg_pagesize ca = pe_pagesize pe"
    using dump_arguments_ok [OF assms(1), of cleared] by auto
  have same: "dump_arguments pe ts (limited_params lim) = Inr ca" "arg_prioritize ca = 0"
    using ca(2) by (auto simp: dump_arguments_def get_parameter res_simps split: if_splits)
  then have zero: "ca\<lparr>arg_prioritize := 0\<rparr> = ca" by simp
  have "healthy (pe_core pe) (arg_pagesize ca) ls" using assms(2) ca(4) by simp
  from healthy_dump [OF this assms(4)] obtain ms vdso n s' where
    g: "gather (pe_core pe) (arg_pagesize ca) = Inr (Some (ms, vdso, n))"
      "CreateElfCore SimpleWriter SimpleDone (pe_core pe) ca (fe_write_fd (pe_file pe)) = Inr (0, s')"
    by blast
  let ?fds = "\<lparr>max_length = lim, write_fd = fe_write_fd (pe_file pe), compressed_fd = fe_compressed_fd (pe_file pe),
    out_fd = \<lparr>sk_data = [], sk_answers = []\<rparr>, polls = fe_polls (pe_file pe)\<rparr>"
  obtain f fds' where f: "sk_data s' = f" "CreateElfCore LimitWriter PipeDone (pe_core pe) ca ?fds = Inr (0, fds')"
      "sk_data (out_fd fds') = take (unat lim) f"
    using limited_dump [OF g ca(3), of ?fds] assms(5) by auto
  have "write_core_pipe (pe_file pe) (pe_core pe) ca None = Inr (Some (None, s'))"
    using assms(3) g(2) by (simp add: write_core_pipe_def CreatePipeline_def zero)
  moreover have "write_core_file (pe_file pe) (pe_core pe) ca lim None name =
      Inr (0, None, if lim = 0 then None else Some (name, out_fd fds'))"
    using assms(6) f(2) by (simp add: write_core_file_def first_compressor_def core_suffix_def)
  ultimately show ?thesis
    using ca(1,2) same(1) f(1,3)
    by (intro exI [of _ f])
      (simp add: InternalGetCoreDump_def get_parameter select_compressor_def end_of_table_def Let_def)
qed

text \<open>The entry points hand a dump these parameters.\<close>

lemma entry_points:
  "GetCoreDump dump w = dump cleared None w"
  "WriteCoreDumpLimited dump name lim w = dump (limited_params lim) (Some name) w"
  by (simp_all add: GetCoreDump_def WriteCoreDumpLimited_def clear_params limit_params GetCoreDumpFunction_def
      WriteCoreDumpFunction_def)


definition sample_regs :: i386_regs where
  "sample_regs =
     \<lparr>r_r15 = 0, r_r14 = 0, r_r13 = 0, r_r12 = 0, r_rbp = 0x7FFF00001040, r_rbx = 0, r_r11 = 0, r_r10 = 0, r_r9 = 0,
      r_r8 = 0, r_rax = 0, r_rcx = 0, r_rdx = 0, r_rsi = 0, r_rdi = 0, r_orig_rax = 0, r_rip = 0x401000, r_cs = 0x33,
      r_eflags = 0, r_rsp = 0x7FFF00001000, r_ss = 0x2B, r_fs_base = 0, r_gs_base = 0, r_ds = 0, r_es = 0, r_fs = 0,
      r_gs = 0\<rparr>"

definition sample_process :: process_env where
  "sample_process =
     \<lparr>pe_core = sample_env,
      pe_file = \<lparr>fe_system = True, fe_can_exec = (\<lambda>p. False), fe_path = None,
        fe_open = (\<lambda>name. Some \<lparr>sk_data = [], sk_answers = []\<rparr>), fe_write_fd = sample_sink,
        fe_compressed_fd = \<lparr>sr_left = [], sr_answers = []\<rparr>, fe_polls = [], fe_around = (\<lambda>bs i. 0)\<rparr>,
      pe_ids = \<lparr>id_nice = 0, id_uid = 0, id_gid = 0, id_ppid = 1, id_pgrp = 7, id_sid = 7\<rparr>,
      pe_exe = Some (map of_char ''/usr/bin/test''), pe_cmdline = None, pe_stat = None,
      pe_regs = (\<lambda>pid. Some sample_regs), pe_fpregs = (\<lambda>pid. Some (replicate 512 2)), pe_user = replicate 928 0,
      pe_frame = FRAME sample_regs 0x7FFF00000F00 sample_regs 0x401080 0 0 7, pe_pagesize = 4096, pe_fd = 5, pe_errno = 0\<rparr>"



end
