(* ===== verification/ThreadLister.thy ===== *)
theory ThreadLister
  imports CoreParams
begin

text \<open>
  \<open>coredumper/linuxthreads.c\<close>: the thread that finds and suspends all threads of the process
  (\<open>ListerThread\<close>), its signal handler, \<open>ListAllProcessThreads\<close> and \<open>ResumeAllProcessThreads\<close>.
  The lister is a state machine: a step handles one answer of the kernel, and between any two
  steps a synchronous signal can arrive. The kernel's side of the state is which threads are
  suspended.
\<close>

unbundle bit_operations_syntax

section \<open>Numbers\<close>

text \<open>
  The digits are those of \<open>int\<close>s; \<open>- i\<close> is undefined in C for the smallest of them. Identifiers
  of threads are 32 bits wide.
\<close>

type_synonym pid = "32 word"

definition digit :: "nat \<Rightarrow> char" where
  "digit d = char_of (d + 48)"

function local_itoa :: "int \<Rightarrow> string" where
  "local_itoa i =
     (if i < 0 then CHR ''-'' # local_itoa (- i)
      else (if i \<ge> 10 then local_itoa (i div 10) else []) @ [digit (nat (i mod 10))])"
  by pat_completeness auto

termination
  by (relation "measure (\<lambda>i. nat (abs i) + (if i < 0 then 1 else 0))") auto

declare local_itoa.simps [simp del]

definition is_digit :: "char \<Rightarrow> bool" where
  "is_digit c \<longleftrightarrow> 48 \<le> (of_char c :: nat) \<and> (of_char c :: nat) \<le> 57"

fun atoi_loop :: "pid \<Rightarrow> string \<Rightarrow> pid" where
  "atoi_loop n [] = n"
| "atoi_loop n (c # s) = (if is_digit c then atoi_loop (10 * n + (of_char c - 48)) s else n)"

definition local_atoi :: "string \<Rightarrow> pid" where
  "local_atoi s =
     (case s of
        c # s' \<Rightarrow> if c = CHR ''-'' then - atoi_loop 0 s' else atoi_loop 0 s
      | [] \<Rightarrow> 0)"

section \<open>Resuming\<close>

text \<open>
  Detaching succeeds for a thread that is suspended. The loop goes down from the last
  thread; the result says whether at least one had been suspended.
\<close>

definition ptrace_detach :: "pid \<Rightarrow> pid list \<Rightarrow> bool \<times> pid list" where
  "ptrace_detach p suspended = (p \<in> set suspended, removeAll p suspended)"

fun resume_loop :: "pid list \<Rightarrow> bool \<Rightarrow> pid list \<Rightarrow> bool \<times> pid list" where
  "resume_loop [] detached suspended = (detached, suspended)"
| "resume_loop (p # ps) detached suspended =
     (case ptrace_detach p suspended of (ok, suspended) \<Rightarrow> resume_loop ps (detached \<or> ok) suspended)"

definition ResumeAllProcessThreads :: "pid list \<Rightarrow> pid list \<Rightarrow> bool \<times> pid list" where
  "ResumeAllProcessThreads pids suspended = resume_loop (rev pids) False suspended"

section \<open>The state of the lister\<close>

text \<open>
  Where it is: about to make the marker, about to open a directory, between two entries, or at one of the statements
  that handle a thread found; calling back; gone with an exit status.
\<close>

datatype lister_pc =
    Starting | Opening | Scanning | Publishing pid | Attaching pid | Waiting pid | Comparing pid
  | Retracting | Unpublishing | Calling_back | Exited nat

text \<open>
  \<open>pids[0 .. num_threads)\<close> is \<open>take num_threads pids\<close>; the globals of the signal handler are
  \<open>sig_on\<close> (\<open>sig_pids\<close>, which is \<open>NULL\<close> or that array) and \<open>sig_num_threads\<close>.
\<close>

record lister =
  pc :: lister_pc
  pids :: "pid list"
  num_threads :: nat
  max_threads :: nat
  added_entries :: nat
  found_parent :: bool
  proc_path :: nat
  sig_on :: bool
  sig_num_threads :: nat
  suspended :: "pid list"
  ls_result :: int
  ls_err :: int

definition lister_start :: "pid list \<Rightarrow> lister" where
  "lister_start others =
     \<lparr>pc = Starting, pids = [], num_threads = 0, max_threads = 0, added_entries = 0, found_parent = False, proc_path = 0,
      sig_on = False, sig_num_threads = 0, suspended = others, ls_result = -1, ls_err = 0\<rparr>"

text \<open>
  The answers of the kernel: making the marker socket and finding it in \<open>/proc\<close>, opening a directory (with its link count), an entry of it (inode
  number, name, and whether its marker is the lister's), its end, and the calls for a
  thread. \<open>Go\<close> is a step without a call. The callback returns its result, its \<open>errno\<close> and the
  threads it has left suspended.
\<close>

datatype lister_event =
    Marker_made | Marker_failed int | Opened nat | Open_failed int | Stat_failed int
  | Entry nat string bool | End_of_dir | Dir_failed int
  | Attach_answer bool | Waited | Wait_interrupted | Wait_failed | Same_memory bool
  | Go | Returned int int "pid list"

definition PROC_PATHS :: nat where
  "PROC_PATHS = 2"

definition lister_failure :: "int \<Rightarrow> lister \<Rightarrow> lister" where
  "lister_failure err st = st\<lparr>pc := Exited 1, ls_result := -1, ls_err := err\<rparr>"

text \<open>The label \<open>detach_threads\<close>: everything is resumed before the next try.\<close>

definition detach_threads :: "lister \<Rightarrow> lister" where
  "detach_threads st =
     st\<lparr>suspended := snd (ResumeAllProcessThreads (take (num_threads st) (pids st)) (suspended st)),
        sig_on := False, num_threads := 0, sig_num_threads := 0, max_threads := max_threads st + 100, pc := Opening\<rparr>"

definition entry_pid :: "string \<Rightarrow> pid option" where
  "entry_pid name =
     (let ptr = (case name of c # s \<Rightarrow> if c = CHR ''.'' then s else name | [] \<Rightarrow> [])
      in case ptr of [] \<Rightarrow> None | c # s \<Rightarrow> if is_digit c then Some (local_atoi ptr) else None)"

definition handle_entry :: "pid \<Rightarrow> nat \<Rightarrow> string \<Rightarrow> bool \<Rightarrow> lister \<Rightarrow> lister" where
  "handle_entry clone_pid ino name marked st =
     (if ino = 0 then st
      else case entry_pid name of
             None \<Rightarrow> st
           | Some p \<Rightarrow>
               if p = 0 \<or> p = clone_pid \<or> \<not> marked then st
               else if p \<in> set (take (num_threads st) (pids st)) then st
               else if num_threads st \<ge> max_threads st then detach_threads st
               else st\<lparr>pids := take (num_threads st) (pids st) @ [p], num_threads := num_threads st + 1, pc := Publishing p\<rparr>)"

text \<open>The end of the directory: another pass, another directory, or calling back.\<close>

definition end_of_dir :: "lister \<Rightarrow> lister" where
  "end_of_dir st =
     (if added_entries st \<noteq> 0 then st\<lparr>added_entries := 0\<rparr>
      else
        let st = (if num_threads st > 1 then st else st\<lparr>proc_path := proc_path st + 1\<rparr>)
        in if num_threads st > 1 \<or> proc_path st \<ge> PROC_PATHS then
             if \<not> found_parent st then
               st\<lparr>suspended := snd (ResumeAllProcessThreads (take (num_threads st) (pids st)) (suspended st)), pc := Exited 3\<rparr>
             else st\<lparr>pc := Calling_back\<rparr>
           else detach_threads st)"

definition callback_returned :: "int \<Rightarrow> int \<Rightarrow> pid list \<Rightarrow> lister \<Rightarrow> lister" where
  "callback_returned result err left st =
     (case ResumeAllProcessThreads (take (num_threads st) (pids st)) (filter (\<lambda>p. p \<in> set left) (suspended st)) of
        (forgot, susp) \<Rightarrow>
          st\<lparr>suspended := susp, ls_result := (if forgot then -1 else result),
             ls_err := (if forgot then EINVAL else err), pc := Exited 0\<rparr>)"

text \<open>
  One step, by the statement reached; \<open>None\<close> when the event does not answer what the lister
  is waiting for.
\<close>

fun step_starting :: "lister_event \<Rightarrow> lister \<Rightarrow> lister option" where
  "step_starting Marker_made st = Some (st\<lparr>pc := Opening\<rparr>)"
| "step_starting (Marker_failed e) st = Some (lister_failure e st)"
| "step_starting _ st = None"

fun step_opening :: "lister_event \<Rightarrow> lister \<Rightarrow> lister option" where
  "step_opening (Open_failed e) st =
     (if proc_path st + 1 < PROC_PATHS then Some (st\<lparr>proc_path := proc_path st + 1\<rparr>)
      else Some (lister_failure e (st\<lparr>proc_path := proc_path st + 1\<rparr>)))"
| "step_opening (Stat_failed e) st = Some (lister_failure e st)"
| "step_opening (Opened nlink) st =
     Some (st\<lparr>max_threads := max (max_threads st) (nlink + 100), added_entries := 0,
              sig_num_threads := num_threads st, sig_on := True, pc := Scanning\<rparr>)"
| "step_opening _ st = None"

fun step_scanning :: "pid \<Rightarrow> lister_event \<Rightarrow> lister \<Rightarrow> lister option" where
  "step_scanning clone_pid (Dir_failed e) st = Some (lister_failure e st)"
| "step_scanning clone_pid End_of_dir st = Some (end_of_dir st)"
| "step_scanning clone_pid (Entry ino name marked) st = Some (handle_entry clone_pid ino name marked st)"
| "step_scanning clone_pid _ st = None"

fun step_attaching :: "pid \<Rightarrow> lister_event \<Rightarrow> lister \<Rightarrow> lister option" where
  "step_attaching p (Attach_answer True) st = Some (st\<lparr>suspended := p # suspended st, pc := Waiting p\<rparr>)"
| "step_attaching p (Attach_answer False) st = Some (st\<lparr>pc := Retracting\<rparr>)"
| "step_attaching p _ st = None"

text \<open>Giving up a thread already attached.\<close>

definition let_go :: "pid \<Rightarrow> lister \<Rightarrow> lister" where
  "let_go p st = st\<lparr>suspended := snd (ptrace_detach p (suspended st)), pc := Retracting\<rparr>"

fun step_waiting :: "pid \<Rightarrow> lister_event \<Rightarrow> lister \<Rightarrow> lister option" where
  "step_waiting p Wait_interrupted st = Some st"
| "step_waiting p Wait_failed st = Some (let_go p st)"
| "step_waiting p Waited st = Some (st\<lparr>pc := Comparing p\<rparr>)"
| "step_waiting p _ st = None"

fun step_comparing :: "pid \<Rightarrow> pid \<Rightarrow> lister_event \<Rightarrow> lister \<Rightarrow> lister option" where
  "step_comparing ppid p (Same_memory True) st =
     Some (st\<lparr>found_parent := found_parent st \<or> p = ppid, added_entries := added_entries st + 1, pc := Scanning\<rparr>)"
| "step_comparing ppid p (Same_memory False) st = Some (let_go p st)"
| "step_comparing ppid p _ st = None"

fun step_calling :: "lister_event \<Rightarrow> lister \<Rightarrow> lister option" where
  "step_calling (Returned result err left) st = Some (callback_returned result err left st)"
| "step_calling _ st = None"

fun step_silent :: "lister \<Rightarrow> lister_event \<Rightarrow> lister option" where
  "step_silent st' Go = Some st'"
| "step_silent st' _ = None"

definition lister_step :: "pid \<Rightarrow> pid \<Rightarrow> lister_event \<Rightarrow> lister \<Rightarrow> lister option" where
  "lister_step clone_pid ppid ev st =
     (case pc st of
        Starting \<Rightarrow> step_starting ev st
      | Opening \<Rightarrow> step_opening ev st
      | Scanning \<Rightarrow> step_scanning clone_pid ev st
      | Publishing p \<Rightarrow> step_silent (st\<lparr>sig_num_threads := num_threads st, pc := Attaching p\<rparr>) ev
      | Attaching p \<Rightarrow> step_attaching p ev st
      | Waiting p \<Rightarrow> step_waiting p ev st
      | Comparing p \<Rightarrow> step_comparing ppid p ev st
      | Retracting \<Rightarrow> step_silent (st\<lparr>num_threads := num_threads st - 1, pc := Unpublishing\<rparr>) ev
      | Unpublishing \<Rightarrow> step_silent (st\<lparr>sig_num_threads := num_threads st, pc := Scanning\<rparr>) ev
      | Calling_back \<Rightarrow> step_calling ev st
      | Exited status \<Rightarrow> None)"

section \<open>Signals\<close>

text \<open>
  The handler kills or resumes the threads it knows of: the threads killed, those still
  suspended, and the exit status.
\<close>

abbreviation (input) "SIGABRT \<equiv> (6 :: nat)"

definition SignalHandler :: "nat \<Rightarrow> lister \<Rightarrow> pid list \<times> pid list \<times> nat" where
  "SignalHandler signum st =
     (let known = take (sig_num_threads st) (pids st)
      in if sig_on st then
           if signum = SIGABRT then (rev known, filter (\<lambda>p. p \<notin> set known) (suspended st), 1)
           else ([], if sig_num_threads st > 0 then snd (ResumeAllProcessThreads known (suspended st)) else suspended st, 2)
         else ([], suspended st, if signum = SIGABRT then 1 else 2))"

section \<open>Listing all threads\<close>

text \<open>
  How the lister ended, as \<open>waitpid\<close> tells it: it could not be cloned or waited for, it was
  killed, or it exited with a status; then \<open>outcome\<close> is what it left in \<open>args\<close>.
\<close>

datatype lister_end = No_lister int | Wait_error int | Lister_killed | Lister_exited nat

abbreviation (input) "EPERM \<equiv> (1::int)"
abbreviation (input) "ECHILD \<equiv> (10::int)"
abbreviation (input) "EFAULT \<equiv> (14::int)"

definition ListAllProcessThreads :: "int option \<Rightarrow> lister_end \<Rightarrow> int \<times> int \<Rightarrow> int \<times> int" where
  "ListAllProcessThreads mask_failed ended outcome =
     (case mask_failed of
        Some e \<Rightarrow> (-1, e)
      | None \<Rightarrow>
          (case ended of
             No_lister e \<Rightarrow> (-1, e)
           | Wait_error e \<Rightarrow> (-1, e)
           | Lister_killed \<Rightarrow> (-1, EFAULT)
           | Lister_exited status \<Rightarrow>
               if status = 0 then outcome
               else if status = 2 then (-1, EFAULT)
               else if status = 3 then (-1, EPERM)
               else (-1, ECHILD)))"

section \<open>Runs\<close>

inductive lister_reach :: "pid \<Rightarrow> pid \<Rightarrow> lister \<Rightarrow> bool" for clone_pid ppid where
  reach_start: "lister_reach clone_pid ppid (lister_start [])"
| reach_step: "lister_reach clone_pid ppid st \<Longrightarrow> lister_step clone_pid ppid ev st = Some st' \<Longrightarrow>
    lister_reach clone_pid ppid st'"

fun lister_run :: "pid \<Rightarrow> pid \<Rightarrow> lister_event list \<Rightarrow> lister \<Rightarrow> lister option" where
  "lister_run clone_pid ppid [] st = Some st"
| "lister_run clone_pid ppid (ev # evs) st =
     Option.bind (lister_step clone_pid ppid ev st) (lister_run clone_pid ppid evs)"

section \<open>The threads suspended are those the handler knows\<close>

lemma resume_loop_exact:
  "resume_loop ps d susp = (d \<or> (\<exists>p \<in> set ps. p \<in> set susp), filter (\<lambda>p. p \<notin> set ps) susp)"
  by (induction ps arbitrary: d susp) (auto simp: ptrace_detach_def removeAll_filter_not_eq intro: filter_cong)

lemma resume_exact:
  "ResumeAllProcessThreads ps susp = ((\<exists>p \<in> set ps. p \<in> set susp), filter (\<lambda>p. p \<notin> set ps) susp)"
  by (simp add: ResumeAllProcessThreads_def resume_loop_exact)

lemma resume_all: "set susp \<subseteq> set ps \<Longrightarrow> snd (ResumeAllProcessThreads ps susp) = []"
  by (auto simp: resume_exact filter_empty_conv)

definition known :: "nat \<Rightarrow> lister \<Rightarrow> pid set" where
  "known n st = set (take n (pids st))"

definition lister_ok :: "lister \<Rightarrow> bool" where
  "lister_ok st \<longleftrightarrow>
     num_threads st \<le> length (pids st) \<and> distinct (take (num_threads st) (pids st)) \<and>
     (case pc st of
        Starting \<Rightarrow> num_threads st = 0 \<and> suspended st = []
      | Opening \<Rightarrow> num_threads st = 0 \<and> suspended st = []
      | Scanning \<Rightarrow> set (suspended st) = known (num_threads st) st \<and> sig_num_threads st = num_threads st \<and> sig_on st
      | Publishing p \<Rightarrow> (\<exists>n. num_threads st = Suc n \<and> pids st ! n = p \<and> set (suspended st) = known n st \<and> sig_num_threads st = n) \<and> sig_on st
      | Attaching p \<Rightarrow> (\<exists>n. num_threads st = Suc n \<and> pids st ! n = p \<and> set (suspended st) = known n st) \<and>
          sig_num_threads st = num_threads st \<and> sig_on st
      | Waiting p \<Rightarrow> (\<exists>n. num_threads st = Suc n \<and> pids st ! n = p) \<and> set (suspended st) = known (num_threads st) st \<and>
          sig_num_threads st = num_threads st \<and> sig_on st
      | Comparing p \<Rightarrow> (\<exists>n. num_threads st = Suc n \<and> pids st ! n = p) \<and> set (suspended st) = known (num_threads st) st \<and>
          sig_num_threads st = num_threads st \<and> sig_on st
      | Retracting \<Rightarrow> (\<exists>n. num_threads st = Suc n \<and> set (suspended st) = known n st) \<and>
          sig_num_threads st = num_threads st \<and> sig_on st
      | Unpublishing \<Rightarrow> set (suspended st) = known (num_threads st) st \<and> sig_num_threads st = Suc (num_threads st) \<and> sig_on st
      | Calling_back \<Rightarrow> set (suspended st) = known (num_threads st) st \<and> sig_num_threads st = num_threads st \<and> sig_on st
      | Exited status \<Rightarrow> status \<in> {0, 1, 3} \<and> (status \<noteq> 1 \<longrightarrow> suspended st = []))"

lemma known_less: "m \<le> n \<Longrightarrow> known m st \<subseteq> known n st"
  by (simp add: known_def set_take_subset_set_take)

lemma known_Suc: "n < length (pids st) \<Longrightarrow> known (Suc n) st = insert (pids st ! n) (known n st)"
  by (simp add: known_def take_Suc_conv_app_nth)

lemma handler_knows:
  assumes "lister_ok st" and "\<forall>status. pc st \<noteq> Exited status"
  shows "set (suspended st) \<subseteq> known (sig_num_threads st) st" and "sig_on st \<or> suspended st = []"
proof -
  have "\<exists>m \<le> sig_num_threads st. set (suspended st) = known m st"
    using assms by (cases "pc st") (auto simp: lister_ok_def known_def intro: exI [of _ 0] exI [of _ "num_threads st"],
      (metis le_Suc_eq order_refl)+)
  then show "set (suspended st) \<subseteq> known (sig_num_threads st) st" using known_less by metis
  show "sig_on st \<or> suspended st = []" using assms by (cases "pc st") (auto simp: lister_ok_def)
qed

lemma detach_ok: "lister_ok st \<Longrightarrow> pc st = Scanning \<Longrightarrow> lister_ok (detach_threads st)"
  by (auto simp: lister_ok_def detach_threads_def known_def intro: resume_all)

lemma handle_entry_ok:
  assumes "lister_ok st" and "pc st = Scanning"
  shows "lister_ok (handle_entry clone_pid ino name marked st)"
proof -
  have "lister_ok (st\<lparr>pids := take (num_threads st) (pids st) @ [p], num_threads := num_threads st + 1, pc := Publishing p\<rparr>)"
    if "p \<notin> set (take (num_threads st) (pids st))" for p
    using assms that by (auto simp: lister_ok_def known_def min_absorb2 nth_append)
  then show ?thesis using assms detach_ok [OF assms]
    by (auto simp: handle_entry_def split: option.split)
qed

lemma end_of_dir_ok:
  assumes "lister_ok st" and "pc st = Scanning"
  shows "lister_ok (end_of_dir st)"
proof -
  have more: "lister_ok (st\<lparr>proc_path := k\<rparr>)" "pc (st\<lparr>proc_path := k\<rparr>) = Scanning" for k
    using assms by (simp_all add: lister_ok_def known_def)
  have gone: "lister_ok (st'\<lparr>suspended := snd (ResumeAllProcessThreads (take (num_threads st') (pids st')) (suspended st')), pc := Exited 3\<rparr>)"
    if "lister_ok st'" "pc st' = Scanning" for st'
    using that by (auto simp: lister_ok_def known_def intro: resume_all)
  have calling: "lister_ok (st'\<lparr>pc := Calling_back\<rparr>)" if "lister_ok st'" "pc st' = Scanning" for st'
    using that by (simp add: lister_ok_def known_def)
  have again: "lister_ok (st\<lparr>added_entries := 0\<rparr>)" using assms by (simp add: lister_ok_def known_def)
  show ?thesis
    using gone [OF assms] gone [OF more] calling [OF assms] calling [OF more] detach_ok [OF assms] detach_ok [OF more] again
    unfolding end_of_dir_def Let_def by (simp split: if_split)
qed

lemma opened_ok:
  "lister_ok st \<Longrightarrow> pc st = Opening \<Longrightarrow>
     lister_ok (st\<lparr>max_threads := k, added_entries := 0, sig_num_threads := num_threads st, sig_on := True, pc := Scanning\<rparr>)"
  by (simp add: lister_ok_def known_def)

lemma publish_ok:
  "lister_ok st \<Longrightarrow> pc st = Publishing p \<Longrightarrow> lister_ok (st\<lparr>sig_num_threads := num_threads st, pc := Attaching p\<rparr>)"
  by (auto simp: lister_ok_def known_def)

lemma attach_ok:
  assumes "lister_ok st" and "pc st = Attaching p"
  shows "lister_ok (st\<lparr>suspended := p # suspended st, pc := Waiting p\<rparr>)" and "lister_ok (st\<lparr>pc := Retracting\<rparr>)"
  using assms by (auto simp: lister_ok_def known_def take_Suc_conv_app_nth)

lemma let_go_ok:
  assumes "lister_ok st" and "pc st = Waiting p \<or> pc st = Comparing p"
  shows "lister_ok (let_go p st)"
  using assms by (auto simp: lister_ok_def known_def let_go_def ptrace_detach_def take_Suc_conv_app_nth)

lemma keep_ok:
  "lister_ok st \<Longrightarrow> pc st = Waiting p \<Longrightarrow> lister_ok (st\<lparr>pc := Comparing p\<rparr>)"
  "lister_ok st \<Longrightarrow> pc st = Comparing p \<Longrightarrow> lister_ok (st\<lparr>found_parent := b, added_entries := k, pc := Scanning\<rparr>)"
  by (auto simp: lister_ok_def known_def)

lemma distinct_take_Suc: "distinct (take (Suc n) xs) \<Longrightarrow> distinct (take n xs)"
  by (metis distinct_take le_SucI min_def order_refl take_take)

lemma retract_ok:
  assumes "lister_ok st" and "pc st = Retracting"
  shows "lister_ok (st\<lparr>num_threads := num_threads st - 1, pc := Unpublishing\<rparr>)"
proof -
  obtain n where n: "num_threads st = Suc n" "set (suspended st) = known n st" "sig_num_threads st = Suc n" "sig_on st"
    using assms by (auto simp: lister_ok_def)
  have "Suc n \<le> length (pids st)" "distinct (take (Suc n) (pids st))" using assms n by (simp_all add: lister_ok_def)
  then show ?thesis using n distinct_take_Suc by (simp add: lister_ok_def known_def)
qed

lemma unpublish_ok:
  "lister_ok st \<Longrightarrow> pc st = Unpublishing \<Longrightarrow> lister_ok (st\<lparr>sig_num_threads := num_threads st, pc := Scanning\<rparr>)"
  by (simp add: lister_ok_def known_def)

lemma callback_ok:
  "lister_ok st \<Longrightarrow> pc st = Calling_back \<Longrightarrow> lister_ok (callback_returned result err left st)"
  by (auto simp: lister_ok_def known_def callback_returned_def resume_exact filter_empty_conv)

lemma failure_ok: "lister_ok st \<Longrightarrow> lister_ok (lister_failure e st)"
  by (simp add: lister_ok_def lister_failure_def)

lemma step_starting_ok:
  assumes "lister_ok st" and "pc st = Starting" and "step_starting ev st = Some st'"
  shows "lister_ok st'"
proof -
  have "lister_ok (st\<lparr>pc := Opening\<rparr>)" using assms by (simp add: lister_ok_def known_def)
  then show ?thesis using assms failure_ok by (cases ev) auto
qed

lemma step_opening_ok:
  assumes "lister_ok st" and "pc st = Opening" and "step_opening ev st = Some st'"
  shows "lister_ok st'"
proof -
  have "lister_ok (st\<lparr>proc_path := k\<rparr>)" for k using assms by (simp add: lister_ok_def known_def)
  then show ?thesis using assms failure_ok opened_ok by (cases ev) (auto split: if_splits)
qed

lemma step_scanning_ok:
  "lister_ok st \<Longrightarrow> pc st = Scanning \<Longrightarrow> step_scanning clone_pid ev st = Some st' \<Longrightarrow> lister_ok st'"
  by (cases ev) (auto simp: failure_ok handle_entry_ok end_of_dir_ok)

lemma step_attaching_ok:
  "lister_ok st \<Longrightarrow> pc st = Attaching p \<Longrightarrow> step_attaching p ev st = Some st' \<Longrightarrow> lister_ok st'"
  by (erule step_attaching.elims) (auto simp: attach_ok)

lemma step_waiting_ok:
  "lister_ok st \<Longrightarrow> pc st = Waiting p \<Longrightarrow> step_waiting p ev st = Some st' \<Longrightarrow> lister_ok st'"
  by (cases ev) (auto simp: let_go_ok keep_ok)

lemma step_comparing_ok:
  "lister_ok st \<Longrightarrow> pc st = Comparing p \<Longrightarrow> step_comparing ppid p ev st = Some st' \<Longrightarrow> lister_ok st'"
  by (erule step_comparing.elims) (auto simp: let_go_ok keep_ok)

lemma step_calling_ok:
  "lister_ok st \<Longrightarrow> pc st = Calling_back \<Longrightarrow> step_calling ev st = Some st' \<Longrightarrow> lister_ok st'"
  by (cases ev) (auto simp: callback_ok)

lemma step_silent_cases: "step_silent st1 ev = Some st' \<Longrightarrow> st' = st1"
  by (cases ev) auto

lemma lister_step_ok:
  assumes "lister_ok st" and "lister_step clone_pid ppid ev st = Some st'"
  shows "lister_ok st'"
proof (cases "pc st")
  case Starting
  then show ?thesis using step_starting_ok assms by (simp add: lister_step_def)
next
  case Opening
  then show ?thesis using step_opening_ok assms by (simp add: lister_step_def)
next
  case Scanning
  then show ?thesis using step_scanning_ok assms by (simp add: lister_step_def)
next
  case (Publishing p)
  then show ?thesis using assms publish_ok [of st p] by (simp add: lister_step_def) (drule step_silent_cases, simp)
next
  case (Attaching p)
  then show ?thesis using step_attaching_ok assms by (simp add: lister_step_def)
next
  case (Waiting p)
  then show ?thesis using step_waiting_ok assms by (simp add: lister_step_def)
next
  case (Comparing p)
  then show ?thesis using step_comparing_ok assms by (simp add: lister_step_def)
next
  case Retracting
  then show ?thesis using assms retract_ok [of st] by (simp add: lister_step_def) (drule step_silent_cases, simp)
next
  case Unpublishing
  then show ?thesis using assms unpublish_ok [of st] by (simp add: lister_step_def) (drule step_silent_cases, simp)
next
  case Calling_back
  then show ?thesis using step_calling_ok assms by (simp add: lister_step_def)
next
  case (Exited status)
  then show ?thesis using assms by (simp add: lister_step_def)
qed

lemma lister_start_ok: "lister_ok (lister_start [])"
  by (simp add: lister_ok_def lister_start_def)

lemma lister_reach_ok: "lister_reach clone_pid ppid st \<Longrightarrow> lister_ok st"
proof (induction rule: lister_reach.induct)
  case reach_start
  show ?case by (rule lister_start_ok)
next
  case (reach_step st ev st')
  then show ?case using lister_step_ok by blast
qed

section \<open>Properties\<close>

lemma digit_is_digit [simp]: "d < 10 \<Longrightarrow> is_digit (digit d)"
  by (simp add: is_digit_def digit_def)

lemma digit_value [simp]: "d < 10 \<Longrightarrow> (of_char (digit d) :: pid) - 48 = of_nat d"
proof -
  assume "d < 10"
  then have "(of_char (digit d) :: nat) = d + 48" by (simp add: digit_def)
  then have "(of_char (digit d) :: pid) = of_nat (d + 48)" by (metis of_nat_of_char)
  then show ?thesis by simp
qed

lemma atoi_loop_append: "\<forall>c \<in> set s. is_digit c \<Longrightarrow> atoi_loop n (s @ t) = atoi_loop (atoi_loop n s) t"
  by (induction s arbitrary: n) auto

lemma itoa_digits:
  "0 \<le> i \<Longrightarrow> (\<forall>c \<in> set (local_itoa i). is_digit c) \<and> local_itoa i \<noteq> [] \<and> atoi_loop 0 (local_itoa i) = of_int i"
proof (induction i rule: local_itoa.induct)
  case (1 i)
  have last: "nat (i mod 10) < 10" by simp
  have int: "(of_nat (nat (i mod 10)) :: pid) = of_int (i mod 10)" by simp
  have split: "(of_int i :: pid) = 10 * of_int (i div 10) + of_int (i mod 10)"
    by (metis div_mult_mod_eq mult.commute of_int_add of_int_mult of_int_numeral)
  show ?case
  proof (cases "i \<ge> 10")
    case True
    then have IH: "\<forall>c \<in> set (local_itoa (i div 10)). is_digit c" "atoi_loop 0 (local_itoa (i div 10)) = of_int (i div 10)"
      using 1 by auto
    have "local_itoa i = local_itoa (i div 10) @ [digit (nat (i mod 10))]"
      using True by (subst local_itoa.simps) simp
    then show ?thesis using IH last int split by (simp add: atoi_loop_append)
  next
    case False
    then have "local_itoa i = [digit (nat (i mod 10))]" using 1(3) by (subst local_itoa.simps) simp
    then show ?thesis using False 1(3) last int by simp
  qed
qed

lemma itoa_first: "0 \<le> i \<Longrightarrow> \<exists>c s. local_itoa i = c # s \<and> c \<noteq> CHR ''-''"
proof -
  assume "0 \<le> i"
  then obtain c s where "local_itoa i = c # s" "is_digit c" using itoa_digits [of i] by (cases "local_itoa i") auto
  moreover have "\<not> is_digit CHR ''-''" by (simp add: is_digit_def)
  ultimately show ?thesis by metis
qed

text \<open>Reading back. \<open>local_atoi\<close> reads what \<open>local_itoa\<close> prints for every number, signs
  included, modulo the width of an identifier.
\<close>

theorem atoi_itoa: "local_atoi (local_itoa i) = of_int i"
proof (cases "i < 0")
  case True
  then have "local_itoa i = CHR ''-'' # local_itoa (- i)" by (subst local_itoa.simps) simp
  then show ?thesis using itoa_digits [of "- i"] True by (simp add: local_atoi_def)
next
  case False
  then obtain c s where "local_itoa i = c # s" "c \<noteq> CHR ''-''" using itoa_first [of i] by auto
  then show ?thesis using itoa_digits [of i] False by (auto simp: local_atoi_def)
qed

text \<open>A run over a list of events ends in a reachable state.\<close>

lemma run_reaches:
  "lister_reach clone_pid ppid st \<Longrightarrow> lister_run clone_pid ppid evs st = Some st' \<Longrightarrow> lister_reach clone_pid ppid st'"
  by (induction evs arbitrary: st) (auto simp: bind_eq_Some_conv intro: reach_step)

lemmas run_from_start = run_reaches [OF reach_start]

text \<open>C6: No thread is left suspended by a fault of the lister. Whenever a synchronous signal
  reaches it, its handler resumes all threads that are suspended at that time and exits with
  2; \<open>SIGABRT\<close> kills all of them and exits with 1.
\<close>

theorem lister_signal_safe:
  assumes "lister_reach clone_pid ppid st" and "\<forall>status. pc st \<noteq> Exited status"
  shows "case SignalHandler signum st of (killed, left, status) \<Rightarrow>
           left = [] \<and>
           (if signum = SIGABRT then set (suspended st) \<subseteq> set killed \<and> status = 1 else killed = [] \<and> status = 2)"
proof -
  have known: "set (suspended st) \<subseteq> set (take (sig_num_threads st) (pids st))"
    using handler_knows(1) [OF lister_reach_ok [OF assms(1)] assms(2)] by (simp add: known_def)
  have on: "sig_on st \<or> suspended st = []" using handler_knows(2) [OF lister_reach_ok [OF assms(1)] assms(2)] .
  show ?thesis
  proof (cases "sig_on st")
    case True
    have "suspended st = []" if "sig_num_threads st = 0" using known that by simp
    then show ?thesis using True known resume_all [OF known]
      by (auto simp: SignalHandler_def Let_def filter_empty_conv)
  next
    case False
    then show ?thesis using on by (simp add: SignalHandler_def Let_def)
  qed
qed

definition two_threads :: "lister_event list" where
  "two_threads =
     [Marker_made, Opened 4, Entry 1 ''.'' True, Entry 2 ''100'' True, Go, Attach_answer True, Wait_interrupted, Waited, Same_memory True,
      Entry 3 ''101'' True, Go, Attach_answer True]"

lemma two_threads_run:
  "\<exists>st. lister_run 7 100 two_threads (lister_start []) = Some st \<and> pc st = Waiting 101 \<and> suspended st = [101, 100]"
  by (simp add: two_threads_def lister_step_def lister_start_def handle_entry_def entry_pid_def local_atoi_def is_digit_def)

lemma lister_signal_safe_witness:
  "\<exists>st. lister_reach 7 100 st \<and> suspended st = [101, 100] \<and>
     fst (snd (SignalHandler 11 st)) = [] \<and> {101, 100} \<subseteq> set (fst (SignalHandler SIGABRT st))"
proof -
  obtain st where st: "lister_run 7 100 two_threads (lister_start []) = Some st" "pc st = Waiting 101" "suspended st = [101, 100]"
    using two_threads_run by blast
  have "lister_reach 7 100 st" "\<forall>status. pc st \<noteq> Exited status" using run_from_start st by auto
  from lister_signal_safe [OF this, of 11] lister_signal_safe [OF this, of SIGABRT] this(1) st(3)
  show ?thesis by (intro exI [of _ st]) (auto simp: case_prod_unfold)
qed


text \<open>C16: What the callback gets. When it is called, the list of threads has no duplicates and is
  exactly the set of the threads that are suspended.
\<close>

theorem lister_callback_threads:
  assumes "lister_reach clone_pid ppid st" and "pc st = Calling_back"
  shows "distinct (take (num_threads st) (pids st)) \<and> num_threads st \<le> length (pids st) \<and>
         set (suspended st) = set (take (num_threads st) (pids st))"
  using lister_reach_ok [OF assms(1)] assms(2) by (simp add: lister_ok_def known_def)

definition one_pass :: "lister_event list" where
  "one_pass =
     [Marker_made, Opened 4, Entry 2 ''100'' True, Go, Attach_answer True, Waited, Same_memory True,
      Entry 3 ''101'' True, Go, Attach_answer True, Waited, Same_memory True,
      Entry 4 ''102'' True, Go, Attach_answer False, Go, Go, End_of_dir, Entry 2 ''100'' True, End_of_dir]"

lemma one_pass_run:
  "\<exists>st. lister_run 7 100 one_pass (lister_start []) = Some st \<and> pc st = Calling_back \<and>
     suspended st = [101, 100] \<and> num_threads st = 2 \<and> take 2 (pids st) = [100, 101]"
  by (simp add: one_pass_def lister_step_def lister_start_def handle_entry_def entry_pid_def local_atoi_def is_digit_def
      end_of_dir_def)

lemma lister_callback_threads_witness:
  "\<exists>st. lister_reach 7 100 st \<and> pc st = Calling_back \<and> num_threads st = 2 \<and>
     set (suspended st) = {100, 101} \<and> distinct (take 2 (pids st))"
proof -
  obtain st where st: "lister_run 7 100 one_pass (lister_start []) = Some st" "pc st = Calling_back"
      "num_threads st = 2" "take 2 (pids st) = [100, 101]"
    using one_pass_run by blast
  have reach: "lister_reach 7 100 st" by (rule run_from_start [OF st(1)])
  show ?thesis using lister_callback_threads [OF reach st(2)] reach st(2,3,4) by auto
qed

text \<open>All threads run again when the lister has done its work: unless \<open>ListAllProcessThreads\<close>
  reports \<open>ECHILD\<close>, no thread is suspended any more after the lister has exited, whatever
  the callback did.
\<close>

theorem lister_none_left:
  assumes "lister_reach clone_pid ppid st" and "pc st = Exited status"
    and "ListAllProcessThreads None (Lister_exited status) (ls_result st, ls_err st) \<noteq> (-1, ECHILD)"
  shows "suspended st = []"
  using lister_reach_ok [OF assms(1)] assms(2,3) by (auto simp: lister_ok_def ListAllProcessThreads_def)

lemma called_back_run:
  "\<exists>st. lister_run 7 100 (one_pass @ [Returned 5 0 [101]]) (lister_start []) = Some st \<and> pc st = Exited 0 \<and>
     (ls_result st, ls_err st) = (-1, EINVAL)"
  by (simp add: one_pass_def lister_step_def lister_start_def handle_entry_def entry_pid_def local_atoi_def is_digit_def
      end_of_dir_def callback_returned_def resume_exact)

lemma lister_none_left_witness:
  "\<exists>st. lister_reach 7 100 st \<and> pc st = Exited 0 \<and> suspended st = [] \<and>
     ListAllProcessThreads None (Lister_exited 0) (ls_result st, ls_err st) = (-1, EINVAL)"
proof -
  obtain st where st: "lister_run 7 100 (one_pass @ [Returned 5 0 [101]]) (lister_start []) = Some st"
      "pc st = Exited 0" "(ls_result st, ls_err st) = (-1, EINVAL)"
    using called_back_run by blast
  have reach: "lister_reach 7 100 st" by (rule run_from_start [OF st(1)])
  have result: "ListAllProcessThreads None (Lister_exited 0) (ls_result st, ls_err st) = (-1, EINVAL)"
    using st(3) by (simp add: ListAllProcessThreads_def)
  then show ?thesis using lister_none_left [OF reach st(2)] reach st(2) by auto
qed

text \<open>
  After a failure to read a directory the threads found so far stay suspended, because the
  label \<open>failure\<close> does not resume them; the lister exits with 1.
\<close>

lemma failure_strands:
  "\<exists>st. lister_run 7 100 [Marker_made, Opened 4, Entry 2 ''100'' True, Go, Attach_answer True, Waited, Same_memory True, Dir_failed 5]
          (lister_start []) = Some st \<and> pc st = Exited 1 \<and> suspended st = [100]"
  by (simp add: lister_step_def lister_start_def handle_entry_def entry_pid_def local_atoi_def is_digit_def lister_failure_def)

text \<open>
  \<open>found_parent\<close> is not reset at \<open>detach_threads\<close>: found in the first directory only, the
  parent counts as found, and the callback is run with no thread at all.
\<close>

lemma stale_parent:
  "\<exists>st. lister_run 7 100 [Marker_made, Opened 3, Entry 2 ''100'' True, Go, Attach_answer True, Waited, Same_memory True, End_of_dir,
            End_of_dir, Opened 50, Entry 2 ''100'' True, Go, Attach_answer False, Go, Go, End_of_dir]
          (lister_start []) = Some st \<and> pc st = Calling_back \<and> num_threads st = 0 \<and> suspended st = []"
  by (simp add: lister_step_def lister_start_def handle_entry_def entry_pid_def local_atoi_def is_digit_def
      end_of_dir_def detach_threads_def resume_exact PROC_PATHS_def)


end
