(* ===== verification/SigSet.thy ===== *)
theory SigSet
  imports CoreParams
begin

text \<open>
  The signal sets of \<open>coredumper/linux_syscall_support.h\<close> and the mask that
  \<open>ListAllProcessThreads\<close> builds with them. A set is an array of 64-bit words, one for the 64
  signals of x86-64. The interface \<open>signal_sets\<close> says what a client may rely on.
\<close>

unbundle bit_operations_syntax

section \<open>The operations\<close>

type_synonym sigset = "64 word list"

text \<open>The elements of the array \<open>sig\<close>, and the signals it has room for.\<close>

definition sigset_words :: nat where
  "sigset_words = (64 + 8 * 8 - 1) div (8 * 8)"

definition sigset_bits :: "sigset \<Rightarrow> int" where
  "sigset_bits sigs = 8 * (8 * int (length sigs))"

text \<open>\<open>memset\<close> with 0 and with -1 in every byte.\<close>

definition sigemptyset :: "sigset \<Rightarrow> sigset" where
  "sigemptyset sigs = map (\<lambda>w. 0) sigs"

definition sigfillset :: "sigset \<Rightarrow> sigset" where
  "sigfillset sigs = map (\<lambda>w. - 1) sigs"

text \<open>\<open>Inl\<close> is -1 with the \<open>errno\<close>; otherwise 0 with the new set, or the answer.\<close>

definition in_range :: "sigset \<Rightarrow> int \<Rightarrow> bool" where
  "in_range sigs signum \<longleftrightarrow> \<not> (signum < 1 \<or> signum > sigset_bits sigs)"

definition sig_index :: "int \<Rightarrow> nat" where
  "sig_index signum = nat (signum - 1) div 64"

definition sig_bit :: "int \<Rightarrow> 64 word" where
  "sig_bit signum = push_bit (nat (signum - 1) mod 64) 1"

definition sigaddset :: "sigset \<Rightarrow> int \<Rightarrow> int + sigset" where
  "sigaddset sigs signum =
     (if \<not> in_range sigs signum then Inl EINVAL
      else Inr (sigs[sig_index signum := sigs ! sig_index signum OR sig_bit signum]))"

definition sigdelset :: "sigset \<Rightarrow> int \<Rightarrow> int + sigset" where
  "sigdelset sigs signum =
     (if \<not> in_range sigs signum then Inl EINVAL
      else Inr (sigs[sig_index signum := sigs ! sig_index signum AND NOT (sig_bit signum)]))"

definition sigismember :: "sigset \<Rightarrow> int \<Rightarrow> int + int" where
  "sigismember sigs signum =
     (if \<not> in_range sigs signum then Inl EINVAL
      else Inr (if sigs ! sig_index signum AND sig_bit signum \<noteq> 0 then 1 else 0))"

section \<open>The mask of the caller of the lister\<close>

text \<open>\<open>SIGABRT, SIGILL, SIGFPE, SIGSEGV, SIGBUS, SIGXCPU, SIGXFSZ\<close>\<close>

definition sync_signals :: "int list" where
  "sync_signals = [6, 4, 8, 11, 7, 24, 25]"

text \<open>A failing \<open>sigdelset\<close> leaves the set as it is; the result is not looked at.\<close>

fun del_signals :: "int list \<Rightarrow> sigset \<Rightarrow> sigset" where
  "del_signals [] sigs = sigs"
| "del_signals (s # ss) sigs =
     del_signals ss (case sigdelset sigs s of Inl e \<Rightarrow> sigs | Inr sigs' \<Rightarrow> sigs')"

definition sig_blocked :: "sigset \<Rightarrow> sigset" where
  "sig_blocked sigs = del_signals sync_signals (sigfillset sigs)"

section \<open>What a client relies on\<close>

text \<open>
  \<open>size s\<close> is the number of signals a set has room for; the state is told apart only by the
  answers of \<open>member\<close>.
\<close>

locale signal_sets =
  fixes empty :: "'s \<Rightarrow> 's" and full :: "'s \<Rightarrow> 's" and add :: "'s \<Rightarrow> int \<Rightarrow> int + 's"
    and del :: "'s \<Rightarrow> int \<Rightarrow> int + 's" and member :: "'s \<Rightarrow> int \<Rightarrow> int + int" and room :: "'s \<Rightarrow> int"
  assumes member_range: "member s n = (if n < 1 \<or> n > room s then Inl EINVAL else Inr 0) \<or>
      member s n = Inr 1 \<and> 1 \<le> n \<and> n \<le> room s"
    and member_empty: "member (empty s) n \<noteq> Inr 1" and room_empty: "room (empty s) = room s"
    and member_full: "member (full s) n = Inr 1 \<longleftrightarrow> 1 \<le> n \<and> n \<le> room s" and room_full: "room (full s) = room s"
    and add_range: "add s n = Inl EINVAL \<longleftrightarrow> \<not> (1 \<le> n \<and> n \<le> room s)" and add_error: "add s n = Inl e \<Longrightarrow> e = EINVAL"
    and add_member: "add s n = Inr s' \<Longrightarrow> member s' k = Inr 1 \<longleftrightarrow> k = n \<or> member s k = Inr 1"
    and add_room: "add s n = Inr s' \<Longrightarrow> room s' = room s"
    and del_range: "del s n = Inl EINVAL \<longleftrightarrow> \<not> (1 \<le> n \<and> n \<le> room s)" and del_error: "del s n = Inl e \<Longrightarrow> e = EINVAL"
    and del_member: "del s n = Inr s' \<Longrightarrow> member s' k = Inr 1 \<longleftrightarrow> k \<noteq> n \<and> member s k = Inr 1"
    and del_room: "del s n = Inr s' \<Longrightarrow> room s' = room s"
begin

text \<open>The signals in a set.\<close>

definition signals :: "'s \<Rightarrow> int set" where
  "signals s = {n. member s n = Inr 1}"

lemma signals_empty: "signals (empty s) = {}"
  using member_empty by (simp add: signals_def)

lemma signals_full: "signals (full s) = {1..room s}"
  by (auto simp: signals_def member_full)

text \<open>A sequence of removals, where one that fails changes nothing.\<close>

definition del_or_keep :: "'s \<Rightarrow> int \<Rightarrow> 's" where
  "del_or_keep s n = (case del s n of Inl e \<Rightarrow> s | Inr s' \<Rightarrow> s')"

lemma signals_del: "signals (del_or_keep s n) = signals s - {n}"
proof (cases "del s n")
  case (Inl e)
  then have "n \<notin> {1..room s}" using del_range del_error by fastforce
  then have "n \<notin> signals s" using member_range [of s n] by (auto simp: signals_def)
  then show ?thesis using Inl by (simp add: del_or_keep_def)
next
  case (Inr s')
  then show ?thesis using del_member [OF Inr] by (auto simp: del_or_keep_def signals_def)
qed

lemma signals_del_all: "signals (foldl del_or_keep s ns) = signals s - set ns"
  by (induction ns arbitrary: s) (auto simp: signals_del)

lemma room_del: "room (del_or_keep s n) = room s"
  using del_room by (auto simp: del_or_keep_def split: sum.split)

lemma member_room: "member s n = (if n \<in> signals s then Inr 1 else if n \<in> {1..room s} then Inr 0 else Inl EINVAL)"
  using member_range [of s n] by (auto simp: signals_def)

end

section \<open>The operations keep the laws\<close>

lemma bit_sig_bit: "bit (sig_bit n) k \<longleftrightarrow> k = nat (n - 1) mod 64"
proof -
  have "nat (n - 1) mod 64 < 64" by simp
  then show ?thesis by (auto simp: sig_bit_def bit_simps)
qed

lemma and_sig_bit: "w AND sig_bit n \<noteq> 0 \<longleftrightarrow> bit w (nat (n - 1) mod 64)"
proof -
  have "w AND sig_bit n = (if bit w (nat (n - 1) mod 64) then sig_bit n else 0)"
    by (rule bit_eqI) (auto simp: bit_sig_bit bit_simps)
  moreover have "sig_bit n \<noteq> 0" using bit_sig_bit [of n "nat (n - 1) mod 64"] by auto
  ultimately show ?thesis by simp
qed

lemma in_range_index: "in_range sigs n \<Longrightarrow> sig_index n < length sigs"
  by (auto simp: in_range_def sigset_bits_def sig_index_def)

lemma same_bit: "1 \<le> n \<Longrightarrow> 1 \<le> k \<Longrightarrow>
  (sig_index n = sig_index k \<and> nat (n - 1) mod 64 = nat (k - 1) mod 64) = (n = k)"
proof
  assume pos: "1 \<le> n" "1 \<le> k" and eq: "sig_index n = sig_index k \<and> nat (n - 1) mod 64 = nat (k - 1) mod 64"
  have "nat (n - 1) = nat (k - 1)"
    using eq unfolding sig_index_def by (metis div_mult_mod_eq)
  then show "n = k" using pos by simp
qed simp

text \<open>The set as a predicate on signals.\<close>

definition has :: "sigset \<Rightarrow> int \<Rightarrow> bool" where
  "has sigs n \<longleftrightarrow> in_range sigs n \<and> bit (sigs ! sig_index n) (nat (n - 1) mod 64)"

lemma member_has: "sigismember sigs n = (if has sigs n then Inr 1 else if in_range sigs n then Inr 0 else Inl EINVAL)"
  by (simp add: sigismember_def has_def and_sig_bit)

lemma range_length: "length s = length t \<Longrightarrow> in_range s n = in_range t n"
  by (simp add: in_range_def sigset_bits_def)

lemma has_add:
  assumes "in_range s n"
  shows "has (s[sig_index n := s ! sig_index n OR sig_bit n]) k \<longleftrightarrow> k = n \<or> has s k"
proof (cases "in_range s k")
  case True
  then have "1 \<le> n" "1 \<le> k" using assms by (auto simp: in_range_def)
  then show ?thesis
    using True in_range_index [OF assms] same_bit [of n k] assms
    by (auto simp: has_def nth_list_update bit_or_iff bit_sig_bit range_length [of "s[_ := _]" s])
next
  case False
  then show ?thesis using assms by (auto simp: has_def range_length [of "s[_ := _]" s])
qed

lemma has_del:
  assumes "in_range s n"
  shows "has (s[sig_index n := s ! sig_index n AND NOT (sig_bit n)]) k \<longleftrightarrow> k \<noteq> n \<and> has s k"
proof (cases "in_range s k")
  case True
  then have "1 \<le> n" "1 \<le> k" using assms by (auto simp: in_range_def)
  moreover have "nat (k - 1) mod 64 < 64" by simp
  ultimately show ?thesis
    using True in_range_index [OF assms] same_bit [of n k] assms
    by (auto simp: has_def nth_list_update bit_and_iff bit_not_iff bit_sig_bit range_length [of "s[_ := _]" s])
next
  case False
  then show ?thesis using assms by (auto simp: has_def range_length [of "s[_ := _]" s])
qed

lemma has_empty: "\<not> has (sigemptyset s) n"
  using in_range_index [of s n] by (auto simp: has_def sigemptyset_def range_length [of "map _ s" s])

lemma has_full: "has (sigfillset s) n \<longleftrightarrow> in_range s n"
proof -
  have "nat (n - 1) mod 64 < 64" by simp
  then show ?thesis
    using in_range_index [of s n] by (auto simp: has_def sigfillset_def range_length [of "map _ s" s])
qed

interpretation kernel_sigset: signal_sets sigemptyset sigfillset sigaddset sigdelset sigismember sigset_bits
proof
  fix s s' :: sigset and n k e :: int
  show "sigismember s n = (if n < 1 \<or> n > sigset_bits s then Inl EINVAL else Inr 0) \<or>
      sigismember s n = Inr 1 \<and> 1 \<le> n \<and> n \<le> sigset_bits s"
    by (auto simp: member_has has_def in_range_def)
  show "sigismember (sigemptyset s) n \<noteq> Inr 1" by (simp add: member_has has_empty)
  show "sigismember (sigfillset s) n = Inr 1 \<longleftrightarrow> 1 \<le> n \<and> n \<le> sigset_bits s"
    by (auto simp: member_has has_full in_range_def)
  show "sigset_bits (sigemptyset s) = sigset_bits s" "sigset_bits (sigfillset s) = sigset_bits s"
    by (simp_all add: sigset_bits_def sigemptyset_def sigfillset_def)
  show "sigaddset s n = Inl EINVAL \<longleftrightarrow> \<not> (1 \<le> n \<and> n \<le> sigset_bits s)"
    "sigdelset s n = Inl EINVAL \<longleftrightarrow> \<not> (1 \<le> n \<and> n \<le> sigset_bits s)"
    by (auto simp: sigaddset_def sigdelset_def in_range_def)
  show "e = EINVAL" if "sigaddset s n = Inl e" using that by (simp add: sigaddset_def split: if_splits)
  show "e = EINVAL" if "sigdelset s n = Inl e" using that by (simp add: sigdelset_def split: if_splits)
  show "sigismember s' k = Inr 1 \<longleftrightarrow> k = n \<or> sigismember s k = Inr 1" if "sigaddset s n = Inr s'"
    using that has_add by (auto simp: sigaddset_def member_has split: if_splits)
  show "sigismember s' k = Inr 1 \<longleftrightarrow> k \<noteq> n \<and> sigismember s k = Inr 1" if "sigdelset s n = Inr s'"
    using that has_del by (auto simp: sigdelset_def member_has split: if_splits)
  show "sigset_bits s' = sigset_bits s" if "sigaddset s n = Inr s'"
    using that by (auto simp: sigaddset_def sigset_bits_def split: if_splits)
  show "sigset_bits s' = sigset_bits s" if "sigdelset s n = Inr s'"
    using that by (auto simp: sigdelset_def sigset_bits_def split: if_splits)
qed

lemma del_signals_fold: "del_signals ns s = foldl kernel_sigset.del_or_keep s ns"
  by (induction ns arbitrary: s) (simp_all add: kernel_sigset.del_or_keep_def)

section \<open>Properties\<close>



end
