(* ===== verification/CoreSession.thy ===== *)
theory CoreSession
  imports CoreProcess ThreadLister SigSet
begin

text \<open>
  The thread lister and the dump together: what \<open>GetCoreDumpFunction\<close> and \<open>WriteCoreDumpFunction\<close>
  of \<open>coredumper/coredumper.c\<close> get from \<open>ListAllProcessThreads\<close> with \<open>InternalGetCoreDump\<close> as its
  callback.
\<close>

section \<open>The callback\<close>

text \<open>
  \<open>st\<close> is where the lister has got to: about to call back, gone with an exit status, or killed
  anywhere else. \<open>InternalGetCoreDump\<close> resumes all threads of its list before it returns.
\<close>

definition callback_step ::
  "process_env \<Rightarrow> CoreDumpParameters \<Rightarrow> string option \<Rightarrow> lister \<times> dump_world \<Rightarrow> (lister \<times> dump_world) res" where
  "callback_step pe params file_name = (\<lambda>(st, w).
     let ps = take (num_threads st) (pids st)
     in bindr (InternalGetCoreDump pe ps params file_name w) (\<lambda>((rc, err), w).
          Inr (callback_returned rc err (snd (ResumeAllProcessThreads ps (suspended st))) st, w)))"

definition dump_process :: "process_env \<Rightarrow> lister \<Rightarrow> dump_world dump_fn" where
  "dump_process pe st params file_name w =
     (case pc st of
        Calling_back \<Rightarrow>
          bindr (callback_step pe params file_name (st, w)) (\<lambda>(st, w).
            Inr (ListAllProcessThreads None (Lister_exited 0) (ls_result st, ls_err st), w))
      | Exited status \<Rightarrow> Inr (ListAllProcessThreads None (Lister_exited status) (ls_result st, ls_err st), w)
      | _ \<Rightarrow> Inr (ListAllProcessThreads None Lister_killed (-1, 0), w))"

section \<open>A dump of all threads\<close>

definition traceable :: "process_env \<Rightarrow> pid \<Rightarrow> bool" where
  "traceable pe p \<longleftrightarrow>
     (\<exists>r. pe_regs pe p = Some r) \<and>
     (\<exists>f. pe_fpregs pe p = Some f \<and> length f = 512)"

definition system_ok :: "process_env \<Rightarrow> bool" where
  "system_ok pe \<longleftrightarrow> length (pe_user pe) = 928 \<and> pe_pagesize pe \<noteq> 0 \<and> (\<forall>e. pe_exe pe = Some e \<longrightarrow> length e < 4096)"

lemma process_ok_parts:
  "process_ok pe ps \<longleftrightarrow> ps \<noteq> [] \<and> distinct ps \<and> list_all (traceable pe) ps \<and> system_ok pe"
  by (simp add: process_ok_def traceable_def [abs_def] system_ok_def)

lemma listed_process_ok:
  assumes "lister_reach clone_pid ppid st" and "pc st = Calling_back" and "suspended st \<noteq> []"
    and "list_all (traceable pe) (suspended st)" and "system_ok pe"
  shows "process_ok pe (take (num_threads st) (pids st))"
proof -
  have st: "distinct (take (num_threads st) (pids st))" "set (suspended st) = set (take (num_threads st) (pids st))"
    using lister_reach_ok [OF assms(1)] assms(2) by (simp_all add: lister_ok_def known_def)
  then have "take (num_threads st) (pids st) \<noteq> []" using assms(3) by (metis set_empty)
  then show ?thesis using st assms(4,5) by (simp add: process_ok_parts list_all_iff)
qed

text \<open>The result of the callback is passed on, because all threads have been resumed by then.\<close>

lemma callback_passes:
  assumes "lister_reach clone_pid ppid st" and "pc st = Calling_back"
    and "InternalGetCoreDump pe (take (num_threads st) (pids st)) params file_name w = Inr ((rc, err), w')"
  shows "dump_process pe st params file_name w = Inr ((rc, err), w')"
proof -
  have "set (suspended st) \<subseteq> set (take (num_threads st) (pids st))"
    using lister_reach_ok [OF assms(1)] assms(2) by (simp add: lister_ok_def known_def)
  then have "snd (ResumeAllProcessThreads (take (num_threads st) (pids st)) (suspended st)) = []" by (rule resume_all)
  then show ?thesis
    using assms(2,3) by (simp add: dump_process_def callback_step_def callback_returned_def resume_exact ListAllProcessThreads_def)
qed



end
