(* ===== verification/CxxWrap.thy ===== *)
theory CxxWrap
  imports TestOutcome
begin

text \<open>
  The C++ classes of \<open>lib/cxxwrap.cc\<close> and \<open>lib/tinu/cxxwrap.h\<close>: backtraces owned by objects,
  leak watching through virtual functions, messages with a map of their tags, log handlers, and
  tests as methods whose exceptions become failed assertions. Virtual functions and the bodies
  of tests are parameters; a C++ exception that leaves a function is a value.
\<close>

section \<open>Backtraces\<close>

text \<open>
  An object holds the pointer to a counted trace; the trace may be \<open>NULL\<close> when it could not
  be made. The constructors and the destructor, by the pointer they are called with.
\<close>

definition CxxBacktrace_create ::
  "'e logger \<Rightarrow> gptr list option \<Rightarrow> 32 word \<Rightarrow> 32 word \<Rightarrow> trace_store \<times> 'e \<Rightarrow> (nat option \<times> trace_store \<times> 'e) res" where
  "CxxBacktrace_create lg frames skip depth = (\<lambda>(s, e).
     bindr (backtrace_create_depth lg frames depth skip e) (\<lambda>(trace, e).
       case new_trace s trace of (s, t) \<Rightarrow> Inr (t, s, e)))"

definition CxxBacktrace_wrap :: "nat option \<Rightarrow> trace_store \<Rightarrow> (nat option \<times> trace_store) res" where
  "CxxBacktrace_wrap trace s = bindr (ref_trace s trace) (\<lambda>s. Inr (trace, s))"

definition CxxBacktrace_copy :: "nat option \<Rightarrow> trace_store \<Rightarrow> (nat option \<times> trace_store) res" where
  "CxxBacktrace_copy m_obj s = bindr (ref_trace s m_obj) (\<lambda>s. Inr (m_obj, s))"

definition CxxBacktrace_delete :: "nat option \<Rightarrow> trace_store \<Rightarrow> trace_store res" where
  "CxxBacktrace_delete m_obj s = unref_trace s m_obj"

text \<open>
  An entry. The constructor does not set \<open>m_function\<close>: \<open>garbage\<close> is what the memory held.
\<close>

record cxx_entry =
  en_obj :: "backtrace_entry option"
  en_function :: ptr
  en_source :: string
  en_line :: "32 word"

definition Entry_create :: "symbols \<Rightarrow> ptr \<Rightarrow> backtrace_entry option \<Rightarrow> cxx_entry res" where
  "Entry_create sy garbage ent =
     bindr (case ent of
              None \<Rightarrow> (case sy_dwarf sy of None \<Rightarrow> Inr None | Some dwarf \<Rightarrow> Inl NullDeref)
            | Some en \<Rightarrow> backtrace_resolv_lines sy en) (\<lambda>found.
       Inr (case found of
              None \<Rightarrow> \<lparr>en_obj = ent, en_function = garbage, en_source = ''(unknown)'', en_line = 0\<rparr>
            | Some (src, line) \<Rightarrow> \<lparr>en_obj = ent, en_function = garbage, en_source = src, en_line = line\<rparr>))"

text \<open>\<open>backtrace_entry_destroy\<close> reads the entry; then whatever \<open>m_function\<close> holds is freed.\<close>

definition Entry_delete :: "cxx_entry \<Rightarrow> unit res" where
  "Entry_delete self =
     (case en_obj self of
        None \<Rightarrow> Inl NullDeref
      | Some en \<Rightarrow> if en_function self \<noteq> NULL then Inl WildPtr else Inr ())"

text \<open>\<open>None\<close> is the exception for an index out of range.\<close>

definition CxxBacktrace_at :: "symbols \<Rightarrow> ptr \<Rightarrow> backtrace \<Rightarrow> nat \<Rightarrow> cxx_entry option res" where
  "CxxBacktrace_at sy garbage self i =
     (if i > backtrace_depth self then Inr None
      else bindr (backtrace_line sy self i) (\<lambda>ent.
           bindr (Entry_create sy garbage ent) (\<lambda>en. Inr (Some en))))"

text \<open>
  The demangler installed for C++. \<open>__cxa_demangle\<close> (\<open>cxa\<close>) fails or gives a text; one that does
  not fit into the array with its terminator makes it free or reallocate that array, which
  is on the stack.
\<close>

definition cxx_demangle :: "(string \<Rightarrow> string option) \<Rightarrow> string \<Rightarrow> string res" where
  "cxx_demangle cxa function =
     (case cxa function of
        None \<Rightarrow> Inr function
      | Some name \<Rightarrow> if length name < 4096 then Inr name else Inl WildPtr)"

section \<open>Leak watching\<close>

text \<open>The virtual functions of a subclass; they get the traces, and a state of their own.\<close>

record 'w notifications =
  notify_alloc :: "ptr \<Rightarrow> 64 word \<Rightarrow> nat option \<Rightarrow> 'w \<times> trace_store \<Rightarrow> ('w \<times> trace_store) res"
  notify_realloc :: "ptr \<Rightarrow> ptr \<Rightarrow> 64 word \<Rightarrow> nat option \<Rightarrow> 'w \<times> trace_store \<Rightarrow> ('w \<times> trace_store) res"
  notify_free :: "ptr \<Rightarrow> nat option \<Rightarrow> 'w \<times> trace_store \<Rightarrow> ('w \<times> trace_store) res"

definition cxx_leakwatch_callback ::
  "'w notifications \<Rightarrow> leakwatch_operation \<Rightarrow> ptr \<Rightarrow> ptr \<Rightarrow> 64 word \<Rightarrow> nat option \<Rightarrow> 'w \<times> trace_store
     \<Rightarrow> ('w \<times> trace_store) res" where
  "cxx_leakwatch_callback self operation oldptr p sz trace = (\<lambda>(w, s).
     bindr (CxxBacktrace_wrap trace s) (\<lambda>(cxxtrace, s).
     bindr (case operation of
              LEAKWATCH_OPERATION_MALLOC \<Rightarrow> notify_alloc self p sz cxxtrace (w, s)
            | LEAKWATCH_OPERATION_REALLOC \<Rightarrow> notify_realloc self oldptr p sz cxxtrace (w, s)
            | LEAKWATCH_OPERATION_FREE \<Rightarrow> notify_free self p cxxtrace (w, s)) (\<lambda>(w, s).
     bindr (CxxBacktrace_delete cxxtrace s) (\<lambda>s. Inr (w, s)))))"

text \<open>The constructor and the destructor; \<open>this\<close> is the address of the object.\<close>

definition CxxLeakwatch_create :: "ptr \<Rightarrow> lw_state \<Rightarrow> lw_state \<times> ptr" where
  "CxxLeakwatch_create this st = tinu_register_watch st this"

definition CxxLeakwatch_delete :: "'e logger \<Rightarrow> ptr \<Rightarrow> lw_state \<Rightarrow> 'e \<Rightarrow> (bool \<times> lw_state \<times> 'e) res" where
  "CxxLeakwatch_delete lg m_handle st e = tinu_unregister_watch lg st m_handle e"

section \<open>Messages\<close>

text \<open>
  A message with the addresses of the strings of its tags: \<open>cm_ptrs\<close> has for each slot those
  of \<open>m_tag\<close> and \<open>m_value\<close>. The map \<open>m_tag_wrapper\<close> is ordered by \<open>const gchar *\<close>, so its
  keys are addresses, not texts.
\<close>

record cxx_message =
  cm_obj :: message
  cm_ptrs :: "(ptr \<times> ptr) list"
  cm_wrapper :: "ptr \<rightharpoonup> ptr"

definition wrap_tags :: "cxx_message \<Rightarrow> cxx_message" where
  "wrap_tags self = self\<lparr>cm_wrapper := foldl (\<lambda>m (tag, val). m(tag \<mapsto> val)) Map.empty (cm_ptrs self)\<rparr>"

definition CxxMessage_create :: "message \<Rightarrow> (ptr \<times> ptr) list \<Rightarrow> cxx_message" where
  "CxxMessage_create msg ptrs = wrap_tags \<lparr>cm_obj = msg, cm_ptrs = ptrs, cm_wrapper = Map.empty\<rparr>"

definition add_tag_raw :: "msg_tag \<Rightarrow> ptr \<times> ptr \<Rightarrow> cxx_message \<Rightarrow> cxx_message res" where
  "add_tag_raw tag ps self =
     bindr (msg_append (cm_obj self) [tag]) (\<lambda>msg.
       Inr (self\<lparr>cm_obj := msg, cm_ptrs := cm_ptrs self @ [ps], cm_wrapper := (cm_wrapper self)(fst ps \<mapsto> snd ps)\<rparr>))"

text \<open>\<open>add_tag\<close>: \<open>txt\<close> is what the stream makes of the value.\<close>

definition add_tag :: "string \<Rightarrow> string \<Rightarrow> ptr \<times> ptr \<Rightarrow> cxx_message \<Rightarrow> cxx_message res" where
  "add_tag key txt ps self = bindr (msg_tag_str key (Some txt)) (\<lambda>tag. add_tag_raw tag ps self)"

text \<open>The addresses move with the slots of the message.\<close>

definition drop_slot :: "msg_tag option list \<Rightarrow> string \<Rightarrow> 'a list \<Rightarrow> 'a list" where
  "drop_slot slots tag ps =
     map snd (remove_first (\<lambda>(slot, p). map_option mt_tag slot = Some tag) (zip slots ps))"

text \<open>\<open>p\<close> is the address the caller passes, \<open>tag\<close> the text there.\<close>

definition remove_tag :: "ptr \<Rightarrow> string \<Rightarrow> cxx_message \<Rightarrow> cxx_message res" where
  "remove_tag p tag self =
     (if cm_wrapper self p = None then Inr self
      else bindr (msg_remove_tag (cm_obj self) tag) (\<lambda>msg.
        Inr (self\<lparr>cm_obj := msg, cm_ptrs := drop_slot (msg_tags (cm_obj self)) tag (cm_ptrs self)\<rparr>)))"

text \<open>\<open>operator[]\<close>: \<open>std::map\<close> adds a \<open>NULL\<close> for a key it does not have.\<close>

definition tag_at :: "ptr \<Rightarrow> cxx_message \<Rightarrow> ptr \<times> cxx_message" where
  "tag_at p self =
     (case cm_wrapper self p of
        Some val \<Rightarrow> (val, self)
      | None \<Rightarrow> (NULL, self\<lparr>cm_wrapper := (cm_wrapper self)(p \<mapsto> NULL)\<rparr>))"

definition cxx_log_callback ::
  "(cxx_message \<Rightarrow> 'e \<Rightarrow> (bool \<times> 'e) res) \<Rightarrow> message \<Rightarrow> (ptr \<times> ptr) list \<Rightarrow> 'e \<Rightarrow> (bool \<times> 'e) res" where
  "cxx_log_callback notify msg ptrs e = notify (CxxMessage_create msg ptrs) e"

definition CxxMessageHandler_create :: "'h \<Rightarrow> ptr \<Rightarrow> int \<Rightarrow> 'h log_state \<Rightarrow> 'h log_state \<times> ptr" where
  "CxxMessageHandler_create callback this max_priority st =
     log_register_message_handler st callback max_priority this"

definition CxxMessageHandler_delete :: "ptr \<Rightarrow> 'h log_state \<Rightarrow> 'h log_state" where
  "CxxMessageHandler_delete m_handle st = log_unregister_message_handler st m_handle"

section \<open>Tests\<close>

text \<open>
  What a body throws at its end: a \<open>Tinu::Exception\<close> with its message and trace, another
  \<open>std::exception\<close>, or anything else.
\<close>

datatype cxx_exception = Tinu_exception string backtrace | Std_exception string | Other_exception

text \<open>\<open>Exception::dump_log\<close>\<close>

definition Exception_dump_log ::
  "('f, 'k, 'e) run_params \<Rightarrow> string \<Rightarrow> backtrace \<Rightarrow> string \<Rightarrow> int \<Rightarrow> int \<Rightarrow> 'e run_state \<Rightarrow> 'e run_state res" where
  "Exception_dump_log P what trace message exception_priority trace_priority st =
     bindr (log_plain P exception_priority message (eval_tags [msg_tag_str ''exception'' (Some what)]) st) (\<lambda>st.
     bindr (backtrace_dump_log (rp_symbols P) (rp_log P) trace ''    ''
              (if trace_priority < 0 then exception_priority else trace_priority) (rs_env st)) (\<lambda>e.
       Inr (st\<lparr>rs_env := e\<rparr>)))"

definition handle_exception ::
  "('f, 'k, 'e) run_params \<Rightarrow> cxx_exception \<Rightarrow> 'e run_state \<Rightarrow> 'e run_state res" where
  "handle_exception P x st =
     (case x of
        Tinu_exception what trace \<Rightarrow>
          Exception_dump_log P what trace ''TINU exception caught during test'' LOG_ERR (-1) st
      | Std_exception what \<Rightarrow>
          log_macro P LOG_ERR ''Standard exception caught'' [msg_tag_str ''exception'' (Some what)] st
      | Other_exception \<Rightarrow> log_macro P LOG_ERR ''Unknown exception caught'' [] st)"

text \<open>
  The functions a test class \<open>T\<close> brings, as codes: those that make and delete its object, the
  one that runs the method, and the one that deletes the \<open>Wrapper\<close> object, whose address is the
  user data of the test. \<open>wrappers\<close> is what these objects hold: class and method.
\<close>

datatype 't cxx_fn = Construct 't | Destruct 't | Run_method 't | Destroy_wrapper 't

type_synonym 't wrappers = "ptr \<Rightarrow> ('t \<times> string) option"

text \<open>\<open>obj\<close> is the object of the class; \<open>body\<close> gives the actions of a method and what it throws at its end.\<close>

definition execute ::
  "'t wrappers \<Rightarrow> ('t \<Rightarrow> string \<Rightarrow> ptr \<Rightarrow> user_act list \<times> cxx_exception option) \<Rightarrow> 't \<Rightarrow> 't cxx_fn test_case \<Rightarrow> ptr
     \<Rightarrow> (user_act list \<times> cxx_exception option) res" where
  "execute wrappers body T test obj =
     (case tc_user_data test of
        Simplified fs \<Rightarrow> Inl WildPtr
      | Opaque ud \<Rightarrow>
          (case wrappers ud of
             None \<Rightarrow> Inl WildPtr
           | Some (T', meth) \<Rightarrow> if T' = T then Inr (body T meth obj) else Inl WildPtr))"

text \<open>\<open>fl\<close> are \<open>__FILE__\<close> and \<open>__PRETTY_FUNCTION__\<close>; each handler has a line of its own.\<close>

definition fail_line :: "cxx_exception \<Rightarrow> 32 word" where
  "fail_line x = (case x of Tinu_exception _ _ \<Rightarrow> 246 | Std_exception _ \<Rightarrow> 251 | Other_exception \<Rightarrow> 256)"

definition test_wrapper ::
  "('t cxx_fn, 'k, 'e) run_params \<Rightarrow> ('t cxx_fn, 'k) test_context \<Rightarrow> string \<times> string \<Rightarrow> 't wrappers
     \<Rightarrow> ('t \<Rightarrow> string \<Rightarrow> ptr \<Rightarrow> user_act list \<times> cxx_exception option) \<Rightarrow> 't \<Rightarrow> 't cxx_fn test_case \<Rightarrow> ptr
     \<Rightarrow> 'e run_state \<Rightarrow> ('e run_state \<times> unit option) res" where
  "test_wrapper P ctx fl wrappers body T test obj st =
     bindr (execute wrappers body T test obj) (\<lambda>(acts, thrown).
     bindr (run_acts P ctx acts st) (\<lambda>(st, fin).
       case fin of
         None \<Rightarrow> Inr (st, None)
       | Some _ \<Rightarrow>
           (case thrown of
              None \<Rightarrow> Inr (st, Some ())
            | Some x \<Rightarrow>
                bindr (handle_exception P x st) (\<lambda>st.
                bindr (tinu_test_assert P ctx False ''fail'' ''<none>'' (fst fl) (snd fl) (fail_line x) [] st)
                  (\<lambda>(_, st). Inr (st, Some ()))))))"

text \<open>\<open>ud\<close> is where \<open>new\<close> puts the \<open>Wrapper\<close> object of the method.\<close>

definition add_test ::
  "'e logger \<Rightarrow> ptr \<Rightarrow> 't \<Rightarrow> string \<Rightarrow> 't wrappers \<Rightarrow> ('t cxx_fn, 'k) test_context \<Rightarrow> string \<Rightarrow> string \<Rightarrow> 'e
     \<Rightarrow> ('t wrappers \<times> ('t cxx_fn, 'k) test_context \<times> 'e) res" where
  "add_test lg ud T meth wrappers self suite name e =
     bindr (test_add_extended lg self suite name (Some (Ext (Construct T))) (Some (Ext (Destruct T)))
       (Some (Ext (Run_method T))) (Opaque ud) (Some (Destroy_wrapper T)) e) (\<lambda>(self, e).
         Inr (wrappers(ud \<mapsto> (T, meth)), self, e))"

section \<open>Properties\<close>

text \<open>C32: The bounds check of \<open>CxxBacktrace::at\<close> is off by one. Up to the last frame the entry of
  the frame is made, behind the frames there is an exception, but at the index that is
  the number of frames the program dereferences \<open>NULL\<close>, when it makes the entry or when it
  deletes it.
\<close>

theorem cxx_at_bounds:
  "if i < backtrace_depth b then
     CxxBacktrace_at sy garbage b i =
       bindr (backtrace_resolve_info sy (bt_symbols b ! i)) (\<lambda>ent.
       bindr (Entry_create sy garbage ent) (\<lambda>en. Inr (Some en)))
   else if i = backtrace_depth b then
     bindr (CxxBacktrace_at sy garbage b i) (\<lambda>en. case en of None \<Rightarrow> Inr () | Some en \<Rightarrow> Entry_delete en) = Inl NullDeref
   else CxxBacktrace_at sy garbage b i = Inr None"
  by (auto simp: CxxBacktrace_at_def backtrace_depth_def backtrace_line_def Entry_create_def Entry_delete_def
      split: option.splits)

text \<open>Deleting an entry frees \<open>m_function\<close>, which was never set.\<close>

lemma entry_frees_garbage:
  "garbage \<noteq> NULL \<Longrightarrow> Entry_create sy garbage (Some en) = Inr self \<Longrightarrow> Entry_delete self = Inl WildPtr"
  by (auto simp: Entry_create_def Entry_delete_def res_simps split: option.splits)

lemma ref_then_unref:
  assumes "ts_traces s i = Some b" and "0 < bt_refcnt b"
  shows "\<exists>s1. ref_trace s (Some i) = Inr s1 \<and> ts_traces s1 i = Some (backtrace_reference b) \<and>
     unref_trace s1 (Some i) = Inr s"
  using assms
  by (auto simp: ref_trace_def unref_trace_def backtrace_reference_def backtrace_unreference_def Let_def fun_upd_idem)

text \<open>C30: What a C++ watch is told. For every operation the virtual function of that name is called
  once, with the trace of the event, which is counted up for the object it gets and down again
  afterwards. But \<open>notify_free\<close> gets the new pointer of the event, and a free has none: every
  block is reported as \<open>NULL\<close>, whatever its address \<open>old\<close> is.
\<close>

theorem cxx_watch_told:
  assumes "ts_traces s i = Some b" and "0 < bt_refcnt b"
    and "\<And>q n w s. notify_alloc self q n (Some i) (w, s) = Inr (on_alloc q n w, s)"
    and "\<And>q q' n w s. notify_realloc self q q' n (Some i) (w, s) = Inr (on_realloc q q' n w, s)"
    and "\<And>q w s. notify_free self q (Some i) (w, s) = Inr (on_free q w, s)"
  shows "cxx_leakwatch_callback self LEAKWATCH_OPERATION_MALLOC NULL p sz (Some i) (w, s) = Inr (on_alloc p sz w, s) \<and>
     cxx_leakwatch_callback self LEAKWATCH_OPERATION_REALLOC old p sz (Some i) (w, s) = Inr (on_realloc old p sz w, s) \<and>
     cxx_leakwatch_callback self LEAKWATCH_OPERATION_FREE old NULL 0 (Some i) (w, s) = Inr (on_free NULL w, s)"
proof -
  obtain s1 where s1: "ref_trace s (Some i) = Inr s1" "unref_trace s1 (Some i) = Inr s"
    using ref_then_unref [OF assms(1,2)] by blast
  show ?thesis
    using s1 assms(3-5) by (simp add: cxx_leakwatch_callback_def CxxBacktrace_wrap_def CxxBacktrace_delete_def)
qed

section \<open>Tags by address\<close>

lemma wrap_fold:
  "foldl (\<lambda>m (tag, val). m(tag \<mapsto> val)) m ps k = (case map_of (rev ps) k of Some v \<Rightarrow> Some v | None \<Rightarrow> m k)"
  by (induction ps arbitrary: m) (auto simp: map_add_def split: option.splits)

lemma wrapper_fresh: "cm_wrapper (CxxMessage_create msg ps) = map_of (rev ps)"
  by (rule ext) (simp add: CxxMessage_create_def wrap_tags_def wrap_fold split: option.split)

text \<open>C31: The tags of a \<open>CxxMessage\<close> are found by the address of their name, not by the name. With the
  address stored in the message \<open>operator[]\<close> gives the value; for a name the caller holds
  anywhere else it gives \<open>NULL\<close> and \<open>remove_tag\<close> does nothing, whatever tags there are. Only
  after such a search has added the address to the map does \<open>remove_tag\<close> take the tag out of
  the message, and then the map still has the address of the value that has been freed.
\<close>

theorem cxx_tags_by_address:
  assumes "msg_holds msg ts" and "p \<notin> fst ` set ps" and "distinct (map fst ps)"
  shows "(\<forall>i < length ps. tag_at (fst (ps ! i)) (CxxMessage_create msg ps) = (snd (ps ! i), CxxMessage_create msg ps)) \<and>
     fst (tag_at p (CxxMessage_create msg ps)) = NULL \<and>
     remove_tag p name (CxxMessage_create msg ps) = Inr (CxxMessage_create msg ps) \<and>
     (\<exists>m. remove_tag p name (snd (tag_at p (CxxMessage_create msg ps))) = Inr m \<and>
        msg_holds (cm_obj m) (remove_first (\<lambda>t. mt_tag t = name) ts) \<and>
        cm_wrapper m = (map_of (rev ps))(p \<mapsto> NULL))"
proof -
  have obj: "cm_obj (CxxMessage_create msg ps) = msg" by (simp add: CxxMessage_create_def wrap_tags_def)
  have "map_of (rev ps) (fst (ps ! i)) = Some (snd (ps ! i))" if "i < length ps" for i
    using that assms(3) by (intro map_of_is_SomeI) (simp_all add: rev_map [symmetric])
  moreover have "map_of (rev ps) p = None" using assms(2) by (simp add: map_of_eq_None_iff)
  moreover obtain msg' where "msg_remove_tag msg name = Inr msg'" "msg_holds msg' (remove_first (\<lambda>t. mt_tag t = name) ts)"
    using remove_scan_holds [OF assms(1), of 0 name] assms(1) by (auto simp: msg_remove_tag_def msg_holds_def)
  ultimately show ?thesis by (simp add: tag_at_def remove_tag_def wrapper_fresh obj)
qed

lemma cxx_tags_by_address_witness:
  "fst (tag_at 500 (CxxMessage_create two_tag_message [(10, 20), (30, 40)])) = NULL \<and>
   fst (tag_at 30 (CxxMessage_create two_tag_message [(10, 20), (30, 40)])) = 40 \<and>
   (\<exists>m. remove_tag 500 ''b'' (snd (tag_at 500 (CxxMessage_create two_tag_message [(10, 20), (30, 40)]))) = Inr m \<and>
      msg_holds (cm_obj m) [\<lparr>mt_tag = ''a'', mt_value = ''1''\<rparr>] \<and> cm_wrapper m 30 = Some 40)"
proof -
  let ?ts = "[\<lparr>mt_tag = ''a'', mt_value = ''1''\<rparr>, \<lparr>mt_tag = ''b'', mt_value = ''2''\<rparr>]"
  have "msg_holds two_tag_message ?ts" by (simp add: msg_holds_def two_tag_message_def)
  from cxx_tags_by_address [OF this, of 500 "[(10, 20), (30, 40)]" "''b''"] show ?thesis
    by (auto simp: remove_first_def)
qed

section \<open>Exceptions\<close>

context test_observer
begin

lemma handle_quiet:
  assumes "\<forall>what trace. x = Tinu_exception what trace \<longrightarrow> list_all (resolves (rp_symbols P)) (bt_symbols trace)"
  shows "\<exists>e'. handle_exception P x st = Inr (st\<lparr>rs_env := e'\<rparr>) \<and> obs e' = obs (rs_env st)"
proof -
  have lvl: "priority_ok LOG_ERR" by (simp add: priority_ok_def)
  show ?thesis
  proof (cases x)
    case (Tinu_exception what trace)
    obtain tags where tags: "eval_tags [msg_tag_str ''exception'' (Some what)] = Inr tags" "length tags = 1"
      using eval_tags_total [of "[msg_tag_str ''exception'' (Some what)]"] tag_str_total by auto
    obtain e1 where e1: "log_plain P LOG_ERR ''TINU exception caught during test''
          (eval_tags [msg_tag_str ''exception'' (Some what)]) st = Inr (st\<lparr>rs_env := e1\<rparr>)" "obs e1 = obs (rs_env st)"
      using log_plain_quiet [OF lvl tags(1)] tags(2) by auto
    obtain e2 where "backtrace_dump_log (rp_symbols P) (rp_log P) trace ''    '' LOG_ERR e1 = Inr e2" "obs e2 = obs e1"
      using dump_quiet [of trace LOG_ERR "''    ''" e1] assms Tinu_exception lvl by auto
    then show ?thesis using e1
      by (intro exI [of _ e2]) (simp add: handle_exception_def Tinu_exception Exception_dump_log_def del: eval_tags.simps)
  next
    case (Std_exception what)
    obtain tags where tags: "eval_tags [msg_tag_str ''exception'' (Some what)] = Inr tags" "length tags = 1"
      using eval_tags_total [of "[msg_tag_str ''exception'' (Some what)]"] tag_str_total by auto
    show ?thesis
      using log_macro_quiet [OF lvl tags(1), of "''Standard exception caught''" st] tags(2)
      by (simp add: handle_exception_def Std_exception del: eval_tags.simps)
  next
    case Other_exception
    show ?thesis
      using log_macro_quiet [OF lvl, of "[]" "[]" "''Unknown exception caught''" st]
      by (simp add: handle_exception_def Other_exception)
  qed
qed

end

text \<open>C17: An exception is a failed assertion. When a method without a fatal signal ends with an
  exception of any kind, the wrapper returns to the runner, the result of the test is
  \<open>TEST_FAILED\<close>, and after the events of the method the hooks are told of one failed assertion,
  at the line of the handler.
\<close>

theorem cxx_exception_fails:
  assumes "test_observer P obs ctx seen fits"
    and "tc_user_data test = Opaque ud" and "wrappers ud = Some (T, meth)" and "body T meth this = (acts, Some x)"
    and "list_all act_ok acts" and "\<not> list_ex is_fatal acts" and "rs_case st \<noteq> None"
    and "libc_hooks (rs_lw st) \<noteq> all_hooks HOwn"
    and "\<forall>what trace. x = Tinu_exception what trace \<longrightarrow> list_all (resolves (rp_symbols P)) (bt_symbols trace)"
    and "accepts fits seen (acts_events acts @ [Ev_assert False (fst fl) (snd fl) (fail_line x)]) (obs (rs_env st))"
  shows "\<exists>e' cs. test_wrapper P ctx fl wrappers body T test this st =
       Inr (st\<lparr>rs_env := e', rs_cores := cs, rs_result := TEST_FAILED\<rparr>, Some ()) \<and>
     obs e' = fold seen (acts_events acts @ [Ev_assert False (fst fl) (snd fl) (fail_line x)]) (obs (rs_env st))"
proof -
  have acc: "accepts fits seen (acts_events acts) (obs (rs_env st))" using assms(10) by simp
  obtain e1 cs where e1: "run_acts P ctx acts st =
        Inr (st\<lparr>rs_env := e1, rs_cores := cs, rs_result := fst (acts_outcome acts (rs_result st))\<rparr>, Some ())"
      "obs e1 = fold seen (acts_events acts) (obs (rs_env st))"
    using test_observer.run_acts_seen [OF assms(1,7,8,5) _ acc] assms(6) not_fatal_finishes [OF assms(6)] by auto
  let ?s1 = "st\<lparr>rs_env := e1, rs_cores := cs, rs_result := fst (acts_outcome acts (rs_result st))\<rparr>"
  obtain e2 where e2: "handle_exception P x ?s1 = Inr (?s1\<lparr>rs_env := e2\<rparr>)" "obs e2 = obs e1"
    using test_observer.handle_quiet [OF assms(1,9), of ?s1] by auto
  have fit: "fits (Ev_assert False (fst fl) (snd fl) (fail_line x)) (obs (rs_env (?s1\<lparr>rs_env := e2\<rparr>)))"
    using assms(10) e1(2) e2(2) by simp
  obtain e3 where e3: "tinu_test_assert P ctx False ''fail'' ''<none>'' (fst fl) (snd fl) (fail_line x) [] (?s1\<lparr>rs_env := e2\<rparr>) =
        Inr (False, ?s1\<lparr>rs_env := e2, rs_result := TEST_FAILED, rs_env := e3\<rparr>)"
      "obs e3 = seen (Ev_assert False (fst fl) (snd fl) (fail_line x)) (obs e2)"
    using test_observer.assert_seen [OF assms(1) _ fit, of "[]" "''fail''" "''<none>''"] by auto
  show ?thesis
    using e1 e2 e3 assms(2-4)
    by (intro exI [of _ e3] exI [of _ cs]) (simp add: test_wrapper_def execute_def)
qed


definition cxx_sample_test :: "unit cxx_fn test_case" where
  "cxx_sample_test =
     \<lparr>tc_suite = ''s'', tc_name = ''t'', tc_setup = Some (Ext (Construct ())), tc_cleanup = Some (Ext (Destruct ())),
      tc_test = Some (Ext (Run_method ())), tc_user_data = Opaque 64, tc_user_data_cleanup = Some (Destroy_wrapper ())\<rparr>"

definition cxx_sample_state :: "'e \<Rightarrow> 'e run_state" where
  "cxx_sample_state e = (start_state e)\<lparr>rs_case := Some (''s'', ''t'')\<rparr>"

lemma cxx_exception_fails_witness:
  "\<exists>st'. test_wrapper (record_params (\<lambda>f arg. ([], NULL)) 7) (record_context True []) (''cxxwrap.h'', ''f'')
        [64 \<mapsto> ((), ''test'')]
        (\<lambda>T meth this. ([UAssert True ''positive'' ''1'' ''a.cc'' ''g'' 3 []], Some (Tinu_exception ''bad'' \<lparr>bt_refcnt = 1, bt_symbols = []\<rparr>)))
        () cxx_sample_test 800 (cxx_sample_state ([], no_io)) = Inr (st', Some ()) \<and>
     rs_result st' = TEST_FAILED \<and>
     fst (rs_env st') = [Ev_assert True ''a.cc'' ''g'' 3, Ev_assert False ''cxxwrap.h'' ''f'' 246]"
proof -
  let ?body = "\<lambda>(T :: unit) (meth :: string) (this :: ptr). ([UAssert True ''positive'' ''1'' ''a.cc'' ''g'' 3 []],
      Some (Tinu_exception ''bad'' \<lparr>bt_refcnt = 1, bt_symbols = []\<rparr>))"
  have "libc_hooks (rs_lw (cxx_sample_state ([], no_io))) \<noteq> all_hooks HOwn"
    by (simp add: cxx_sample_state_def start_state_def lw_start_def all_hooks_def)
  moreover have "rs_case (cxx_sample_state ([], no_io)) \<noteq> None" by (simp add: cxx_sample_state_def)
  ultimately show ?thesis
    using cxx_exception_fails [OF recorder.test_observer_axioms [of "\<lambda>f arg. ([], NULL)" 7 True "[]"],
        where test = cxx_sample_test and ud = 64 and wrappers = "[64 \<mapsto> ((), ''test'')]" and T = "()" and meth = "''test''"
          and body = ?body and this = 800 and st = "cxx_sample_state ([], no_io)" and fl = "(''cxxwrap.h'', ''f'')"]
    by (auto simp: cxx_sample_test_def cxx_sample_state_def start_state_def is_fatal_def fail_line_def)
qed

definition counting_watch :: "(nat \<times> ptr list) notifications" where
  "counting_watch =
     \<lparr>notify_alloc = (\<lambda>p sz t ((n, ps), s). Inr ((n + unat sz, ps), s)),
      notify_realloc = (\<lambda>old p sz t ((n, ps), s). Inr ((n + unat sz, ps), s)),
      notify_free = (\<lambda>p t ((n, ps), s). Inr ((n, p # ps), s))\<rparr>"

lemma cxx_watch_told_witness:
  "cxx_leakwatch_callback counting_watch LEAKWATCH_OPERATION_FREE 64 NULL 0 (Some 0)
      ((8, []), \<lparr>ts_traces = [0 \<mapsto> \<lparr>bt_refcnt = 1, bt_symbols = []\<rparr>], ts_next = 1\<rparr>) =
    Inr ((8, [NULL]), \<lparr>ts_traces = [0 \<mapsto> \<lparr>bt_refcnt = 1, bt_symbols = []\<rparr>], ts_next = 1\<rparr>)"
proof -
  let ?s = "\<lparr>ts_traces = [0 \<mapsto> \<lparr>bt_refcnt = 1, bt_symbols = []\<rparr>], ts_next = 1\<rparr>"
  have "cxx_leakwatch_callback counting_watch LEAKWATCH_OPERATION_FREE 64 NULL 0 (Some 0) ((8, []), ?s) =
      Inr ((\<lambda>p (n, ps). (n, p # ps)) NULL (8, []), ?s)"
    by (rule cxx_watch_told [where b = "\<lparr>bt_refcnt = 1, bt_symbols = []\<rparr>"
          and on_alloc = "\<lambda>p sz (n, ps). (n + unat sz, ps)" and on_realloc = "\<lambda>old p sz (n, ps). (n + unat sz, ps)",
          THEN conjunct2, THEN conjunct2])
      (auto simp: counting_watch_def)
  then show ?thesis by simp
qed

end
