(* ===== verification/Spec2Isabelle.thy ===== *)
theory Spec2Isabelle
  imports TinuMain CoreSession CxxWrap
begin

text \<open>
  A model of Tinu, a unit test framework for C, and of the core dumper it ships.

  \<^bold>\<open>The program.\<close> A test program registers tests in a context (\<open>lib/test.c\<close>), and \<open>tinu_main\<close>
  (\<open>lib/main.c\<close>) parses the options, chooses a report module, connects the message handlers
  (\<open>lib/log.c\<close>) and the statistics (\<open>lib/statistics.c\<close>), runs the tests and prints the report
  (\<open>lib/report-*.c\<close>). Each test runs in a context of its own, so that a fatal signal or a failed
  assertion that aborts ends only the test; around it a watch on the allocator
  (\<open>lib/leakwatch.c\<close>) collects what the test leaks, with backtraces (\<open>lib/backtrace.c\<close>)
  whose lines come from the DWARF line table (\<open>lib/dwarf.c\<close>). Hooks and report modules live in
  circular lists (\<open>lib/clist.c\<close>). When a test crashes, the core dumper (\<open>coredumper/\<close>) can
  write the memory and the threads of the process as an ELF core file.

  \<^bold>\<open>Theories\<close>, each after those it uses.
  \<^item> \<open>Prelude\<close>: abnormal ends of a C function (\<open>'a res\<close>), their sequencing (\<open>bindr\<close>), loops over
    lists, and the collections of rewrite rules. \<open>CStd\<close>: the string functions, printf directives
    and \<open>strtoul\<close> of the C library.
  \<^item> \<open>Names\<close> (\<open>names.c\<close>), \<open>Message\<close> (\<open>message.c\<close>), \<open>Log\<close> and \<open>Logger\<close> (\<open>log.c\<close>): name tables,
    messages with their growing array of tags as a list of slots, and the handlers with the
    cached maximal priority. \<open>Logger\<close> has the interface \<open>total_logger\<close> that everything that logs
    relies on.
  \<^item> \<open>CList\<close> (\<open>clist.c\<close>) on an explicit heap of nodes; \<open>RingFamily\<close> has the interface
    \<open>list_family\<close> of several such lists in one heap; \<open>TestHooks\<close> are the hook lists of a context.
  \<^item> \<open>Dwarf\<close>, \<open>Backtrace\<close>, \<open>Leakwatch\<close>: line table, reference-counted backtraces, and the
    watches with their tables of live blocks.
  \<^item> \<open>TestRun\<close>, \<open>TestOutcome\<close>, \<open>TestRegistry\<close> (\<open>test.c\<close>): running, what a run amounts to (with the
    interface \<open>test_observer\<close> between the runner and the hooks), and registration.
  \<^item> \<open>Statistics\<close>, \<open>Report\<close>, \<open>TinuMain\<close>: counting, printing, and the whole program from the options
    to the exit status.
  \<^item> \<open>CoreIo\<close>: reading and writing of the core dumper with retries; the writers of a core file
    share the interface \<open>core_writer\<close>. \<open>CoreParams\<close> (\<open>coredumper.c\<close>): the versioned parameters
    and the entry points. \<open>CoreMaps\<close>, \<open>MapsText\<close>: the mappings of the process and the text
    the kernel prints of them. \<open>CoreElf\<close>, \<open>CoreFile\<close>: \<open>CreateElfCore\<close>. \<open>CoreLayout\<close>, \<open>CoreDump\<close>:
    the bytes of its files and what a debugger reads back. \<open>CoreFrame\<close> (\<open>elfcore.h\<close>): the
    snapshot of the caller's registers. \<open>CoreProcess\<close>: \<open>InternalGetCoreDump\<close>, with what it records of
    the process and its search for a compressor. \<open>ThreadLister\<close> (\<open>linuxthreads.c\<close>): the lister thread as a state machine over the answers of the kernel, its
    signal handler, and resuming. \<open>SigSet\<close>: the signal sets of \<open>linux_syscall_support.h\<close>, with the
    interface \<open>signal_sets\<close>, and the mask under which the lister runs. \<open>CoreSession\<close>: a dump as
    the callback of the lister.
  \<^item> \<open>CxxWrap\<close> (\<open>cxxwrap.cc\<close>, \<open>cxxwrap.h\<close>): backtraces, watches, messages and tests as C++ objects.

  \<^bold>\<open>Correspondence.\<close> A definition has the name of the C function or type it models, without a
  leading underscore, with the parameters in the order of the source. Structures are records;
  enumerations are datatypes or integers as the code uses them; machine integers are words where
  their wrap-around can be seen, and \<open>int\<close> or \<open>nat\<close> where the values are bounded by construction.
  Pointers are addresses in an explicit heap (\<open>CList\<close>), indices into an array or values. A global
  variable is a component of the state that is passed along. A null or wild access, a failed
  \<open>g_assert\<close>, a fatal signal or \<open>exit\<close> is \<open>Inl\<close>; an error the code reports is a value.

  \<^bold>\<open>What the lemmas show.\<close> The circular lists refine lists, with nothing else in the heap touched.
  Messages refine lists of tags; the cached priority never hides a message that a handler wants,
  and diversion captures all. Hooks run in order and are never reached through a dangling
  pointer. The leak table is exactly the set of live blocks, and the allocator's own hooks are
  back when the last watch is gone. A test's result is a function of what its functions do; a
  run is the conjunction of its tests; the statistics and the report file say the same, and the
  exit status is 0 exactly if every selected test passed. The core dumper's writers write
  prefixes within their limits; what is read of the mappings is what the kernel printed; the
  core file has every mapping and every note where its headers say, in the limited case its
  prefix, and a healthy process can always be dumped. The threads the lister has suspended are
  always those its signal handler knows, so a fault leaves none suspended, and the callback
  gets each suspended thread once; from there to the file on disk the entry points do what
  they promise. The C++ classes keep the counts of traces, and an exception that leaves a test
  is a failed assertion. The theorems named in the findings show defects of the code, such as
  the byte too many that \<open>PipeWriter\<close> sends, the truncated stack pointer of the calling thread,
  or the C++ watch that reports each freed block as \<open>NULL\<close>.

  \<^bold>\<open>Loops and bounds.\<close> Structural recursion or a measure wherever the code terminates by its data.
  The pointer loops of \<open>clist.c\<close> and the search for a hook follow the heap and may run forever, so
  they are partial functions whose result is then \<open>None\<close>; the theorems about rings show that it
  is \<open>Some\<close>. No definition needs fuel. The kernel's
  answers to \<open>read\<close>, \<open>write\<close> and \<open>poll\<close> are finite lists, after which every call does all that is
  asked, so retrying ends; for \<open>poll\<close> the end of the list is an error of \<open>poll\<close>.

  \<^bold>\<open>Not modelled.\<close> GLib, libdwarf, the kernel, \<open>ptrace\<close> and the executable's symbols are parameters
  of the definitions that use them. \<open>coredumper/linux_syscall_support.h\<close> is, but for the
  signal sets and \<open>ptrace_detach\<close>, one inline assembly macro per system call and architecture. Of
  the C++ classes the object of the whole program (\<open>CxxTinu\<close>) is left out. \<open>example/\<close> are sample programs. Of the core dumper, the other architectures than x86-64 and the
  fallback without threads (\<open>thread_lister.c\<close>, \<open>GetParentRegs\<close>) are left out; descriptors are
  not counted, so that a leak of one cannot be seen in the model.
\<close>

end
